(* ===== verification/Prelude.thy ===== *)
theory Prelude
  imports Main "HOL-Library.AList"
begin

text \<open>
  Shared vocabulary of the development: identifiers and clocks, the insertion-ordered JavaScript
  \<open>Map\<close> as an association list updated by \<^const>\<open>AList.update\<close>, the first-match searches the
  code performs, SQL-style table updates, and the named collections the component proofs draw on.
\<close>

section \<open>Names of the model's types\<close>

type_synonym ident = string
type_synonym millis = int
type_synonym seconds = int

named_theorems table_simps
  \<open>facts on row-wise updates of a table\<close>

named_theorems jmap_simps
  \<open>facts on insertion-ordered maps\<close>

text \<open>\<open>Math.floor(ms / 1000)\<close>: the unix second of a clock reading in milliseconds.\<close>

abbreviation to_sec :: "millis \<Rightarrow> seconds" where
  "to_sec ms \<equiv> ms div 1000"

text \<open>JavaScript truthiness of an optional string: absent and empty are both false.\<close>

definition truthy_str :: "string option \<Rightarrow> bool" where
  "truthy_str s \<longleftrightarrow> (case s of None \<Rightarrow> False | Some x \<Rightarrow> x \<noteq> [])"

text \<open>\<open>x ?? d\<close> on a nullable value.\<close>

definition coalesce :: "'a option \<Rightarrow> 'a \<Rightarrow> 'a" where
  "coalesce x d = (case x of None \<Rightarrow> d | Some v \<Rightarrow> v)"

lemma coalesce_simps [simp]: "coalesce None d = d" "coalesce (Some v) d = v"
  by (simp_all add: coalesce_def)

text \<open>\<open>a ?? b\<close> where both sides are nullable.\<close>

definition or_else :: "'a option \<Rightarrow> 'a option \<Rightarrow> 'a option" where
  "or_else x y = (case x of None \<Rightarrow> y | Some v \<Rightarrow> Some v)"

lemma or_else_simps [simp]: "or_else None y = y" "or_else (Some v) y = Some v"
  by (simp_all add: or_else_def)

section \<open>Insertion-ordered maps\<close>

text \<open>
  A JavaScript \<open>Map\<close> iterates in insertion order: setting a present key keeps its position,
  setting a new one appends. \<^const>\<open>AList.update\<close> and \<^const>\<open>AList.delete\<close> do exactly that.
\<close>

type_synonym ('k, 'v) jmap = "('k \<times> 'v) list"

abbreviation jm_get :: "('k, 'v) jmap \<Rightarrow> 'k \<Rightarrow> 'v option" where
  "jm_get m k \<equiv> map_of m k"

abbreviation jm_set :: "'k \<Rightarrow> 'v \<Rightarrow> ('k, 'v) jmap \<Rightarrow> ('k, 'v) jmap" where
  "jm_set k v m \<equiv> AList.update k v m"

abbreviation jm_del :: "'k \<Rightarrow> ('k, 'v) jmap \<Rightarrow> ('k, 'v) jmap" where
  "jm_del k m \<equiv> AList.delete k m"

abbreviation jm_keys :: "('k, 'v) jmap \<Rightarrow> 'k list" where
  "jm_keys m \<equiv> map fst m"

abbreviation jm_values :: "('k, 'v) jmap \<Rightarrow> 'v list" where
  "jm_values m \<equiv> map snd m"

abbreviation jm_wf :: "('k, 'v) jmap \<Rightarrow> bool" where
  "jm_wf m \<equiv> distinct (map fst m)"

lemma jm_get_set [simp, jmap_simps]: "jm_get (jm_set k v m) k' = (if k' = k then Some v else jm_get m k')"
  by (simp add: update_conv')

lemma jm_get_del [simp, jmap_simps]: "jm_get (jm_del k m) k' = (if k' = k then None else jm_get m k')"
  by (simp add: delete_conv')

lemma jm_wf_set [simp, intro, jmap_simps]: "jm_wf m \<Longrightarrow> jm_wf (jm_set k v m)"
  by (rule distinct_update)

lemma jm_wf_del [simp, intro, jmap_simps]: "jm_wf m \<Longrightarrow> jm_wf (jm_del k m)"
  by (rule distinct_delete)

lemma jm_wf_filter [simp, intro]: "jm_wf m \<Longrightarrow> jm_wf (filter P m)"
  by (induction m) auto

lemma jm_get_filter:
  "jm_wf m \<Longrightarrow> jm_get (filter (\<lambda>(k, v). P k v) m) k
     = (case jm_get m k of None \<Rightarrow> None | Some v \<Rightarrow> if P k v then Some v else None)"
  by (induction m) (auto split: option.splits simp: map_of_eq_None_iff image_iff)

lemma jm_in_set_update:
  "p \<in> set (jm_set k v m) \<Longrightarrow> p = (k, v) \<or> p \<in> set m"
  by (induction m) (auto split: if_splits)

lemma jm_in_set_delete: "p \<in> set (jm_del k m) \<Longrightarrow> p \<in> set m"
  by (induction m) (auto split: if_splits)

lemma jm_get_in_set: "jm_get m k = Some v \<Longrightarrow> (k, v) \<in> set m"
  by (rule map_of_SomeD)

section \<open>Tables\<close>

text \<open>\<open>UPDATE t SET f WHERE P\<close>, and the number of rows it changed.\<close>

definition update_where :: "('r \<Rightarrow> bool) \<Rightarrow> ('r \<Rightarrow> 'r) \<Rightarrow> 'r list \<Rightarrow> 'r list" where
  "update_where P f t = map (\<lambda>r. if P r then f r else r) t"

definition rows_where :: "('r \<Rightarrow> bool) \<Rightarrow> 'r list \<Rightarrow> nat" where
  "rows_where P t = length (filter P t)"

text \<open>\<open>SELECT ... WHERE P\<close> read with \<open>.get()\<close>: the first matching row.\<close>

abbreviation get_where :: "('r \<Rightarrow> bool) \<Rightarrow> 'r list \<Rightarrow> 'r option" where
  "get_where P t \<equiv> find P t"

lemma length_update_where [simp, table_simps]: "length (update_where P f t) = length t"
  by (simp add: update_where_def)

lemma update_where_Nil [simp]: "update_where P f [] = []"
  by (simp add: update_where_def)

lemma update_where_Cons [simp]:
  "update_where P f (r # t) = (if P r then f r else r) # update_where P f t"
  by (simp add: update_where_def)

lemma in_update_where [table_simps]:
  "r' \<in> set (update_where P f t) \<longleftrightarrow> (\<exists>r \<in> set t. r' = (if P r then f r else r))"
  by (auto simp: update_where_def)

lemma map_update_where [table_simps]:
  "(\<And>r. P r \<Longrightarrow> g (f r) = g r) \<Longrightarrow> map g (update_where P f t) = map g t"
  by (auto simp: update_where_def)

lemma update_where_none [table_simps]: "(\<And>r. r \<in> set t \<Longrightarrow> \<not> P r) \<Longrightarrow> update_where P f t = t"
  by (induction t) auto

lemma find_Some_in: "find P xs = Some x \<Longrightarrow> x \<in> set xs \<and> P x"
  by (auto simp: find_Some_iff)

lemma find_None_all: "find P xs = None \<longleftrightarrow> (\<forall>x \<in> set xs. \<not> P x)"
  by (auto simp: find_None_iff)

lemma find_unique_key:
  "distinct (map key xs) \<Longrightarrow> x \<in> set xs \<Longrightarrow> find (\<lambda>r. key r = key x) xs = Some x"
  by (induction xs) (auto simp: image_iff)

lemma find_update_where:
  assumes "\<And>r. key (f r) = key r"
  shows "find (\<lambda>r. key r = k) (update_where P f t)
           = map_option (\<lambda>r. if P r then f r else r) (find (\<lambda>r. key r = k) t)"
  using assms by (induction t) auto

section \<open>Loops that a throw ends\<close>

text \<open>A loop whose body may throw: the state reached so far, and the error that ended it.\<close>

fun each_until :: "('a \<Rightarrow> 's \<Rightarrow> 's \<times> 'e option) \<Rightarrow> 'a list \<Rightarrow> 's \<Rightarrow> 's \<times> 'e option" where
  "each_until f [] s = (s, None)"
| "each_until f (x # xs) s =
     (case f x s of (s', Some e) \<Rightarrow> (s', Some e) | (s', None) \<Rightarrow> each_until f xs s')"

lemma each_until_invariant:
  assumes "\<And>x s. x \<in> set xs \<Longrightarrow> I s \<Longrightarrow> I (fst (f x s))" "I s"
  shows "I (fst (each_until f xs s))"
  using assms
proof (induction xs arbitrary: s)
  case (Cons x xs)
  obtain s' e where f: "f x s = (s', e)" by (cases "f x s") auto
  have "I s'" using Cons.prems(1) [of x s] Cons.prems(2) f by simp
  then show ?case using Cons f by (cases e) simp_all
qed simp

text \<open>\<open>Math.round(ms / 1000)\<close> for an integer: halves round up.\<close>

definition round_sec :: "millis \<Rightarrow> seconds" where
  "round_sec ms = (ms + 500) div 1000"

section \<open>Decimal rendering of integers\<close>

text \<open>Template literals print an integer in decimal.\<close>

fun nat_digits :: "nat \<Rightarrow> string" where
  "nat_digits n = (if n < 10 then [char_of (48 + n)] else nat_digits (n div 10) @ [char_of (48 + n mod 10)])"

declare nat_digits.simps [simp del]

definition show_int :: "int \<Rightarrow> string" where
  "show_int i = (if i < 0 then CHR ''-'' # nat_digits (nat (- i)) else nat_digits (nat i))"

end
