(* ===== verification/Policy.thy ===== *)
theory Policy
  imports Prelude
begin

text \<open>
  The activity vocabulary (\<open>packages/protocol/src/activity.ts\<close>) and the conflict policy of
  \<open>packages/core/src/activity/policy.ts\<close>: the table saying whether one activity may start over
  another, and \<open>evaluate\<close>, which folds it over everything live on a device.
\<close>

section \<open>Activities\<close>

datatype activity_kind =
    KControl | KJob | KWorkflowJob | KInstall | KTransfer | KPrep | KCommand | KAgent
  | KNetworkApply | KWake

datatype actor_kind = AUser | AAgent | ASystem | APlugin

record activity_actor =
  actor_kind :: actor_kind
  actor_id :: ident
  actor_label :: string

text \<open>\<open>meta\<close> is an opaque record of the code; its rendering is kept as a string.\<close>

record device_activity =
  act_id :: ident
  act_kind :: activity_kind
  act_label :: string
  act_actor :: activity_actor
  started_at :: seconds
  updated_at :: seconds
  act_href :: "string option"
  act_meta :: "string option"

record last_control =
  lc_actor :: activity_actor
  lc_ended_at :: seconds

definition activity_kind_name :: "activity_kind \<Rightarrow> string" where
  "activity_kind_name k = (case k of
       KControl \<Rightarrow> ''control'' | KJob \<Rightarrow> ''job'' | KWorkflowJob \<Rightarrow> ''workflow-job''
     | KInstall \<Rightarrow> ''install'' | KTransfer \<Rightarrow> ''transfer'' | KPrep \<Rightarrow> ''prep''
     | KCommand \<Rightarrow> ''command'' | KAgent \<Rightarrow> ''agent'' | KNetworkApply \<Rightarrow> ''network-apply''
     | KWake \<Rightarrow> ''wake'')"

section \<open>The policy table\<close>

datatype decision = Allow | Warn | Forbid

datatype starting_kind = Starting activity_kind | Run

definition starting_name :: "starting_kind \<Rightarrow> string" where
  "starting_name s = (case s of Starting k \<Rightarrow> activity_kind_name k | Run \<Rightarrow> ''run'')"

text \<open>One row per starting kind, in the table's own order; an absent column is \<open>Allow\<close>.\<close>

definition POLICY :: "starting_kind \<Rightarrow> (activity_kind \<times> decision) list" where
  "POLICY s = (case s of
     Starting KJob \<Rightarrow>
       [(KJob, Forbid), (KWorkflowJob, Forbid), (KInstall, Forbid), (KControl, Allow), (KCommand, Warn), (KPrep, Warn)]
   | Starting KWorkflowJob \<Rightarrow>
       [(KJob, Forbid), (KWorkflowJob, Forbid), (KInstall, Forbid), (KControl, Allow), (KCommand, Warn), (KPrep, Warn)]
   | Starting KInstall \<Rightarrow>
       [(KJob, Forbid), (KWorkflowJob, Forbid), (KInstall, Forbid), (KControl, Allow), (KCommand, Warn), (KPrep, Warn)]
   | Starting KControl \<Rightarrow>
       [(KJob, Allow), (KWorkflowJob, Allow), (KInstall, Allow), (KCommand, Allow), (KPrep, Allow)]
   | Starting KCommand \<Rightarrow>
       [(KJob, Warn), (KWorkflowJob, Warn), (KInstall, Warn), (KControl, Allow), (KCommand, Allow), (KPrep, Allow)]
   | Starting KTransfer \<Rightarrow>
       [(KJob, Allow), (KWorkflowJob, Allow), (KInstall, Forbid), (KControl, Allow), (KCommand, Allow), (KPrep, Allow)]
   | Starting KWake \<Rightarrow>
       [(KJob, Forbid), (KWorkflowJob, Forbid), (KInstall, Forbid), (KControl, Allow), (KCommand, Allow), (KPrep, Allow)]
   | Starting KNetworkApply \<Rightarrow>
       [(KJob, Forbid), (KWorkflowJob, Forbid), (KInstall, Forbid), (KControl, Allow), (KCommand, Allow), (KPrep, Allow)]
   | Starting KPrep \<Rightarrow>
       [(KJob, Forbid), (KWorkflowJob, Forbid), (KInstall, Forbid), (KControl, Allow), (KCommand, Allow), (KPrep, Warn)]
   | Starting KAgent \<Rightarrow>
       [(KJob, Warn), (KWorkflowJob, Warn), (KInstall, Warn), (KControl, Allow), (KCommand, Allow), (KPrep, Allow)]
   | Run \<Rightarrow> [(KControl, Warn), (KAgent, Warn)])"

definition decision_rank :: "decision \<Rightarrow> nat" where
  "decision_rank d = (case d of Allow \<Rightarrow> 0 | Warn \<Rightarrow> 1 | Forbid \<Rightarrow> 2)"

record control_policy_settings =
  over_control :: decision
  idle_sec :: seconds

record evaluate_options =
  self_ids :: "ident list"
  exclusive_with :: "activity_kind list"

record policy_decision =
  pd_decision :: decision
  pd_message :: string
  pd_conflicting :: "device_activity option"

definition SENTENCES :: "decision \<Rightarrow> starting_kind \<Rightarrow> device_activity \<Rightarrow> string" where
  "SENTENCES d s c = (case d of
       Allow \<Rightarrow> []
     | Warn \<Rightarrow>
         (if s = Starting KControl \<or> s = Starting KAgent
          then act_label c @ ''; your taps will interfere''
          else if s = Run
          then act_label c @ ''; the run would start on this phone while it is in use''
          else act_label c @ ''; starting '' @ starting_name s @ '' anyway'')
     | Forbid \<Rightarrow> act_label c @ ''; '' @ starting_name s @ '' cannot start until it ends'')"

section \<open>Evaluation\<close>

text \<open>The decision one live activity imposes: the body of \<open>evaluate\<close>'s loop.\<close>

definition activity_decision ::
    "starting_kind \<Rightarrow> control_policy_settings \<Rightarrow> evaluate_options \<Rightarrow> device_activity \<Rightarrow> decision" where
  "activity_decision s st opts a =
     (if act_kind a \<in> set (exclusive_with opts) then Forbid
      else if s = Starting KControl \<and> act_kind a = KControl then over_control st
      else coalesce (map_of (POLICY s) (act_kind a)) Allow)"

text \<open>The loop, over the worst decision so far and the activity that imposed it.\<close>

fun evaluate_loop ::
    "starting_kind \<Rightarrow> control_policy_settings \<Rightarrow> evaluate_options \<Rightarrow> device_activity list
      \<Rightarrow> decision \<times> device_activity option \<Rightarrow> decision \<times> device_activity option" where
  "evaluate_loop s st opts [] w = w"
| "evaluate_loop s st opts (a # as) w =
     (if act_id a \<in> set (self_ids opts) then evaluate_loop s st opts as w
      else let d = activity_decision s st opts a in
           evaluate_loop s st opts as (if decision_rank d > decision_rank (fst w) then (d, Some a) else w))"

definition evaluate ::
    "starting_kind \<Rightarrow> device_activity list \<Rightarrow> control_policy_settings \<Rightarrow> evaluate_options \<Rightarrow> policy_decision" where
  "evaluate s existing st opts =
     (case evaluate_loop s st opts existing (Allow, None) of
        (Allow, _) \<Rightarrow> \<lparr>pd_decision = Allow, pd_message = [], pd_conflicting = None\<rparr>
      | (_, None) \<Rightarrow> \<lparr>pd_decision = Allow, pd_message = [], pd_conflicting = None\<rparr>
      | (d, Some a) \<Rightarrow> \<lparr>pd_decision = d, pd_message = SENTENCES d s a, pd_conflicting = Some a\<rparr>)"

section \<open>The device's state dot\<close>

datatype state_dot = DotFree | DotControlled | DotJob | DotOffline | DotWarn

datatype device_status = Offline | Online | Quarantined

definition JOB_KINDS :: "activity_kind list" where
  "JOB_KINDS = [KJob, KWorkflowJob]"

definition device_state :: "device_status \<Rightarrow> device_activity list \<Rightarrow> state_dot" where
  "device_state status acts =
     (if status = Offline then DotOffline
      else if status = Quarantined then DotWarn
      else if list_ex (\<lambda>a. act_kind a \<in> set JOB_KINDS) acts then DotJob
      else if list_ex (\<lambda>a. act_kind a = KControl) acts then DotControlled
      else DotFree)"

section \<open>Lemmas\<close>

instantiation decision :: linorder
begin

definition less_eq_decision :: "decision \<Rightarrow> decision \<Rightarrow> bool" where
  "less_eq_decision a b \<longleftrightarrow> decision_rank a \<le> decision_rank b"

definition less_decision :: "decision \<Rightarrow> decision \<Rightarrow> bool" where
  "less_decision a b \<longleftrightarrow> decision_rank a < decision_rank b"

instance
  by standard (auto simp: less_eq_decision_def less_decision_def decision_rank_def split: decision.splits)

end

text \<open>The activities \<open>evaluate\<close> looks at, and the decisions they impose.\<close>

definition considered :: "evaluate_options \<Rightarrow> device_activity list \<Rightarrow> device_activity list" where
  "considered opts existing = filter (\<lambda>a. act_id a \<notin> set (self_ids opts)) existing"

lemma evaluate_loop_fst:
  "fst (evaluate_loop s st opts as w)
     = fold max (map (activity_decision s st opts) (considered opts as)) (fst w)"
proof (induction as arbitrary: w)
  case Nil
  then show ?case by (simp add: considered_def)
next
  case (Cons a as)
  show ?case
    using Cons.IH [of w]
      Cons.IH [of "if decision_rank (activity_decision s st opts a) > decision_rank (fst w)
                   then (activity_decision s st opts a, Some a) else w"]
    by (auto simp: considered_def Let_def max_def less_eq_decision_def)
qed

text \<open>The activity carried is the first one, in order, whose decision is the result.\<close>

lemma evaluate_loop_snd:
  "evaluate_loop s st opts as w = (d, b) \<Longrightarrow>
     (d, b) = w \<or>
     (\<exists>a. b = Some a \<and> decision_rank (fst w) < decision_rank d
        \<and> find (\<lambda>x. activity_decision s st opts x = d) (considered opts as) = Some a)"
proof (induction as arbitrary: w)
  case Nil
  then show ?case by simp
next
  case (Cons a as)
  show ?case
  proof (cases "act_id a \<in> set (self_ids opts)")
    case True
    with Cons show ?thesis by (simp add: considered_def)
  next
    case False
    let ?d = "activity_decision s st opts a"
    show ?thesis
    proof (cases "decision_rank ?d > decision_rank (fst w)")
      case True
      with False Cons.prems have e: "evaluate_loop s st opts as (?d, Some a) = (d, b)"
        by (simp add: Let_def)
      from Cons.IH [OF e] True False show ?thesis
        by (auto simp: considered_def)
    next
      case nless: False
      with False Cons.prems have e: "evaluate_loop s st opts as w = (d, b)"
        by (simp add: Let_def)
      from Cons.IH [OF e] nless False show ?thesis
        by (auto simp: considered_def)
    qed
  qed
qed

lemma fold_max_ge: "d \<le> fold max ds (d :: 'a :: linorder)"
  by (induction ds arbitrary: d) (auto intro: order_trans [OF max.cobounded2])

lemma fold_max_member: "x \<in> set ds \<Longrightarrow> x \<le> fold max ds (d :: 'a :: linorder)"
  by (induction ds arbitrary: d) (auto intro: order_trans [OF max.cobounded1 fold_max_ge])

lemma fold_max_in: "fold max ds (d :: 'a :: linorder) = d \<or> fold max ds d \<in> set ds"
proof (induction ds arbitrary: d)
  case Nil
  then show ?case by simp
next
  case (Cons x xs)
  from Cons.IH [of "max x d"] show ?case by (auto simp: max_def split: if_splits)
qed

lemma Allow_le [simp]: "Allow \<le> d"
  by (simp add: less_eq_decision_def decision_rank_def)

lemma le_Forbid [simp]: "d \<le> Forbid"
  by (simp add: less_eq_decision_def decision_rank_def split: decision.splits)

lemma evaluate_decision_fold:
  "pd_decision (evaluate s existing st opts)
     = fold max (map (activity_decision s st opts) (considered opts existing)) Allow"
proof -
  obtain d b where e: "evaluate_loop s st opts existing (Allow, None) = (d, b)"
    by (cases "evaluate_loop s st opts existing (Allow, None)")
  have "d = fold max (map (activity_decision s st opts) (considered opts existing)) Allow"
    using evaluate_loop_fst [of s st opts existing "(Allow, None)"] e by simp
  moreover have "pd_decision (evaluate s existing st opts) = d"
    using e evaluate_loop_snd [OF e]
    by (auto simp: evaluate_def split: decision.splits option.splits)
  ultimately show ?thesis by simp
qed

lemma decision_of_considered_le:
  "a \<in> set (considered opts existing) \<Longrightarrow>
     activity_decision s st opts a \<le> pd_decision (evaluate s existing st opts)"
  unfolding evaluate_decision_fold by (rule fold_max_member) simp

section \<open>Properties\<close>

text \<open>
  The admission decision is the worst one any considered activity imposes, and allow when none is
  considered: it is at least every activity's own decision, and when it is not allow it is imposed by
  the activity it names, which is the first in order to impose it.
\<close>

theorem evaluate_is_worst:
  "(\<forall>a \<in> set (considered opts existing). activity_decision s st opts a \<le> pd_decision (evaluate s existing st opts))
   \<and> (case pd_conflicting (evaluate s existing st opts) of
        None \<Rightarrow> pd_decision (evaluate s existing st opts) = Allow \<and> pd_message (evaluate s existing st opts) = []
      | Some a \<Rightarrow> pd_decision (evaluate s existing st opts) \<noteq> Allow
          \<and> find (\<lambda>x. activity_decision s st opts x = pd_decision (evaluate s existing st opts)) (considered opts existing) = Some a
          \<and> pd_message (evaluate s existing st opts) = SENTENCES (pd_decision (evaluate s existing st opts)) s a)"
proof -
  obtain d b where e: "evaluate_loop s st opts existing (Allow, None) = (d, b)"
    by (cases "evaluate_loop s st opts existing (Allow, None)")
  have "case pd_conflicting (evaluate s existing st opts) of
        None \<Rightarrow> pd_decision (evaluate s existing st opts) = Allow \<and> pd_message (evaluate s existing st opts) = []
      | Some a \<Rightarrow> pd_decision (evaluate s existing st opts) \<noteq> Allow
          \<and> find (\<lambda>x. activity_decision s st opts x = pd_decision (evaluate s existing st opts)) (considered opts existing) = Some a
          \<and> pd_message (evaluate s existing st opts) = SENTENCES (pd_decision (evaluate s existing st opts)) s a"
    using e evaluate_loop_snd [OF e] by (auto simp: evaluate_def decision_rank_def split: decision.splits option.splits)
  then show ?thesis using decision_of_considered_le by blast
qed

definition demo_activity :: "ident \<Rightarrow> activity_kind \<Rightarrow> device_activity" where
  "demo_activity i k = \<lparr>act_id = i, act_kind = k, act_label = ''Installing'',
     act_actor = \<lparr>actor_kind = ASystem, actor_id = ''core'', actor_label = ''core''\<rparr>,
     started_at = 0, updated_at = 0, act_href = None, act_meta = None\<rparr>"

theorem evaluate_is_worst_witness:
  "pd_decision (evaluate (Starting KJob) [demo_activity ''c'' KControl, demo_activity ''i'' KInstall]
      \<lparr>over_control = Warn, idle_sec = 30\<rparr> \<lparr>self_ids = [], exclusive_with = []\<rparr>) = Forbid
   \<and> pd_conflicting (evaluate (Starting KJob) [demo_activity ''c'' KControl, demo_activity ''i'' KInstall]
      \<lparr>over_control = Warn, idle_sec = 30\<rparr> \<lparr>self_ids = [], exclusive_with = []\<rparr>) = Some (demo_activity ''i'' KInstall)"
proof -
  let ?opts = "\<lparr>self_ids = [], exclusive_with = []\<rparr>"
  let ?st = "\<lparr>over_control = Warn, idle_sec = 30\<rparr>"
  let ?as = "[demo_activity ''c'' KControl, demo_activity ''i'' KInstall]"
  have "demo_activity ''i'' KInstall \<in> set (considered ?opts ?as)" by code_simp
  then have "activity_decision (Starting KJob) ?st ?opts (demo_activity ''i'' KInstall)
      \<le> pd_decision (evaluate (Starting KJob) ?as ?st ?opts)"
    using evaluate_is_worst [of ?opts ?as "Starting KJob" ?st] by blast
  moreover have "activity_decision (Starting KJob) ?st ?opts (demo_activity ''i'' KInstall) = Forbid" by code_simp
  ultimately have "pd_decision (evaluate (Starting KJob) ?as ?st ?opts) = Forbid"
    using le_Forbid [of "pd_decision (evaluate (Starting KJob) ?as ?st ?opts)"] by (simp add: antisym)
  moreover have "pd_conflicting (evaluate (Starting KJob) ?as ?st ?opts) = Some (demo_activity ''i'' KInstall)" by code_simp
  ultimately show ?thesis by blast
qed

end
