(* ===== verification/Activity.thy ===== *)
theory Activity
  imports Policy
begin

text \<open>
  The in-memory activity registry of \<open>packages/core/src/activity/registry.ts\<close>: what is
  happening on every device right now, the control markers that expire when nobody drives, and the
  tail saying who drove last. Every operation takes the registry and the clock and returns the new
  registry with the \<open>onChange\<close> notifications it fired, in order.
\<close>

section \<open>State and events\<close>

record registry =
  by_device :: "(ident, (ident, device_activity) jmap) jmap"
  last_control_by_device :: "(ident, last_control) jmap"
  sweep_handle :: bool

datatype change = ChAdded | ChUpdated | ChEnded

record change_event =
  ev_device :: ident
  ev_change :: change
  ev_activity :: device_activity
  ev_last_control :: "last_control option"

record start_activity_input =
  in_id :: ident
  in_kind :: activity_kind
  in_label :: string
  in_actor :: activity_actor
  in_href :: "string option"
  in_meta :: "string option"

record activity_patch =
  patch_label :: "string option"
  patch_meta :: "string option"
  patch_href :: "string option"

definition LAST_CONTROL_TAIL_SEC :: seconds where
  "LAST_CONTROL_TAIL_SEC = 120"

definition SYSTEM_ACTOR :: activity_actor where
  "SYSTEM_ACTOR = \<lparr>actor_kind = ASystem, actor_id = ''core'', actor_label = ''Scheduler''\<rparr>"

definition control_id :: "ident \<Rightarrow> ident" where
  "control_id client = ''control:'' @ client"

definition empty_registry :: registry where
  "empty_registry = \<lparr>by_device = [], last_control_by_device = [], sweep_handle = False\<rparr>"

text \<open>The activities of one device; a device never seen has none.\<close>

definition device_map :: "registry \<Rightarrow> ident \<Rightarrow> (ident, device_activity) jmap" where
  "device_map r dev = coalesce (jm_get (by_device r) dev) []"

definition live_activity :: "registry \<Rightarrow> ident \<Rightarrow> ident \<Rightarrow> device_activity option" where
  "live_activity r dev i = jm_get (device_map r dev) i"

text \<open>\<open>deviceMap(deviceId).set(id, a)\<close>.\<close>

definition put_activity :: "ident \<Rightarrow> ident \<Rightarrow> device_activity \<Rightarrow> registry \<Rightarrow> registry" where
  "put_activity dev i a r = r\<lparr>by_device := jm_set dev (jm_set i a (device_map r dev)) (by_device r)\<rparr>"

text \<open>\<open>m.delete(id)\<close>: the device keeps its (possibly empty) inner map.\<close>

definition drop_activity :: "ident \<Rightarrow> ident \<Rightarrow> registry \<Rightarrow> registry" where
  "drop_activity dev i r = r\<lparr>by_device := jm_set dev (jm_del i (device_map r dev)) (by_device r)\<rparr>"

section \<open>Operations\<close>

definition start_activity ::
    "millis \<Rightarrow> ident \<Rightarrow> start_activity_input \<Rightarrow> registry \<Rightarrow> registry \<times> change_event list \<times> device_activity" where
  "start_activity now dev inp r =
     (case live_activity r dev (in_id inp) of
        Some existing \<Rightarrow>
          let updated = existing\<lparr>act_label := in_label inp, act_href := in_href inp,
                                 act_meta := in_meta inp, updated_at := to_sec now\<rparr>
          in (put_activity dev (in_id inp) updated r,
              [\<lparr>ev_device = dev, ev_change = ChUpdated, ev_activity = updated, ev_last_control = None\<rparr>],
              updated)
      | None \<Rightarrow>
          let activity = \<lparr>act_id = in_id inp, act_kind = in_kind inp, act_label = in_label inp,
                          act_actor = in_actor inp, started_at = to_sec now, updated_at = to_sec now,
                          act_href = in_href inp, act_meta = in_meta inp\<rparr>
          in (put_activity dev (in_id inp) activity r,
              [\<lparr>ev_device = dev, ev_change = ChAdded, ev_activity = activity, ev_last_control = None\<rparr>],
              activity))"

definition update_activity ::
    "millis \<Rightarrow> ident \<Rightarrow> ident \<Rightarrow> activity_patch \<Rightarrow> registry
      \<Rightarrow> registry \<times> change_event list \<times> device_activity option" where
  "update_activity now dev i p r =
     (case live_activity r dev i of
        None \<Rightarrow> (r, [], None)
      | Some existing \<Rightarrow>
          let updated = existing\<lparr>act_label := coalesce (patch_label p) (act_label existing),
                                 act_href := or_else (patch_href p) (act_href existing),
                                 act_meta := or_else (patch_meta p) (act_meta existing),
                                 updated_at := to_sec now\<rparr>
          in (put_activity dev i updated r,
              [\<lparr>ev_device = dev, ev_change = ChUpdated, ev_activity = updated, ev_last_control = None\<rparr>],
              Some updated))"

definition touch_activity ::
    "millis \<Rightarrow> ident \<Rightarrow> ident \<Rightarrow> registry \<Rightarrow> registry \<times> change_event list" where
  "touch_activity now dev i r =
     (case live_activity r dev i of
        None \<Rightarrow> (r, [])
      | Some existing \<Rightarrow>
          let updated = existing\<lparr>updated_at := to_sec now\<rparr>
          in (put_activity dev i updated r,
              [\<lparr>ev_device = dev, ev_change = ChUpdated, ev_activity = updated, ev_last_control = None\<rparr>]))"

definition end_activity ::
    "millis \<Rightarrow> ident \<Rightarrow> ident \<Rightarrow> registry \<Rightarrow> registry \<times> change_event list \<times> bool" where
  "end_activity now dev i r =
     (case live_activity r dev i of
        None \<Rightarrow> (r, [], False)
      | Some existing \<Rightarrow>
          let r1 = drop_activity dev i r;
              tail = (if act_kind existing = KControl
                      then Some \<lparr>lc_actor = act_actor existing, lc_ended_at = to_sec now\<rparr> else None);
              r2 = (case tail of None \<Rightarrow> r1
                    | Some t \<Rightarrow> r1\<lparr>last_control_by_device := jm_set dev t (last_control_by_device r1)\<rparr>)
          in (r2, [\<lparr>ev_device = dev, ev_change = ChEnded, ev_activity = existing, ev_last_control = tail\<rparr>], True))"

text \<open>\<open>endWhere\<close>: the inner loop runs over a snapshot of the device's values.\<close>

fun end_where_device ::
    "millis \<Rightarrow> (ident \<Rightarrow> device_activity \<Rightarrow> bool) \<Rightarrow> ident \<Rightarrow> device_activity list
      \<Rightarrow> registry \<times> change_event list \<times> nat \<Rightarrow> registry \<times> change_event list \<times> nat" where
  "end_where_device now P dev [] acc = acc"
| "end_where_device now P dev (a # as) (r, evs, n) =
     (if P dev a
      then let (r', evs', ok) = end_activity now dev (act_id a) r
           in end_where_device now P dev as (r', evs @ evs', if ok then Suc n else n)
      else end_where_device now P dev as (r, evs, n))"

fun end_where_devices ::
    "millis \<Rightarrow> (ident \<Rightarrow> device_activity \<Rightarrow> bool) \<Rightarrow> ident list
      \<Rightarrow> registry \<times> change_event list \<times> nat \<Rightarrow> registry \<times> change_event list \<times> nat" where
  "end_where_devices now P [] acc = acc"
| "end_where_devices now P (dev # devs) acc =
     end_where_devices now P devs (end_where_device now P dev (jm_values (device_map (fst acc) dev)) acc)"

definition end_where ::
    "millis \<Rightarrow> (ident \<Rightarrow> device_activity \<Rightarrow> bool) \<Rightarrow> registry \<Rightarrow> registry \<times> change_event list \<times> nat" where
  "end_where now P r = end_where_devices now P (jm_keys (by_device r)) (r, [], 0)"

definition touch_control ::
    "millis \<Rightarrow> ident \<Rightarrow> ident \<Rightarrow> activity_actor \<Rightarrow> registry \<Rightarrow> registry \<times> change_event list \<times> device_activity" where
  "touch_control now dev client actor r =
     (let i = control_id client in
      case live_activity r dev i of
        Some existing \<Rightarrow>
          let updated = existing\<lparr>updated_at := to_sec now\<rparr>
          in (put_activity dev i updated r,
              [\<lparr>ev_device = dev, ev_change = ChUpdated, ev_activity = updated, ev_last_control = None\<rparr>],
              updated)
      | None \<Rightarrow>
          let activity = \<lparr>act_id = i, act_kind = KControl,
                          act_label = ''Controlled by '' @ actor_label actor, act_actor = actor,
                          started_at = to_sec now, updated_at = to_sec now,
                          act_href = None, act_meta = None\<rparr>
          in (put_activity dev i activity r,
              [\<lparr>ev_device = dev, ev_change = ChAdded, ev_activity = activity, ev_last_control = None\<rparr>],
              activity))"

definition control_of :: "registry \<Rightarrow> ident \<Rightarrow> ident \<Rightarrow> device_activity option" where
  "control_of r dev client = live_activity r dev (control_id client)"

definition live_controls :: "registry \<Rightarrow> ident \<Rightarrow> device_activity list" where
  "live_controls r dev =
     sort_key (\<lambda>a. - updated_at a) (filter (\<lambda>a. act_kind a = KControl) (jm_values (device_map r dev)))"

definition list_activities :: "registry \<Rightarrow> ident \<Rightarrow> device_activity list" where
  "list_activities r dev = sort_key started_at (jm_values (device_map r dev))"

definition devices_with :: "activity_kind \<Rightarrow> registry \<Rightarrow> ident list" where
  "devices_with k r = map fst (filter (\<lambda>(dev, m). list_ex (\<lambda>a. act_kind a = k) (jm_values m)) (by_device r))"

definition last_control_of :: "registry \<Rightarrow> ident \<Rightarrow> last_control option" where
  "last_control_of r dev = jm_get (last_control_by_device r) dev"

subsection \<open>Rebuild at boot\<close>

record running_job_source =
  rj_id :: ident
  rj_device :: ident
  rj_label :: string
  rj_started :: seconds

datatype transfer_kind = TPush | TPull | TInstall

record transfer_source =
  tr_device :: ident
  tr_id :: ident
  tr_kind :: transfer_kind
  tr_label :: string
  tr_started :: seconds

record preparing_source =
  pr_device :: ident
  pr_component :: string
  pr_since :: seconds

definition rebuild_job :: "running_job_source \<Rightarrow> registry \<Rightarrow> registry" where
  "rebuild_job j r = put_activity (rj_device j) (''job:'' @ rj_id j)
     \<lparr>act_id = ''job:'' @ rj_id j, act_kind = KJob, act_label = rj_label j, act_actor = SYSTEM_ACTOR,
      started_at = rj_started j, updated_at = rj_started j,
      act_href = Some (''/jobs/detail?id='' @ rj_id j), act_meta = None\<rparr> r"

definition rebuild_transfer :: "transfer_source \<Rightarrow> registry \<Rightarrow> registry" where
  "rebuild_transfer t r = put_activity (tr_device t) (''transfer:'' @ tr_id t)
     \<lparr>act_id = ''transfer:'' @ tr_id t, act_kind = (if tr_kind t = TInstall then KInstall else KTransfer),
      act_label = tr_label t, act_actor = SYSTEM_ACTOR, started_at = tr_started t,
      updated_at = tr_started t, act_href = None, act_meta = None\<rparr> r"

definition rebuild_prep :: "preparing_source \<Rightarrow> registry \<Rightarrow> registry" where
  "rebuild_prep p r = put_activity (pr_device p) (''prep:'' @ pr_component p)
     \<lparr>act_id = ''prep:'' @ pr_component p, act_kind = KPrep, act_label = ''Preparing '' @ pr_component p,
      act_actor = SYSTEM_ACTOR, started_at = pr_since p, updated_at = pr_since p,
      act_href = None, act_meta = None\<rparr> r"

definition rebuild ::
    "running_job_source list \<Rightarrow> transfer_source list \<Rightarrow> preparing_source list \<Rightarrow> registry \<Rightarrow> registry" where
  "rebuild jobs transfers preps r =
     fold rebuild_prep preps (fold rebuild_transfer transfers (fold rebuild_job jobs
       (r\<lparr>by_device := [], last_control_by_device := []\<rparr>)))"

subsection \<open>The sweep\<close>

definition control_idle :: "seconds \<Rightarrow> seconds \<Rightarrow> device_activity \<Rightarrow> bool" where
  "control_idle idle nowS a \<longleftrightarrow> act_kind a = KControl \<and> updated_at a + idle \<le> nowS"

fun sweep_device ::
    "seconds \<Rightarrow> seconds \<Rightarrow> ident \<Rightarrow> device_activity list
      \<Rightarrow> registry \<times> change_event list \<Rightarrow> registry \<times> change_event list" where
  "sweep_device idle nowS dev [] acc = acc"
| "sweep_device idle nowS dev (a # as) (r, evs) =
     (if control_idle idle nowS a
      then let tail = \<lparr>lc_actor = act_actor a, lc_ended_at = nowS\<rparr>;
               r1 = drop_activity dev (act_id a) r;
               r2 = r1\<lparr>last_control_by_device := jm_set dev tail (last_control_by_device r1)\<rparr>
           in sweep_device idle nowS dev as
                (r2, evs @ [\<lparr>ev_device = dev, ev_change = ChEnded, ev_activity = a, ev_last_control = Some tail\<rparr>])
      else sweep_device idle nowS dev as (r, evs))"

fun sweep_devices ::
    "seconds \<Rightarrow> seconds \<Rightarrow> ident list \<Rightarrow> registry \<times> change_event list \<Rightarrow> registry \<times> change_event list" where
  "sweep_devices idle nowS [] acc = acc"
| "sweep_devices idle nowS (dev # devs) acc =
     sweep_devices idle nowS devs (sweep_device idle nowS dev (jm_values (device_map (fst acc) dev)) acc)"

definition sweep :: "seconds \<Rightarrow> millis \<Rightarrow> registry \<Rightarrow> registry \<times> change_event list" where
  "sweep idle now r =
     (let (r1, evs) = sweep_devices idle (to_sec now) (jm_keys (by_device r)) (r, []) in
      (r1\<lparr>last_control_by_device :=
            filter (\<lambda>(dev, tail). \<not> (lc_ended_at tail + LAST_CONTROL_TAIL_SEC \<le> to_sec now))
              (last_control_by_device r1)\<rparr>, evs))"

definition start_sweep :: "registry \<Rightarrow> registry" where
  "start_sweep r = (if sweep_handle r then r else r\<lparr>sweep_handle := True\<rparr>)"

definition stop_sweep :: "registry \<Rightarrow> registry" where
  "stop_sweep r = (if \<not> sweep_handle r then r else r\<lparr>sweep_handle := False\<rparr>)"


section \<open>Well-formedness and its preservation\<close>

text \<open>
  Every map has distinct keys and files an activity under its own id. This is what makes "the
  activity with this id" meaningful to every client of the registry.
\<close>

definition inner_wf :: "(ident, device_activity) jmap \<Rightarrow> bool" where
  "inner_wf m \<longleftrightarrow> jm_wf m \<and> (\<forall>(i, a) \<in> set m. act_id a = i)"

definition registry_wf :: "registry \<Rightarrow> bool" where
  "registry_wf r \<longleftrightarrow> jm_wf (by_device r) \<and> (\<forall>(dev, m) \<in> set (by_device r). inner_wf m)
     \<and> jm_wf (last_control_by_device r)"

lemma inner_wf_Nil [simp]: "inner_wf []"
  by (simp add: inner_wf_def)

lemma inner_wf_set [simp]: "inner_wf m \<Longrightarrow> act_id a = i \<Longrightarrow> inner_wf (jm_set i a m)"
  by (auto simp: inner_wf_def dest: jm_in_set_update)

lemma inner_wf_del [simp]: "inner_wf m \<Longrightarrow> inner_wf (jm_del i m)"
  by (auto simp: inner_wf_def dest!: jm_in_set_delete)

lemma device_map_wf [simp]: "registry_wf r \<Longrightarrow> inner_wf (device_map r dev)"
  by (cases "jm_get (by_device r) dev") (auto simp: device_map_def registry_wf_def dest: jm_get_in_set)

lemma live_activity_id: "registry_wf r \<Longrightarrow> live_activity r dev i = Some a \<Longrightarrow> act_id a = i"
  using device_map_wf [of r dev] by (auto simp: live_activity_def inner_wf_def dest!: jm_get_in_set)

lemma values_live:
  "registry_wf r \<Longrightarrow> a \<in> set (jm_values (device_map r dev)) \<longleftrightarrow> live_activity r dev (act_id a) = Some a"
  using device_map_wf [of r dev]
  by (force simp: live_activity_def inner_wf_def image_iff dest!: jm_get_in_set)

lemma registry_wf_empty [simp]: "registry_wf empty_registry"
  by (simp add: registry_wf_def empty_registry_def)

lemma put_activity_wf [intro!]:
  "registry_wf r \<Longrightarrow> act_id a = i \<Longrightarrow> registry_wf (put_activity dev i a r)"
  using device_map_wf [of r dev]
  by (auto simp: registry_wf_def put_activity_def dest!: jm_in_set_update)

lemma drop_activity_wf [simp, intro]: "registry_wf r \<Longrightarrow> registry_wf (drop_activity dev i r)"
  using device_map_wf [of r dev]
  by (auto simp: registry_wf_def drop_activity_def dest!: jm_in_set_update)

lemma last_control_set_wf [simp, intro]:
  "registry_wf r \<Longrightarrow> registry_wf (r\<lparr>last_control_by_device := jm_set dev t (last_control_by_device r)\<rparr>)"
  by (auto simp: registry_wf_def)

lemma live_put [simp]:
  "live_activity (put_activity dev i a r) d j = (if d = dev \<and> j = i then Some a else live_activity r d j)"
  by (auto simp: live_activity_def put_activity_def device_map_def)

lemma live_drop [simp]:
  "live_activity (drop_activity dev i r) d j = (if d = dev \<and> j = i then None else live_activity r d j)"
  by (auto simp: live_activity_def drop_activity_def device_map_def)

lemma live_last_control [simp]:
  "live_activity (r\<lparr>last_control_by_device := t\<rparr>) d j = live_activity r d j"
  by (simp add: live_activity_def device_map_def)

lemma last_control_put [simp]: "last_control_by_device (put_activity dev i a r) = last_control_by_device r"
  by (simp add: put_activity_def)

lemma last_control_drop [simp]: "last_control_by_device (drop_activity dev i r) = last_control_by_device r"
  by (simp add: drop_activity_def)

lemma live_empty [simp]: "live_activity (r\<lparr>by_device := [], last_control_by_device := []\<rparr>) d j = None"
  by (simp add: live_activity_def device_map_def)

subsection \<open>Each operation\<close>

lemma start_activity_live:
  "live_activity (fst (start_activity now dev inp r)) d j =
     (if d = dev \<and> j = in_id inp then Some (snd (snd (start_activity now dev inp r))) else live_activity r d j)"
  by (auto simp: start_activity_def Let_def split: option.splits)

lemma start_activity_wf: "registry_wf r \<Longrightarrow> registry_wf (fst (start_activity now dev inp r))"
  by (auto simp: start_activity_def Let_def split: option.splits dest: live_activity_id)

lemma update_activity_wf: "registry_wf r \<Longrightarrow> registry_wf (fst (update_activity now dev i p r))"
  by (auto simp: update_activity_def Let_def split: option.splits dest: live_activity_id)

lemma touch_activity_wf: "registry_wf r \<Longrightarrow> registry_wf (fst (touch_activity now dev i r))"
  by (auto simp: touch_activity_def Let_def split: option.splits dest: live_activity_id)

lemma end_activity_wf: "registry_wf r \<Longrightarrow> registry_wf (fst (end_activity now dev i r))"
  by (auto simp: end_activity_def Let_def split: option.splits) (metis drop_activity_wf last_control_drop last_control_set_wf)

lemma end_activity_live:
  "live_activity (fst (end_activity now dev i r)) d j =
     (if d = dev \<and> j = i then None else live_activity r d j)"
  by (auto simp: end_activity_def Let_def split: option.splits)

lemma touch_control_wf: "registry_wf r \<Longrightarrow> registry_wf (fst (touch_control now dev c actor r))"
  by (auto simp: touch_control_def Let_def split: option.splits dest: live_activity_id)

lemma touch_control_live:
  "live_activity (fst (touch_control now dev c actor r)) d j =
     (if d = dev \<and> j = control_id c then Some (snd (snd (touch_control now dev c actor r)))
      else live_activity r d j)"
  by (auto simp: touch_control_def Let_def split: option.splits)

lemma end_where_device_wf:
  "registry_wf (fst acc) \<Longrightarrow> registry_wf (fst (end_where_device now P dev as acc))"
proof (induction now P dev as acc rule: end_where_device.induct)
  case (2 now P dev a as r evs n)
  obtain r' evs' ok where e: "end_activity now dev (act_id a) r = (r', evs', ok)"
    by (cases "end_activity now dev (act_id a) r") auto
  then have "registry_wf r'" using 2 end_activity_wf [of r now dev "act_id a"] by simp
  with 2 e show ?case by auto
qed simp

lemma end_where_devices_wf:
  "registry_wf (fst acc) \<Longrightarrow> registry_wf (fst (end_where_devices now P devs acc))"
  by (induction now P devs acc rule: end_where_devices.induct) (auto simp: end_where_device_wf)

lemma end_where_wf: "registry_wf r \<Longrightarrow> registry_wf (fst (end_where now P r))"
  by (simp add: end_where_def end_where_devices_wf)

lemma sweep_device_wf:
  "registry_wf (fst acc) \<Longrightarrow> registry_wf (fst (sweep_device idle s dev as acc))"
  by (induction idle s dev as acc rule: sweep_device.induct)
     (auto simp: Let_def intro!: last_control_set_wf [of "drop_activity _ _ _", simplified])

lemma sweep_devices_wf:
  "registry_wf (fst acc) \<Longrightarrow> registry_wf (fst (sweep_devices idle s devs acc))"
  by (induction idle s devs acc rule: sweep_devices.induct) (auto simp: sweep_device_wf)

lemma registry_wf_filter_tails:
  "registry_wf r \<Longrightarrow> registry_wf (r\<lparr>last_control_by_device := filter P (last_control_by_device r)\<rparr>)"
  by (auto simp: registry_wf_def)

lemma sweep_wf: "registry_wf r \<Longrightarrow> registry_wf (fst (sweep idle now r))"
  using sweep_devices_wf [of "(r, [])" idle "to_sec now" "jm_keys (by_device r)"]
  by (auto simp: sweep_def Let_def registry_wf_filter_tails split: prod.splits)

lemma fold_wf: "(\<And>x r. registry_wf r \<Longrightarrow> registry_wf (f x r)) \<Longrightarrow> registry_wf r \<Longrightarrow> registry_wf (fold f xs r)"
  by (induction xs arbitrary: r) auto

lemma rebuild_row_wf:
  "registry_wf r \<Longrightarrow> registry_wf (rebuild_job j r)"
  "registry_wf r \<Longrightarrow> registry_wf (rebuild_transfer t r)"
  "registry_wf r \<Longrightarrow> registry_wf (rebuild_prep p r)"
  by (auto simp: rebuild_job_def rebuild_transfer_def rebuild_prep_def)

lemma rebuild_wf: "registry_wf (rebuild jobs transfers preps r)"
  unfolding rebuild_def
  by (intro fold_wf) (simp_all add: rebuild_row_wf, simp add: registry_wf_def)

section \<open>The registry as a machine\<close>

text \<open>Every call the core makes is one step; calls arrive in any order and at any clock reading.\<close>

inductive registry_step :: "registry \<Rightarrow> registry \<Rightarrow> bool" where
  start: "registry_step r (fst (start_activity now dev inp r))"
| update: "registry_step r (fst (update_activity now dev i p r))"
| touch: "registry_step r (fst (touch_activity now dev i r))"
| ended: "registry_step r (fst (end_activity now dev i r))"
| ended_where: "registry_step r (fst (end_where now P r))"
| control: "registry_step r (fst (touch_control now dev c actor r))"
| swept: "registry_step r (fst (sweep idle now r))"
| rebuilt: "registry_step r (rebuild jobs transfers preps r)"
| armed: "registry_step r (start_sweep r)"
| disarmed: "registry_step r (stop_sweep r)"

inductive registry_reachable :: "registry \<Rightarrow> bool" where
  boot: "registry_reachable empty_registry"
| step: "registry_reachable r \<Longrightarrow> registry_step r r' \<Longrightarrow> registry_reachable r'"

inductive_cases registry_stepE: "registry_step r r'"

lemma sweep_handle_wf:
  "registry_wf r \<Longrightarrow> registry_wf (start_sweep r)" "registry_wf r \<Longrightarrow> registry_wf (stop_sweep r)"
  by (simp_all add: start_sweep_def stop_sweep_def registry_wf_def)

lemma registry_step_wf: "registry_step r r' \<Longrightarrow> registry_wf r \<Longrightarrow> registry_wf r'"
  by (induction rule: registry_step.induct)
     (auto simp: start_activity_wf update_activity_wf touch_activity_wf end_activity_wf end_where_wf
        touch_control_wf sweep_wf rebuild_wf sweep_handle_wf)

lemma registry_reachable_wf: "registry_reachable r \<Longrightarrow> registry_wf r"
  by (induction rule: registry_reachable.induct) (auto intro: registry_step_wf)

section \<open>What the sweep does\<close>

lemma sweep_device_live:
  "live_activity (fst (sweep_device idle s dev as acc)) d i =
     (if d = dev \<and> (\<exists>a \<in> set as. act_id a = i \<and> control_idle idle s a) then None
      else live_activity (fst acc) d i)"
  by (induction idle s dev as acc rule: sweep_device.induct) (auto simp: Let_def)

lemma idle_values_iff:
  assumes "registry_wf r"
  shows "(\<exists>a \<in> set (jm_values (device_map r dev)). act_id a = i \<and> control_idle idle s a)
     \<longleftrightarrow> (\<exists>a. live_activity r dev i = Some a \<and> control_idle idle s a)"
  using values_live [OF assms] live_activity_id [OF assms] by metis

lemma sweep_devices_live:
  assumes "registry_wf (fst acc)" "distinct devs"
  shows "live_activity (fst (sweep_devices idle s devs acc)) d i =
     (if d \<in> set devs \<and> (\<exists>a. live_activity (fst acc) d i = Some a \<and> control_idle idle s a) then None
      else live_activity (fst acc) d i)"
  using assms
proof (induction idle s devs acc rule: sweep_devices.induct)
  case (2 idle s dev devs acc)
  let ?acc = "sweep_device idle s dev (jm_values (device_map (fst acc) dev)) acc"
  have step: "live_activity (fst ?acc) d i =
     (if d = dev \<and> (\<exists>a. live_activity (fst acc) dev i = Some a \<and> control_idle idle s a) then None
      else live_activity (fst acc) d i)"
    unfolding sweep_device_live idle_values_iff [OF 2(2)] by simp
  have ih: "live_activity (fst (sweep_devices idle s devs ?acc)) d i =
     (if d \<in> set devs \<and> (\<exists>a. live_activity (fst ?acc) d i = Some a \<and> control_idle idle s a) then None
      else live_activity (fst ?acc) d i)"
    using 2(3) by (intro 2(1) sweep_device_wf [OF 2(2)]) simp
  show ?case
    using 2(3) unfolding sweep_devices.simps ih step by (cases "d = dev") (simp_all, blast?)
qed simp

lemma sweep_live:
  assumes "registry_wf r"
  shows "live_activity (fst (sweep idle now r)) dev i =
     (case live_activity r dev i of None \<Rightarrow> None
      | Some a \<Rightarrow> if control_idle idle (to_sec now) a then None else Some a)"
proof -
  have k: "dev \<in> set (jm_keys (by_device r))" if "live_activity r dev i = Some a" for a
    using that
    by (cases "jm_get (by_device r) dev") (force simp: live_activity_def device_map_def dest: jm_get_in_set)+
  have d: "distinct (jm_keys (by_device r))" using assms by (simp add: registry_wf_def)
  show ?thesis
    using sweep_devices_live [of "(r, [])", simplified, OF assms d, of idle "to_sec now" dev i] k
    by (auto simp: sweep_def Let_def split: prod.splits option.splits)
qed

text \<open>A device's tail after the sweep of its markers is the last one written, at the sweep's own second.\<close>

lemma sweep_device_tail:
  "jm_get (last_control_by_device (fst (sweep_device idle s dev as acc))) d =
     (case (if d = dev then find (control_idle idle s) (rev as) else None) of
        Some a \<Rightarrow> Some \<lparr>lc_actor = act_actor a, lc_ended_at = s\<rparr>
      | None \<Rightarrow> jm_get (last_control_by_device (fst acc)) d)"
proof (induction idle s dev as acc rule: sweep_device.induct)
  case (2 idle s dev a as r evs)
  have app: "find P (xs @ [x]) = (case find P xs of None \<Rightarrow> (if P x then Some x else None) | Some y \<Rightarrow> Some y)"
    for P :: "device_activity \<Rightarrow> bool" and xs x
    by (induction xs) auto
  show ?case using 2 by (auto simp: Let_def app split: option.splits)
qed simp

section \<open>The marker contract\<close>

text \<open>
  What the scheduler and the executor host rely on: a marker that was started is live, one that was
  ended is not, and neither call disturbs any other marker.
\<close>

locale activity_markers =
  fixes live :: "'s \<Rightarrow> ident \<Rightarrow> ident \<Rightarrow> bool"
    and begin_marker :: "ident \<Rightarrow> ident \<Rightarrow> 's \<Rightarrow> 's"
    and end_marker :: "ident \<Rightarrow> ident \<Rightarrow> 's \<Rightarrow> 's"
  assumes live_begin: "live (begin_marker dev i s) d j \<longleftrightarrow> d = dev \<and> j = i \<or> live s d j"
    and live_end: "live (end_marker dev i s) d j \<longleftrightarrow> \<not> (d = dev \<and> j = i) \<and> live s d j"
begin

lemma bracket_clears: "\<not> live (end_marker dev i (begin_marker dev i s)) dev i"
  by (simp add: live_end)

lemma bracket_frame:
  "d \<noteq> dev \<or> j \<noteq> i \<Longrightarrow> live (end_marker dev i (begin_marker dev i s)) d j \<longleftrightarrow> live s d j"
  by (auto simp: live_end live_begin)

lemma end_idempotent: "live (end_marker dev i (end_marker dev i s)) d j \<longleftrightarrow> live (end_marker dev i s) d j"
  by (auto simp: live_end)

end

definition is_live :: "registry \<Rightarrow> ident \<Rightarrow> ident \<Rightarrow> bool" where
  "is_live r dev i \<longleftrightarrow> live_activity r dev i \<noteq> None"

interpretation markers: activity_markers
  is_live
  "\<lambda>dev i r. fst (start_activity now dev (inp\<lparr>in_id := i\<rparr>) r)"
  "\<lambda>dev i r. fst (end_activity now' dev i r)"
  for now now' inp
  by unfold_locales (auto simp: is_live_def start_activity_live end_activity_live)

section \<open>Properties\<close>

text \<open>
  C23: In every reachable registry each activity is filed once, under its own device and id, and one
  idle sweep removes exactly the control markers that have been quiet for the idle time, on every
  device, and leaves every other activity as it was.
\<close>

theorem sweep_exact:
  assumes "registry_reachable r"
  shows "registry_wf (fst (sweep idle now r)) \<and>
    live_activity (fst (sweep idle now r)) dev i =
      (case live_activity r dev i of None \<Rightarrow> None
       | Some a \<Rightarrow> if act_kind a = KControl \<and> updated_at a + idle \<le> to_sec now then None else Some a)"
  using registry_reachable_wf [OF assms] by (simp add: sweep_wf sweep_live control_idle_def cong: if_cong option.case_cong)

definition demo_registry :: registry where
  "demo_registry = fst (touch_control 0 ''phone'' ''tab'' \<lparr>actor_kind = AUser, actor_id = ''u'', actor_label = ''U''\<rparr>
     (fst (start_activity 0 ''phone'' \<lparr>in_id = ''job:1'', in_kind = KJob, in_label = ''Running x'',
        in_actor = SYSTEM_ACTOR, in_href = None, in_meta = None\<rparr> empty_registry)))"

theorem sweep_exact_witness:
  "is_live demo_registry ''phone'' ''control:tab'' \<and> \<not> is_live (fst (sweep 30 31000 demo_registry)) ''phone'' ''control:tab''
   \<and> is_live (fst (sweep 30 31000 demo_registry)) ''phone'' ''job:1''"
proof -
  have reach: "registry_reachable demo_registry"
    unfolding demo_registry_def
    by (rule registry_reachable.step [OF registry_reachable.step [OF registry_reachable.boot registry_step.start] registry_step.control])
  have c: "map_option (\<lambda>a. (act_kind a, updated_at a)) (live_activity demo_registry ''phone'' ''control:tab'') = Some (KControl, 0)"
    "map_option act_kind (live_activity demo_registry ''phone'' ''job:1'') = Some KJob" by code_simp+
  show ?thesis
    using c sweep_exact [OF reach, of 30 31000 "''phone''" "''control:tab''"] sweep_exact [OF reach, of 30 31000 "''phone''" "''job:1''"]
    by (auto simp: is_live_def)
qed

end
