(* ===== verification/DeviceState.thy ===== *)
theory DeviceState
  imports Policy
begin

text \<open>
  The stored device status (\<open>packages/core/src/device/state-machine.ts\<close>): a transition table and
  an \<open>apply\<close> that reads the row, looks the transition up and writes it back only while the status
  it read is still there (compare-and-set). The \<open>status\<close> column is nullable, and a null compares
  equal to nothing in SQL.
\<close>

section \<open>The transition table\<close>

datatype device_event = DEVICE_CONNECTED | DEVICE_DISCONNECTED | QUARANTINE | UNQUARANTINE

definition TRANSITIONS :: "device_event \<Rightarrow> (device_status \<times> device_status) list" where
  "TRANSITIONS e = (case e of
       DEVICE_CONNECTED \<Rightarrow> [(Offline, Online), (Quarantined, Quarantined)]
     | DEVICE_DISCONNECTED \<Rightarrow> [(Online, Offline), (Quarantined, Quarantined)]
     | QUARANTINE \<Rightarrow> [(Online, Quarantined)]
     | UNQUARANTINE \<Rightarrow> [(Quarantined, Online)])"

definition next_status :: "device_event \<Rightarrow> device_status \<Rightarrow> device_status option" where
  "next_status e from_status = map_of (TRANSITIONS e) from_status"

section \<open>Rows and the compare-and-set\<close>

record device_row =
  dev_id :: ident
  dev_serial :: "string"
  dev_status :: "device_status option"

type_synonym devices_table = "device_row list"

record apply_result =
  ar_changed :: bool
  ar_from :: device_status
  ar_to :: device_status

definition current_status :: "devices_table \<Rightarrow> ident \<Rightarrow> device_status option" where
  "current_status t i = (case get_where (\<lambda>r. dev_id r = i) t of None \<Rightarrow> None | Some r \<Rightarrow> dev_status r)"

text \<open>The read half of \<open>apply\<close>: the status seen and the one to write; \<open>None\<close> rejects the event.\<close>

definition plan_transition ::
    "devices_table \<Rightarrow> ident \<Rightarrow> device_event \<Rightarrow> (device_status \<times> device_status) option" where
  "plan_transition t i e =
     (case get_where (\<lambda>r. dev_id r = i) t of
        None \<Rightarrow> None
      | Some r \<Rightarrow>
          let from_status = coalesce (dev_status r) Offline in
          (case next_status e from_status of None \<Rightarrow> None | Some to_status \<Rightarrow> Some (from_status, to_status)))"

text \<open>The write half: \<open>UPDATE devices SET status = to WHERE id = i AND status = from\<close>.\<close>

definition cas_status ::
    "ident \<Rightarrow> device_status \<Rightarrow> device_status \<Rightarrow> devices_table \<Rightarrow> devices_table \<times> nat" where
  "cas_status i from_status to_status t =
     (let P = (\<lambda>r. dev_id r = i \<and> dev_status r = Some from_status) in
      (update_where P (\<lambda>r. r\<lparr>dev_status := Some to_status\<rparr>) t, rows_where P t))"

text \<open>The commit, on the table as it is by then (\<open>seen\<close> is what the read half returned).\<close>

definition commit_transition ::
    "devices_table \<Rightarrow> ident \<Rightarrow> device_status \<times> device_status
      \<Rightarrow> devices_table \<times> apply_result option \<times> (ident \<times> device_status) list" where
  "commit_transition t i seen =
     (let (from_status, to_status) = seen in
      if to_status = from_status
      then (t, Some \<lparr>ar_changed = False, ar_from = from_status, ar_to = to_status\<rparr>, [])
      else let (t', n) = cas_status i from_status to_status t in
           if n = 0 then (t', None, [])
           else (t', Some \<lparr>ar_changed = True, ar_from = from_status, ar_to = to_status\<rparr>, [(i, to_status)]))"

definition apply_event ::
    "devices_table \<Rightarrow> ident \<Rightarrow> device_event
      \<Rightarrow> devices_table \<times> apply_result option \<times> (ident \<times> device_status) list" where
  "apply_event t i e =
     (case plan_transition t i e of None \<Rightarrow> (t, None, []) | Some seen \<Rightarrow> commit_transition t i seen)"

section \<open>Lemmas\<close>

lemma next_status_cases:
  "next_status e s = Some s' \<longleftrightarrow>
     (e = DEVICE_CONNECTED \<and> (s = Offline \<and> s' = Online \<or> s = Quarantined \<and> s' = Quarantined)) \<or>
     (e = DEVICE_DISCONNECTED \<and> (s = Online \<and> s' = Offline \<or> s = Quarantined \<and> s' = Quarantined)) \<or>
     (e = QUARANTINE \<and> s = Online \<and> s' = Quarantined) \<or>
     (e = UNQUARANTINE \<and> s = Quarantined \<and> s' = Online)"
  by (cases e; cases s) (auto simp: next_status_def TRANSITIONS_def)

lemma plan_transition_edge: "plan_transition t i e = Some (s, s') \<Longrightarrow> next_status e s = Some s'"
  by (auto simp: plan_transition_def Let_def split: option.splits)

lemma rows_where_zero: "rows_where P t = 0 \<longleftrightarrow> (\<forall>r \<in> set t. \<not> P r)"
  by (auto simp: rows_where_def filter_empty_conv)

lemma commit_row:
  assumes "commit_transition t i (s, s') = (t', res, notified)"
    and "find (\<lambda>r. dev_id r = j) t = Some row" and "distinct (map dev_id t)"
  shows "find (\<lambda>r. dev_id r = j) t' =
    Some (if j = i \<and> s' \<noteq> s \<and> dev_status row = Some s then row\<lparr>dev_status := Some s'\<rparr> else row)"
proof -
  have idrow: "dev_id row = j" using find_Some_in [OF assms(2)] by simp
  show ?thesis
  proof (cases "s' = s")
    case True
    then show ?thesis using assms by (simp add: commit_transition_def)
  next
    case False
    then have "t' = update_where (\<lambda>r. dev_id r = i \<and> dev_status r = Some s) (\<lambda>r. r\<lparr>dev_status := Some s'\<rparr>) t"
      using assms(1) by (auto simp: commit_transition_def cas_status_def Let_def split: if_splits)
    then show ?thesis
      using False assms(2) idrow by (auto simp: find_update_where [where key = dev_id])
  qed
qed

lemma commit_notified:
  "commit_transition t i (s, s') = (t', res, notified) \<Longrightarrow>
     notified = (if s' \<noteq> s \<and> (\<exists>r \<in> set t. dev_id r = i \<and> dev_status r = Some s) then [(i, s')] else [])"
  by (auto simp: commit_transition_def cas_status_def Let_def rows_where_zero split: if_splits)

section \<open>Properties\<close>

text \<open>
  Whatever happened to the table between the read of an event and its write, the write changes at
  most the device's own status, only from the status the event was planned on and along an edge of
  the transition table, and observers hear about it exactly when the row changed.
\<close>

theorem commit_follows_table:
  assumes "plan_transition t0 i e = Some seen" "commit_transition t i seen = (t', res, notified)" "distinct (map dev_id t)"
  shows "(\<forall>j row. find (\<lambda>r. dev_id r = j) t = Some row \<longrightarrow>
      (\<exists>row'. find (\<lambda>r. dev_id r = j) t' = Some row' \<and>
         (row' = row \<or> j = i \<and> (\<exists>s s'. dev_status row = Some s \<and> next_status e s = Some s' \<and> row' = row\<lparr>dev_status := Some s'\<rparr>
             \<and> notified = [(i, s')]))))
    \<and> (notified \<noteq> [] \<longleftrightarrow> (\<exists>a. res = Some a \<and> ar_changed a))"
proof -
  obtain s s' where seen: "seen = (s, s')" by (cases seen)
  have edge: "next_status e s = Some s'" using plan_transition_edge assms(1) seen by simp
  note c = assms(2) [unfolded seen]
  have "\<exists>row'. find (\<lambda>r. dev_id r = j) t' = Some row' \<and>
         (row' = row \<or> j = i \<and> (\<exists>s s'. dev_status row = Some s \<and> next_status e s = Some s' \<and> row' = row\<lparr>dev_status := Some s'\<rparr>
             \<and> notified = [(i, s')]))" if "find (\<lambda>r. dev_id r = j) t = Some row" for j row
    using commit_row [OF c that assms(3)] commit_notified [OF c] edge find_Some_in [OF that] by auto
  moreover have "notified \<noteq> [] \<longleftrightarrow> (\<exists>a. res = Some a \<and> ar_changed a)"
    using c by (auto simp: commit_transition_def Let_def cas_status_def split: if_splits)
  ultimately show ?thesis by blast
qed

theorem commit_follows_table_witness:
  "\<exists>t' res n. commit_transition [\<lparr>dev_id = ''a'', dev_serial = ''s'', dev_status = Some Offline\<rparr>] ''a'' (Offline, Online) = (t', res, n)
     \<and> n = [(''a'', Online)]"
proof -
  let ?t = "[\<lparr>dev_id = ''a'', dev_serial = ''s'', dev_status = Some Offline\<rparr>]"
  have p: "plan_transition ?t ''a'' DEVICE_CONNECTED = Some (Offline, Online)" by code_simp
  obtain t' res n where c: "commit_transition ?t ''a'' (Offline, Online) = (t', res, n)"
    by (cases "commit_transition ?t ''a'' (Offline, Online)") auto
  have "find (\<lambda>r. dev_id r = ''a'') t' = Some \<lparr>dev_id = ''a'', dev_serial = ''s'', dev_status = Some Online\<rparr>"
    using c by (auto simp: commit_transition_def cas_status_def Let_def split: if_splits)
  then show ?thesis using commit_follows_table [OF p c] c by (auto split: if_splits)
qed

text \<open>
  A device row whose status column is null is stuck: every event is read as if the device were
  offline, but the guarded write matches no row, so no event ever changes it.
\<close>

theorem null_status_is_stuck:
  assumes "\<forall>r \<in> set t. dev_id r = i \<longrightarrow> dev_status r = None"
  shows "fst (apply_event t i e) = t \<and> snd (snd (apply_event t i e)) = []"
proof (cases "plan_transition t i e")
  case None
  then show ?thesis by (simp add: apply_event_def)
next
  case (Some seen)
  obtain s s' where seen: "seen = (s, s')" by (cases seen)
  have none: "\<not> (dev_id r = i \<and> dev_status r = Some s)" if "r \<in> set t" for r using assms that by auto
  then have "update_where (\<lambda>r. dev_id r = i \<and> dev_status r = Some s) f t = t" for f by (intro update_where_none) simp
  then show ?thesis using none
    by (auto simp: apply_event_def Some seen commit_transition_def cas_status_def Let_def rows_where_zero split: if_splits)
qed

theorem null_status_is_stuck_witness:
  "plan_transition [\<lparr>dev_id = ''a'', dev_serial = ''s'', dev_status = None\<rparr>] ''a'' DEVICE_CONNECTED = Some (Offline, Online)
   \<and> fst (apply_event [\<lparr>dev_id = ''a'', dev_serial = ''s'', dev_status = None\<rparr>] ''a'' DEVICE_CONNECTED)
       = [\<lparr>dev_id = ''a'', dev_serial = ''s'', dev_status = None\<rparr>]"
proof -
  have "plan_transition [\<lparr>dev_id = ''a'', dev_serial = ''s'', dev_status = None\<rparr>] ''a'' DEVICE_CONNECTED = Some (Offline, Online)"
    by code_simp
  then show ?thesis
    using null_status_is_stuck [of "[\<lparr>dev_id = ''a'', dev_serial = ''s'', dev_status = None\<rparr>]" "''a''" DEVICE_CONNECTED] by simp
qed

end
