(* ===== verification/JsValue.thy ===== *)
theory JsValue
  imports Prelude Complex_Main
begin

text \<open>
  The JavaScript values the code computes with. A number is an IEEE-754 double: NaN, an infinity, a
  negative zero, or a finite value held as the rational it denotes. The arithmetic operators compute
  exactly and round once, to nearest with ties to even, as the language specifies. A value is a
  primitive, an array or a plain object; an object is its own properties in enumeration order.
\<close>

section \<open>Doubles\<close>

datatype jsnum = JNaN | JInf bool | JNegZero | JFin rat

text \<open>\<open>JInf True\<close> is minus infinity; \<open>JFin 0\<close> is plus zero.\<close>

fun bit_len :: "nat \<Rightarrow> nat" where
  "bit_len n = (if n = 0 then 0 else Suc (bit_len (n div 2)))"

declare bit_len.simps [simp del]

definition pow2 :: "int \<Rightarrow> rat" where
  "pow2 k = (if 0 \<le> k then 2 ^ nat k else 1 / 2 ^ nat (- k))"

definition round_half_even :: "rat \<Rightarrow> int" where
  "round_half_even q =
     (let f = \<lfloor>q\<rfloor>; r = q - of_int f in
      if r < 1/2 then f else if 1/2 < r then f + 1 else if even f then f else f + 1)"

text \<open>The exponent of the last mantissa bit of the double nearest to \<open>q > 0\<close>; \<open>-1074\<close> is the subnormal floor.\<close>

definition ulp_exp :: "rat \<Rightarrow> int" where
  "ulp_exp q =
     (let (n, d) = quotient_of q;
          e0 = int (bit_len (nat n)) - int (bit_len (nat d));
          e = (if q < pow2 e0 then e0 - 1 else e0)
      in max (e - 52) (- 1074))"

text \<open>The double nearest to a rational; \<open>neg\<close> is the sign of a zero result.\<close>

definition to_double :: "bool \<Rightarrow> rat \<Rightarrow> jsnum" where
  "to_double neg q =
     (if q = 0 then (if neg then JNegZero else JFin 0)
      else let k = ulp_exp \<bar>q\<bar>; v = of_int (round_half_even (\<bar>q\<bar> / pow2 k)) * pow2 k in
           if pow2 1024 \<le> v then JInf (q < 0)
           else if v = 0 then (if q < 0 then JNegZero else JFin 0)
           else JFin (sgn q * v))"

text \<open>The mathematical value of a finite number, and its sign bit.\<close>

fun finite_val :: "jsnum \<Rightarrow> rat option" where
  "finite_val JNaN = None"
| "finite_val (JInf _) = None"
| "finite_val JNegZero = Some 0"
| "finite_val (JFin q) = Some q"

fun sign_bit :: "jsnum \<Rightarrow> bool" where
  "sign_bit JNaN = False"
| "sign_bit (JInf s) = s"
| "sign_bit JNegZero = True"
| "sign_bit (JFin q) = (q < 0)"

section \<open>Operators\<close>

definition js_neg :: "jsnum \<Rightarrow> jsnum" where
  "js_neg x = (case x of JNaN \<Rightarrow> JNaN | JInf s \<Rightarrow> JInf (\<not> s) | JNegZero \<Rightarrow> JFin 0
     | JFin q \<Rightarrow> if q = 0 then JNegZero else JFin (- q))"

definition js_add :: "jsnum \<Rightarrow> jsnum \<Rightarrow> jsnum" where
  "js_add x y = (case (x, y) of
       (JNaN, _) \<Rightarrow> JNaN
     | (_, JNaN) \<Rightarrow> JNaN
     | (JInf s, JInf t) \<Rightarrow> if s = t then JInf s else JNaN
     | (JInf s, _) \<Rightarrow> JInf s
     | (_, JInf t) \<Rightarrow> JInf t
     | (JNegZero, JNegZero) \<Rightarrow> JNegZero
     | (JNegZero, y') \<Rightarrow> y'
     | (x', JNegZero) \<Rightarrow> x'
     | (JFin a, JFin b) \<Rightarrow> to_double False (a + b))"

definition js_sub :: "jsnum \<Rightarrow> jsnum \<Rightarrow> jsnum" where
  "js_sub x y = js_add x (js_neg y)"

definition js_mul :: "jsnum \<Rightarrow> jsnum \<Rightarrow> jsnum" where
  "js_mul x y =
     (let s = (sign_bit x \<noteq> sign_bit y) in
      case (finite_val x, finite_val y) of
        (Some a, Some b) \<Rightarrow> to_double s (a * b)
      | (Some a, None) \<Rightarrow> if y = JNaN \<or> a = 0 then JNaN else JInf s
      | (None, Some b) \<Rightarrow> if x = JNaN \<or> b = 0 then JNaN else JInf s
      | (None, None) \<Rightarrow> if x = JNaN \<or> y = JNaN then JNaN else JInf s)"

definition js_div :: "jsnum \<Rightarrow> jsnum \<Rightarrow> jsnum" where
  "js_div x y =
     (let s = (sign_bit x \<noteq> sign_bit y) in
      case (finite_val x, finite_val y) of
        (Some a, Some b) \<Rightarrow> if b = 0 then (if a = 0 then JNaN else JInf s) else to_double s (a / b)
      | (Some a, None) \<Rightarrow> if y = JNaN then JNaN else to_double s 0
      | (None, Some b) \<Rightarrow> if x = JNaN then JNaN else JInf s
      | (None, None) \<Rightarrow> JNaN)"

text \<open>The remainder truncates towards zero and takes the sign of the dividend; it is always exact.\<close>

definition rat_trunc :: "rat \<Rightarrow> int" where
  "rat_trunc q = (if q < 0 then - \<lfloor>- q\<rfloor> else \<lfloor>q\<rfloor>)"

definition js_mod :: "jsnum \<Rightarrow> jsnum \<Rightarrow> jsnum" where
  "js_mod x y =
     (case (finite_val x, finite_val y) of
        (Some a, Some b) \<Rightarrow>
          if b = 0 then JNaN
          else let r = a - b * of_int (rat_trunc (a / b)) in
               if r = 0 then (if sign_bit x then JNegZero else JFin 0) else JFin r
      | (Some a, None) \<Rightarrow> if y = JNaN then JNaN else x
      | (None, _) \<Rightarrow> JNaN)"

definition js_num_eq :: "jsnum \<Rightarrow> jsnum \<Rightarrow> bool" where
  "js_num_eq x y = (case (finite_val x, finite_val y) of
       (Some a, Some b) \<Rightarrow> a = b
     | (None, None) \<Rightarrow> x \<noteq> JNaN \<and> x = y
     | _ \<Rightarrow> False)"

definition js_lt :: "jsnum \<Rightarrow> jsnum \<Rightarrow> bool" where
  "js_lt x y = (case (x, y) of
       (JNaN, _) \<Rightarrow> False
     | (_, JNaN) \<Rightarrow> False
     | (JInf s, JInf t) \<Rightarrow> s \<and> \<not> t
     | (JInf s, _) \<Rightarrow> s
     | (_, JInf t) \<Rightarrow> \<not> t
     | _ \<Rightarrow> the (finite_val x) < the (finite_val y))"

definition js_le :: "jsnum \<Rightarrow> jsnum \<Rightarrow> bool" where
  "js_le x y \<longleftrightarrow> js_lt x y \<or> js_num_eq x y"

definition js_is_nan :: "jsnum \<Rightarrow> bool" where
  "js_is_nan x \<longleftrightarrow> x = JNaN"

text \<open>\<open>Number.isInteger\<close>, with the integer.\<close>

definition int_of_num :: "jsnum \<Rightarrow> int option" where
  "int_of_num x = (case finite_val x of None \<Rightarrow> None
     | Some q \<Rightarrow> if of_int \<lfloor>q\<rfloor> = q then Some \<lfloor>q\<rfloor> else None)"

definition js_of_int :: "int \<Rightarrow> jsnum" where
  "js_of_int i = to_double False (of_int i)"

section \<open>Values\<close>

datatype jsval =
    Undefined
  | Null
  | Bool bool
  | Num jsnum
  | Str string
  | Arr "jsval list"
  | Obj "(string \<times> jsval) list"

text \<open>\<open>Boolean(v)\<close>.\<close>

fun truthy :: "jsval \<Rightarrow> bool" where
  "truthy Undefined = False"
| "truthy Null = False"
| "truthy (Bool b) = b"
| "truthy (Num x) = (\<not> js_is_nan x \<and> finite_val x \<noteq> Some 0)"
| "truthy (Str s) = (s \<noteq> [])"
| "truthy (Arr _) = True"
| "truthy (Obj _) = True"

text \<open>\<open>===\<close> on primitives; two distinct array or object references are never identical.\<close>

fun strict_prim_eq :: "jsval \<Rightarrow> jsval \<Rightarrow> bool" where
  "strict_prim_eq Undefined Undefined = True"
| "strict_prim_eq Null Null = True"
| "strict_prim_eq (Bool a) (Bool b) = (a = b)"
| "strict_prim_eq (Num a) (Num b) = js_num_eq a b"
| "strict_prim_eq (Str a) (Str b) = (a = b)"
| "strict_prim_eq _ _ = False"

section \<open>Rounding facts\<close>

lemma pow2_pos [simp]: "0 < pow2 k"
  by (simp add: pow2_def)

lemma pow2_ne [simp]: "pow2 k \<noteq> 0"
  using pow2_pos [of k] by linarith

lemma round_half_even_int [simp]: "round_half_even (of_int i) = i"
  by (simp add: round_half_even_def)

lemma bit_len_zero [simp]: "bit_len 0 = 0"
  by (subst bit_len.simps) simp

lemma bit_len_Suc_0 [simp]: "bit_len (Suc 0) = Suc 0"
  by (subst bit_len.simps) simp

lemma bit_len_bounds: "0 < n \<Longrightarrow> 2 ^ (bit_len n - 1) \<le> n \<and> n < 2 ^ bit_len n \<and> 0 < bit_len n"
proof (induction n rule: bit_len.induct)
  case (1 n)
  show ?case
  proof (cases "n div 2 = 0")
    case True
    with 1 have "n = 1" by simp
    then show ?thesis by simp
  next
    case False
    with 1 have ih: "2 ^ (bit_len (n div 2) - 1) \<le> n div 2 \<and> n div 2 < 2 ^ bit_len (n div 2) \<and> 0 < bit_len (n div 2)"
      by simp
    have b: "bit_len n = Suc (bit_len (n div 2))" using 1 by (subst bit_len.simps) simp
    have "2 ^ bit_len (n div 2) = 2 * (2 :: nat) ^ (bit_len (n div 2) - 1)"
      using ih by (metis power_eq_if less_numeral_extra(3))
    then have "2 ^ bit_len (n div 2) \<le> 2 * (n div 2)" using ih by simp
    moreover have "n < 2 * 2 ^ bit_len (n div 2)" using ih by linarith
    moreover have "2 * (n div 2) \<le> n" by simp
    ultimately have "2 ^ bit_len (n div 2) \<le> n \<and> n < 2 ^ Suc (bit_len (n div 2))"
      by (auto intro: order.trans)
    then show ?thesis unfolding b by simp
  qed
qed

text \<open>Integers up to \<open>2 ^ 53\<close> are exact: counters, indices and clock readings never round.\<close>

lemma bit_len_le_53: "0 < n \<Longrightarrow> n \<le> 2 ^ 53 \<Longrightarrow> bit_len n \<le> 54 \<and> (bit_len n = 54 \<longrightarrow> n = 2 ^ 53)"
proof -
  assume n: "0 < n" "n \<le> 2 ^ 53"
  from bit_len_bounds [OF n(1)] n(2) have p: "2 ^ (bit_len n - 1) \<le> (2 :: nat) ^ 53" by linarith
  then have "bit_len n - 1 \<le> 53" by (rule power_le_imp_le_exp [rotated]) simp
  moreover have "bit_len n = 54 \<Longrightarrow> n = 2 ^ 53"
    using bit_len_bounds [OF n(1)] n(2) by simp
  ultimately show ?thesis by auto
qed

lemma ulp_exp_int:
  assumes "0 < n" "n \<le> 2 ^ 53"
  shows "ulp_exp (of_nat n) \<le> 0 \<or> (ulp_exp (of_nat n) = 1 \<and> n = 2 ^ 53)"
proof -
  have q: "quotient_of (of_nat n) = (int n, 1)"
    using quotient_of_int [of "int n"] by (simp add: Rat.of_int_def)
  have b: "int (bit_len n) \<le> 54" "bit_len n = 54 \<Longrightarrow> n = 2 ^ 53"
    using bit_len_le_53 [OF assms] by auto
  let ?e = "if of_nat n < pow2 (int (bit_len n) - 1) then int (bit_len n) - 2 else int (bit_len n) - 1"
  have "ulp_exp (of_nat n) = max (?e - 52) (- 1074)"
    using q by (simp add: ulp_exp_def Let_def)
  moreover have "?e \<le> 52 \<or> (?e = 53 \<and> bit_len n = 54)"
    using b(1) by auto
  ultimately show ?thesis using b(2) by auto
qed

lemma scaled_int:
  assumes "0 < n" "n \<le> 2 ^ 53"
  shows "\<exists>m. (of_nat n :: rat) / pow2 (ulp_exp (of_nat n)) = of_int m"
  using ulp_exp_int [OF assms]
proof
  assume k: "ulp_exp (of_nat n) \<le> 0"
  have "(of_nat n :: rat) / pow2 (ulp_exp (of_nat n)) = of_int (int n * 2 ^ nat (- ulp_exp (of_nat n)))"
    using k by (cases "ulp_exp (of_nat n) = 0") (simp_all add: pow2_def)
  then show ?thesis by blast
next
  assume k: "ulp_exp (of_nat n) = 1 \<and> n = 2 ^ 53"
  have "(of_nat n :: rat) / pow2 1 = of_int (2 ^ 52)"
    using k by (simp add: pow2_def)
  then have "(of_nat n :: rat) / pow2 (ulp_exp (of_nat n)) = of_int (2 ^ 52)"
    using k by metis
  then show ?thesis by blast
qed

lemma to_double_int:
  assumes "\<bar>i\<bar> \<le> 2 ^ 53"
  shows "to_double False (of_int i) = JFin (of_int i)"
proof (cases "i = 0")
  case True
  then show ?thesis by (simp add: to_double_def)
next
  case False
  let ?n = "nat \<bar>i\<bar>" let ?k = "ulp_exp \<bar>of_int i\<bar>"
  have a: "\<bar>of_int i :: rat\<bar> = of_nat ?n" by simp
  have n: "0 < ?n" "?n \<le> 2 ^ 53" using False assms by auto
  obtain m where "\<bar>of_int i :: rat\<bar> / pow2 ?k = of_int m"
    using scaled_int [OF n] unfolding a [symmetric] by blast
  then have v: "of_int (round_half_even (\<bar>of_int i :: rat\<bar> / pow2 ?k)) * pow2 ?k = \<bar>of_int i\<bar>"
    by (metis nonzero_eq_divide_eq pow2_ne round_half_even_int)
  have "\<bar>of_int i :: rat\<bar> \<le> 2 ^ 53"
    using assms by (metis of_int_abs of_int_le_iff of_int_numeral of_int_power)
  also have "(2 :: rat) ^ 53 < 2 ^ 1024" by (rule power_strict_increasing) simp_all
  finally have "\<not> pow2 1024 \<le> \<bar>of_int i\<bar>" by (simp add: pow2_def)
  then show ?thesis
    using False unfolding to_double_def Let_def v by (simp add: sgn_mult_abs)
qed

lemma js_of_int_exact: "\<bar>i\<bar> \<le> 2 ^ 53 \<Longrightarrow> js_of_int i = JFin (of_int i)"
  by (simp add: js_of_int_def to_double_int)

lemma int_of_num_int [simp]: "int_of_num (JFin (of_int i)) = Some i"
  by (simp add: int_of_num_def)

lemma js_num_eq_sym: "js_num_eq x y \<longleftrightarrow> js_num_eq y x"
  by (auto simp: js_num_eq_def split: option.splits)

lemma js_num_eq_trans: "js_num_eq x y \<Longrightarrow> js_num_eq y z \<Longrightarrow> js_num_eq x z"
  by (auto simp: js_num_eq_def split: option.splits)

lemma strict_prim_eq_sym: "strict_prim_eq a b = strict_prim_eq b a"
  by (cases a; cases b) (auto simp: js_num_eq_sym)

end
