(* ===== verification/Database.thy ===== *)
theory Database
  imports DeviceState JsValue "HOL-Library.List_Lexorder" "HOL-Library.Char_ord"
    "HOL-Library.Product_Lexorder"
begin

text \<open>
  The tables the queue works on (\<open>packages/core/src/db/schema.ts\<close>): a job is an intent, a run is
  one execution of it, a batch groups jobs. Timestamps are unix seconds, a nullable column is an
  option, a JSON column is a JavaScript value. SQL comparisons with a null are false.
\<close>

section \<open>Rows\<close>

datatype job_kind = JkScript | JkWorkflow

datatype run_trigger =
    TrManual | TrRerun | TrSchedule | TrBatch | TrResume | TrWorkflowStep | TrNodeTest | TrSimulate

datatype run_status = RQueued | RRunning | RSuccess | RFailed | RCancelled | RExpired

record job_row =
  j_id :: ident
  j_kind :: job_kind
  j_script_id :: "ident option"
  j_workflow_name :: "string option"
  j_workflow_doc :: "jsval option"
  j_device_id :: ident
  j_params :: "jsval option"
  j_batch_id :: "ident option"
  j_batch_seq :: "int option"
  j_schedule_id :: "ident option"
  j_parent_workflow_job_id :: "ident option"
  j_step_seq :: "int option"
  j_script_name :: "string option"
  j_script_version :: "string option"
  j_triggered_by_job_id :: "ident option"
  j_root_job_id :: "ident option"
  j_depth :: int
  j_trigger_key :: "string option"
  j_created_by :: "string option"
  j_created_at :: seconds
  j_latest_run_id :: "ident option"
  j_run_count :: int

record run_row =
  r_id :: ident
  r_job_id :: ident
  r_seq :: int
  r_trigger :: run_trigger
  r_status :: run_status
  r_device_id :: ident
  r_script_name :: "string option"
  r_priority :: int
  r_created_at :: seconds
  r_started_at :: "seconds option"
  r_finished_at :: "seconds option"
  r_heartbeat_expires_at :: "seconds option"
  r_expires_at :: "seconds option"
  r_not_before :: "seconds option"
  r_batch_repeat :: "int option"
  r_batch_wave :: "int option"
  r_held :: bool
  r_paced_delay_ms :: "int option"
  r_result :: "jsval option"
  r_error :: "string option"
  r_failure_class :: "string option"
  r_error_phase :: "string option"
  r_infra_attempts :: int
  r_seed :: int
  r_peak_rss_bytes :: "int option"
  r_max_concurrent :: "int option"
  r_runtime_override :: "jsval option"
  r_result_status :: "string option"
  r_result_bytes :: "int option"
  r_result_summary :: "string option"
  r_result_issues :: "jsval option"
  r_resumed_from_run_id :: "ident option"
  r_resumed_from_step :: "int option"

datatype batch_status = BQueued | BRunning | BSuccess | BFailed | BCancelled | BStopping

record batch_row =
  b_id :: ident
  b_concurrency :: int
  b_status :: batch_status
  b_repeat_count :: int
  b_interval_min_ms :: int
  b_interval_max_ms :: int
  b_device_interval_ms :: int
  b_device_delay_min_ms :: int
  b_device_delay_max_ms :: int
  b_wave_size :: int
  b_sequential :: bool
  b_finished_at :: "seconds option"

record db =
  t_jobs :: "job_row list"
  t_runs :: "run_row list"
  t_devices :: "device_row list"
  t_batches :: "batch_row list"

datatype db_error = E_BAD_REQUEST string | E_NOT_FOUND string | SQL_CONSTRAINT

section \<open>Reads by key\<close>

definition job_by_id :: "db \<Rightarrow> ident \<Rightarrow> job_row option" where
  "job_by_id d i = get_where (\<lambda>j. j_id j = i) (t_jobs d)"

definition run_by_id :: "db \<Rightarrow> ident \<Rightarrow> run_row option" where
  "run_by_id d i = get_where (\<lambda>r. r_id r = i) (t_runs d)"

definition batch_by_id :: "db \<Rightarrow> ident \<Rightarrow> batch_row option" where
  "batch_by_id d i = get_where (\<lambda>b. b_id b = i) (t_batches d)"

definition device_by_id :: "db \<Rightarrow> ident \<Rightarrow> device_row option" where
  "device_by_id d i = get_where (\<lambda>r. dev_id r = i) (t_devices d)"

definition runs_of :: "db \<Rightarrow> ident \<Rightarrow> run_row list" where
  "runs_of d jid = filter (\<lambda>r. r_job_id r = jid) (t_runs d)"

abbreviation running :: "run_row \<Rightarrow> bool" where
  "running r \<equiv> r_status r = RRunning"

abbreviation queued :: "run_row \<Rightarrow> bool" where
  "queued r \<equiv> r_status r = RQueued"

definition terminal_status :: "run_status \<Rightarrow> bool" where
  "terminal_status s \<longleftrightarrow> s = RSuccess \<or> s = RFailed \<or> s = RCancelled \<or> s = RExpired"

text \<open>Updates of one table leave the others alone.\<close>

definition update_runs :: "(run_row \<Rightarrow> bool) \<Rightarrow> (run_row \<Rightarrow> run_row) \<Rightarrow> db \<Rightarrow> db" where
  "update_runs P f d = d\<lparr>t_runs := update_where P f (t_runs d)\<rparr>"

definition update_jobs :: "(job_row \<Rightarrow> bool) \<Rightarrow> (job_row \<Rightarrow> job_row) \<Rightarrow> db \<Rightarrow> db" where
  "update_jobs P f d = d\<lparr>t_jobs := update_where P f (t_jobs d)\<rparr>"

definition update_batches :: "(batch_row \<Rightarrow> bool) \<Rightarrow> (batch_row \<Rightarrow> batch_row) \<Rightarrow> db \<Rightarrow> db" where
  "update_batches P f d = d\<lparr>t_batches := update_where P f (t_batches d)\<rparr>"

lemma update_tables [simp]:
  "t_runs (update_runs P f d) = update_where P f (t_runs d)"
  "t_jobs (update_runs P f d) = t_jobs d"
  "t_devices (update_runs P f d) = t_devices d"
  "t_batches (update_runs P f d) = t_batches d"
  "t_jobs (update_jobs Q g d) = update_where Q g (t_jobs d)"
  "t_runs (update_jobs Q g d) = t_runs d"
  "t_devices (update_jobs Q g d) = t_devices d"
  "t_batches (update_jobs Q g d) = t_batches d"
  "t_batches (update_batches R h d) = update_where R h (t_batches d)"
  "t_runs (update_batches R h d) = t_runs d"
  "t_jobs (update_batches R h d) = t_jobs d"
  "t_devices (update_batches R h d) = t_devices d"
  by (simp_all add: update_runs_def update_jobs_def update_batches_def)

lemma run_by_id_update:
  "(\<And>r. r_id (f r) = r_id r) \<Longrightarrow>
     run_by_id (update_runs P f d) i = map_option (\<lambda>r. if P r then f r else r) (run_by_id d i)"
  by (simp add: run_by_id_def find_update_where)

lemma job_by_id_update:
  "(\<And>j. j_id (f j) = j_id j) \<Longrightarrow>
     job_by_id (update_jobs P f d) i = map_option (\<lambda>j. if P j then f j else j) (job_by_id d i)"
  by (simp add: job_by_id_def find_update_where)

lemma job_by_id_update_runs [simp]: "job_by_id (update_runs P f d) i = job_by_id d i"
  by (simp add: job_by_id_def)

lemma run_by_id_update_jobs [simp]: "run_by_id (update_jobs P f d) i = run_by_id d i"
  by (simp add: run_by_id_def)

lemma run_by_id_Some: "run_by_id d i = Some r \<Longrightarrow> r \<in> set (t_runs d) \<and> r_id r = i"
  by (auto simp: run_by_id_def dest: find_Some_in)

lemma job_by_id_Some: "job_by_id d i = Some j \<Longrightarrow> j \<in> set (t_jobs d) \<and> j_id j = i"
  by (auto simp: job_by_id_def dest: find_Some_in)

lemma run_by_id_unique:
  "distinct (map r_id (t_runs d)) \<Longrightarrow> r \<in> set (t_runs d) \<Longrightarrow> run_by_id d (r_id r) = Some r"
  unfolding run_by_id_def by (rule find_unique_key)

lemma job_by_id_unique:
  "distinct (map j_id (t_jobs d)) \<Longrightarrow> j \<in> set (t_jobs d) \<Longrightarrow> job_by_id d (j_id j) = Some j"
  unfolding job_by_id_def by (rule find_unique_key)

end
