(* ===== verification/RunStore.thy ===== *)
theory RunStore
  imports Database
begin

text \<open>
  \<open>packages/core/src/jobs/runs/store.ts\<close>: the only writer of \<open>latest_run_id\<close> and
  \<open>run_count\<close>, and the only place a run row is created, settled or deleted. Random values (a new
  uuid, a fresh seed) and the clock are arguments. An insert obeys the table's own constraints:
  \<open>id\<close> is the primary key and \<open>(job_id, seq)\<close> is unique.
\<close>

section \<open>Comparing parameters\<close>

text \<open>
  \<open>jsonKey\<close> is \<open>JSON.stringify\<close> of the value with sorted keys. Two keys are equal exactly when
  the canonical trees below are: a non-finite number prints as \<open>null\<close>, minus zero as \<open>0\<close>, an
  undefined property is left out and an undefined array element prints as \<open>null\<close>.
\<close>

fun insert_key :: "string \<times> jsval \<Rightarrow> (string \<times> jsval) list \<Rightarrow> (string \<times> jsval) list" where
  "insert_key p [] = [p]"
| "insert_key p (q # qs) = (if fst p \<le> fst q then p # q # qs else q # insert_key p qs)"

definition sort_props :: "(string \<times> jsval) list \<Rightarrow> (string \<times> jsval) list" where
  "sort_props ps = foldr insert_key ps []"

fun sort_keys :: "jsval \<Rightarrow> jsval" where
  "sort_keys (Arr vs) = Arr (map sort_keys vs)"
| "sort_keys (Obj ps) = Obj (sort_props (map (\<lambda>p. (fst p, sort_keys (snd p))) ps))"
| "sort_keys v = v"

fun json_tree :: "jsval \<Rightarrow> jsval" where
  "json_tree (Num x) = (case finite_val x of None \<Rightarrow> Null | Some q \<Rightarrow> Num (JFin q))"
| "json_tree (Arr vs) = Arr (map (\<lambda>v. if v = Undefined then Null else json_tree v) vs)"
| "json_tree (Obj ps) = Obj (map (\<lambda>p. (fst p, json_tree (snd p))) (filter (\<lambda>p. snd p \<noteq> Undefined) ps))"
| "json_tree v = v"

definition json_key :: "jsval \<Rightarrow> jsval" where
  "json_key v = json_tree (sort_keys v)"

definition json_column :: "jsval option \<Rightarrow> jsval" where
  "json_column c = coalesce c Null"

section \<open>Inputs\<close>

record create_job_input =
  ci_kind :: job_kind
  ci_script_id :: "ident option"
  ci_workflow_name :: "string option"
  ci_workflow_doc :: "jsval option"
  ci_device_id :: ident
  ci_params :: "jsval option"
  ci_script_name :: "string option"
  ci_script_version :: "string option"
  ci_batch_id :: "ident option"
  ci_batch_seq :: "int option"
  ci_schedule_id :: "ident option"
  ci_parent_workflow_job_id :: "ident option"
  ci_step_seq :: "int option"
  ci_triggered_by_job_id :: "ident option"
  ci_root_job_id :: "ident option"
  ci_depth :: "int option"
  ci_trigger_key :: "string option"
  ci_created_by :: "string option"

text \<open>\<open>ai_runtime_override\<close>: the outer option is "omitted", the inner one the nullable value.\<close>

record add_run_input =
  ai_trigger :: run_trigger
  ai_priority :: "int option"
  ai_expires_at :: "seconds option"
  ai_not_before :: "seconds option"
  ai_batch_repeat :: "int option"
  ai_batch_wave :: "int option"
  ai_held :: "bool option"
  ai_paced_delay_ms :: "int option"
  ai_max_concurrent :: "int option"
  ai_runtime_override :: "jsval option option"
  ai_resumed_from_run_id :: "ident option"
  ai_resumed_from_step :: "int option"
  ai_seed :: "int option"

datatype settle_status = StSuccess | StFailed | StCancelled

definition settle_run_status :: "settle_status \<Rightarrow> run_status" where
  "settle_run_status s = (case s of StSuccess \<Rightarrow> RSuccess | StFailed \<Rightarrow> RFailed | StCancelled \<Rightarrow> RCancelled)"

text \<open>In each field the outer option is "omitted", the inner one the nullable column.\<close>

record settle_run_input =
  si_status :: settle_status
  si_result :: "jsval option option"
  si_error :: "string option"
  si_failure_class :: "string option option"
  si_error_phase :: "string option option"
  si_peak_rss_bytes :: "int option option"
  si_result_status :: "string option option"
  si_result_bytes :: "int option option"
  si_result_summary :: "string option option"
  si_result_issues :: "jsval option option"

section \<open>Creating jobs and runs\<close>

definition create_job ::
    "ident \<Rightarrow> millis \<Rightarrow> create_job_input \<Rightarrow> db \<Rightarrow> db_error + (db \<times> job_row)" where
  "create_job new_id now inp d =
     (if ci_kind inp = JkScript \<and> truthy_str (ci_workflow_name inp)
      then Inl (E_BAD_REQUEST ''a script job cannot carry a workflowName'')
      else if ci_kind inp = JkWorkflow \<and> truthy_str (ci_script_id inp)
      then Inl (E_BAD_REQUEST ''a workflow job cannot carry a scriptId'')
      else
        let row = \<lparr>j_id = new_id, j_kind = ci_kind inp,
                   j_script_id = (if ci_kind inp = JkScript then ci_script_id inp else None),
                   j_workflow_name = (if ci_kind inp = JkWorkflow then ci_workflow_name inp else None),
                   j_workflow_doc = (if ci_kind inp = JkWorkflow then ci_workflow_doc inp else None),
                   j_device_id = ci_device_id inp, j_params = ci_params inp,
                   j_batch_id = ci_batch_id inp, j_batch_seq = ci_batch_seq inp,
                   j_schedule_id = ci_schedule_id inp,
                   j_parent_workflow_job_id = ci_parent_workflow_job_id inp,
                   j_step_seq = ci_step_seq inp, j_script_name = ci_script_name inp,
                   j_script_version = ci_script_version inp,
                   j_triggered_by_job_id = ci_triggered_by_job_id inp,
                   j_root_job_id = ci_root_job_id inp, j_depth = coalesce (ci_depth inp) 0,
                   j_trigger_key = ci_trigger_key inp, j_created_by = ci_created_by inp,
                   j_created_at = to_sec now, j_latest_run_id = None, j_run_count = 0\<rparr>
        in if new_id \<in> j_id ` set (t_jobs d)
             \<or> (\<exists>j \<in> set (t_jobs d). j_root_job_id j \<noteq> None \<and> j_root_job_id j = ci_root_job_id inp
                  \<and> j_trigger_key j \<noteq> None \<and> j_trigger_key j = ci_trigger_key inp)
           then Inl SQL_CONSTRAINT
           else Inr (d\<lparr>t_jobs := t_jobs d @ [row]\<rparr>, row))"

definition add_run ::
    "ident \<Rightarrow> int \<Rightarrow> millis \<Rightarrow> ident \<Rightarrow> add_run_input \<Rightarrow> db \<Rightarrow> db_error + (db \<times> run_row)" where
  "add_run new_id random_seed now job_id inp d =
     (case job_by_id d job_id of
        None \<Rightarrow> Inl (E_NOT_FOUND ''job_not_found'')
      | Some job \<Rightarrow>
          let seq = j_run_count job + 1;
              previous = (if truthy_str (j_latest_run_id job)
                          then run_by_id d (the (j_latest_run_id job)) else None);
              override = (case ai_runtime_override inp of Some v \<Rightarrow> v
                          | None \<Rightarrow> (case previous of None \<Rightarrow> None | Some p \<Rightarrow> r_runtime_override p));
              resumed_from = (if ai_trigger inp = TrResume \<and> truthy_str (ai_resumed_from_run_id inp)
                              then run_by_id d (the (ai_resumed_from_run_id inp)) else None);
              seed = coalesce (or_else (ai_seed inp) (map_option r_seed resumed_from)) random_seed;
              row = \<lparr>r_id = new_id, r_job_id = j_id job, r_seq = seq, r_trigger = ai_trigger inp,
                     r_status = RQueued, r_device_id = j_device_id job, r_script_name = j_script_name job,
                     r_priority = coalesce (ai_priority inp) 0, r_created_at = to_sec now,
                     r_started_at = None, r_finished_at = None, r_heartbeat_expires_at = None,
                     r_expires_at = ai_expires_at inp, r_not_before = ai_not_before inp,
                     r_batch_repeat = ai_batch_repeat inp, r_batch_wave = ai_batch_wave inp,
                     r_held = coalesce (ai_held inp) False, r_paced_delay_ms = ai_paced_delay_ms inp,
                     r_result = None, r_error = None, r_failure_class = None, r_error_phase = None,
                     r_infra_attempts = 0, r_seed = seed, r_peak_rss_bytes = None,
                     r_max_concurrent = ai_max_concurrent inp, r_runtime_override = override,
                     r_result_status = None, r_result_bytes = None, r_result_summary = None,
                     r_result_issues = None, r_resumed_from_run_id = ai_resumed_from_run_id inp,
                     r_resumed_from_step = ai_resumed_from_step inp\<rparr>
          in if new_id \<in> r_id ` set (t_runs d)
               \<or> (\<exists>r \<in> set (t_runs d). r_job_id r = j_id job \<and> r_seq r = seq)
             then Inl SQL_CONSTRAINT
             else Inr (update_jobs (\<lambda>j. j_id j = j_id job)
                         (\<lambda>j. j\<lparr>j_latest_run_id := Some new_id, j_run_count := seq\<rparr>)
                         (d\<lparr>t_runs := t_runs d @ [row]\<rparr>), row))"

text \<open>\<open>addRunOrNewJob\<close>: a run of the same job when the parameters match, else a new job.\<close>

definition add_run_or_new_job ::
    "ident \<Rightarrow> ident \<Rightarrow> int \<Rightarrow> millis \<Rightarrow> ident \<Rightarrow> jsval \<Rightarrow> add_run_input \<Rightarrow> db
      \<Rightarrow> db_error + (db \<times> job_row \<times> run_row \<times> bool)" where
  "add_run_or_new_job new_job_id new_run_id random_seed now job_id params inp d =
     (case job_by_id d job_id of
        None \<Rightarrow> Inl (E_NOT_FOUND ''job_not_found'')
      | Some job \<Rightarrow>
          if json_key (json_column (j_params job)) = json_key params
          then (case add_run new_run_id random_seed now job_id inp d of
                  Inl e \<Rightarrow> Inl e
                | Inr (d', run) \<Rightarrow>
                    (case job_by_id d' job_id of
                       None \<Rightarrow> Inl (E_NOT_FOUND ''job_not_found'')
                     | Some job' \<Rightarrow> Inr (d', job', run, True)))
          else
            (case create_job new_job_id now
                    \<lparr>ci_kind = j_kind job, ci_script_id = j_script_id job,
                     ci_workflow_name = j_workflow_name job, ci_workflow_doc = j_workflow_doc job,
                     ci_device_id = j_device_id job,
                     ci_params = (if params = Null \<or> params = Undefined then None else Some params),
                     ci_script_name = j_script_name job, ci_script_version = j_script_version job,
                     ci_batch_id = j_batch_id job, ci_batch_seq = j_batch_seq job,
                     ci_schedule_id = j_schedule_id job, ci_parent_workflow_job_id = None,
                     ci_step_seq = None, ci_triggered_by_job_id = None, ci_root_job_id = None,
                     ci_depth = None, ci_trigger_key = None, ci_created_by = j_created_by job\<rparr> d of
               Inl e \<Rightarrow> Inl e
             | Inr (d', new_job) \<Rightarrow>
                 (case add_run new_run_id random_seed now (j_id new_job) inp d' of
                    Inl e \<Rightarrow> Inl e
                  | Inr (d'', run) \<Rightarrow> Inr (d'', new_job, run, False))))"

section \<open>Reading runs\<close>

definition latest_run :: "db \<Rightarrow> ident \<Rightarrow> run_row option" where
  "latest_run d job_id =
     (case job_by_id d job_id of None \<Rightarrow> None
      | Some job \<Rightarrow> if truthy_str (j_latest_run_id job) then run_by_id d (the (j_latest_run_id job)) else None)"

text \<open>Newest first.\<close>

definition job_runs_desc :: "db \<Rightarrow> ident \<Rightarrow> run_row list" where
  "job_runs_desc d job_id = sort_key (\<lambda>r. - r_seq r) (runs_of d job_id)"

definition latest_runs :: "db \<Rightarrow> ident list \<Rightarrow> (ident, run_row) jmap" where
  "latest_runs d job_ids =
     fold (\<lambda>job out. if truthy_str (j_latest_run_id job)
                     then (case run_by_id d (the (j_latest_run_id job)) of
                             None \<Rightarrow> out | Some run \<Rightarrow> jm_set (j_id job) run out)
                     else out)
       (filter (\<lambda>j. j_id j \<in> set job_ids) (t_jobs d)) []"

definition runs_by_batch :: "db \<Rightarrow> ident \<Rightarrow> run_row list" where
  "runs_by_batch d batch_id =
     (let ids = map j_id (filter (\<lambda>j. j_batch_id j = Some batch_id) (t_jobs d)) in
      sort_key (\<lambda>r. - r_seq r) (filter (\<lambda>r. r_job_id r \<in> set ids) (t_runs d)))"

section \<open>Settling, cancelling, deleting\<close>

definition settle_patch :: "millis \<Rightarrow> settle_run_input \<Rightarrow> run_row \<Rightarrow> run_row" where
  "settle_patch now inp r = r\<lparr>
     r_status := settle_run_status (si_status inp),
     r_finished_at := Some (to_sec now),
     r_result := coalesce (si_result inp) (r_result r),
     r_error := or_else (si_error inp) (r_error r),
     r_failure_class := coalesce (si_failure_class inp) (r_failure_class r),
     r_error_phase := coalesce (si_error_phase inp) (r_error_phase r),
     r_peak_rss_bytes := coalesce (si_peak_rss_bytes inp) (r_peak_rss_bytes r),
     r_result_status := coalesce (si_result_status inp) (r_result_status r),
     r_result_bytes := coalesce (si_result_bytes inp) (r_result_bytes r),
     r_result_summary := coalesce (si_result_summary inp) (r_result_summary r),
     r_result_issues := coalesce (si_result_issues inp) (r_result_issues r)\<rparr>"

definition settle_run :: "millis \<Rightarrow> ident \<Rightarrow> settle_run_input \<Rightarrow> db \<Rightarrow> db \<times> run_row option" where
  "settle_run now run_id inp d =
     (case get_where (\<lambda>r. r_id r = run_id \<and> running r) (t_runs d) of
        None \<Rightarrow> (d, None)
      | Some run \<Rightarrow>
          let d' = update_runs (\<lambda>r. r_id r = run_id) (settle_patch now inp) d in (d', run_by_id d' run_id))"

definition cancel_queued_run :: "millis \<Rightarrow> ident \<Rightarrow> db \<Rightarrow> db \<times> run_row option" where
  "cancel_queued_run now run_id d =
     (case get_where (\<lambda>r. r_id r = run_id \<and> queued r) (t_runs d) of
        None \<Rightarrow> (d, None)
      | Some run \<Rightarrow>
          let d' = update_runs (\<lambda>r. r_id r = run_id)
                     (\<lambda>r. r\<lparr>r_status := RCancelled, r_finished_at := Some (to_sec now)\<rparr>) d
          in (d', run_by_id d' run_id))"

text \<open>The run with the greatest sequence number, the first one on a tie.\<close>

definition latest_step :: "run_row \<Rightarrow> run_row option \<Rightarrow> run_row option" where
  "latest_step r best = (case best of None \<Rightarrow> Some r
                          | Some b \<Rightarrow> if r_seq r > r_seq b then Some r else Some b)"

definition latest_of :: "run_row list \<Rightarrow> run_row option" where
  "latest_of rs = fold latest_step rs None"

definition recompute_job :: "ident \<Rightarrow> db \<Rightarrow> db" where
  "recompute_job job_id d =
     (let remaining = runs_of d job_id in
      update_jobs (\<lambda>j. j_id j = job_id)
        (\<lambda>j. j\<lparr>j_latest_run_id := map_option r_id (latest_of remaining),
               j_run_count := int (length remaining)\<rparr>) d)"

definition delete_runs :: "ident list \<Rightarrow> db \<Rightarrow> db \<times> nat \<times> ident list" where
  "delete_runs run_ids d =
     (if run_ids = [] then (d, 0, [])
      else let rows = filter (\<lambda>r. r_id r \<in> set run_ids) (t_runs d);
               job_ids = rev (remdups (rev (map r_job_id rows)));
               d' = d\<lparr>t_runs := filter (\<lambda>r. r_id r \<notin> set run_ids) (t_runs d)\<rparr>
           in (fold recompute_job job_ids d', length rows, job_ids))"


section \<open>Inversion of the operations\<close>

lemma add_run_Inr:
  assumes "add_run new_id rs now jid inp d = Inr (d', row)"
  obtains job where "job_by_id d jid = Some job" "r_id row = new_id" "r_job_id row = jid"
    "r_seq row = j_run_count job + 1" "r_status row = RQueued" "r_device_id row = j_device_id job"
    "r_script_name row = j_script_name job" "r_held row = coalesce (ai_held inp) False"
    "r_not_before row = ai_not_before inp" "r_batch_repeat row = ai_batch_repeat inp"
    "r_batch_wave row = ai_batch_wave inp"
    "t_runs d' = t_runs d @ [row]"
    "t_jobs d' = update_where (\<lambda>j. j_id j = jid) (\<lambda>j. j\<lparr>j_latest_run_id := Some new_id, j_run_count := j_run_count job + 1\<rparr>) (t_jobs d)"
    "t_devices d' = t_devices d" "t_batches d' = t_batches d"
    "new_id \<notin> r_id ` set (t_runs d)"
    "\<forall>r \<in> set (t_runs d). r_job_id r = jid \<longrightarrow> r_seq r \<noteq> j_run_count job + 1"
proof -
  from assms obtain job where job: "job_by_id d jid = Some job"
    by (auto simp: add_run_def split: option.splits)
  then have [simp]: "j_id job = jid" by (auto dest: job_by_id_Some)
  show ?thesis
    using assms job by (intro that [of job]) (auto simp: add_run_def Let_def split: if_splits)
qed

lemma create_job_Inr:
  assumes "create_job new_id now inp d = Inr (d', row)"
  shows "d' = d\<lparr>t_jobs := t_jobs d @ [row]\<rparr>" "j_id row = new_id" "new_id \<notin> j_id ` set (t_jobs d)"
    "j_latest_run_id row = None" "j_run_count row = 0" "j_batch_id row = ci_batch_id inp"
    "j_parent_workflow_job_id row = ci_parent_workflow_job_id inp" "j_device_id row = ci_device_id inp"
    "j_kind row = ci_kind inp"
  using assms by (auto simp: create_job_def Let_def split: if_splits)

section \<open>The latest run\<close>

lemma latest_step_simps [simp]:
  "latest_step r None = Some r"
  "latest_step r (Some b) = Some (if r_seq r > r_seq b then r else b)"
  by (simp_all add: latest_step_def)

lemma latest_fold:
  "\<exists>m. fold latest_step rs (Some b) = Some m \<and> m \<in> insert b (set rs)
     \<and> (\<forall>x \<in> insert b (set rs). r_seq x \<le> r_seq m)"
proof (induction rs arbitrary: b)
  case (Cons r rs)
  show ?case using Cons.IH [of "if r_seq r > r_seq b then r else b"] by (auto split: if_splits)
qed simp

lemma latest_of_Some:
  "latest_of rs = Some m \<Longrightarrow> m \<in> set rs \<and> (\<forall>x \<in> set rs. r_seq x \<le> r_seq m)"
proof (cases rs)
  case (Cons r rest)
  then show "latest_of rs = Some m \<Longrightarrow> ?thesis"
    using latest_fold [of rest r] by (auto simp: latest_of_def)
qed (simp add: latest_of_def)

lemma latest_of_None [simp]: "latest_of rs = None \<longleftrightarrow> rs = []"
proof (cases rs)
  case (Cons r rest)
  then show ?thesis using latest_fold [of rest r] by (auto simp: latest_of_def)
qed (simp add: latest_of_def)

lemma latest_of_unique:
  assumes "m \<in> set rs" "\<And>x. x \<in> set rs \<Longrightarrow> x \<noteq> m \<Longrightarrow> r_seq x < r_seq m"
  shows "latest_of rs = Some m"
proof -
  from assms(1) obtain l where l: "latest_of rs = Some l"
    by (cases "latest_of rs") auto
  then have "l \<in> set rs" "r_seq m \<le> r_seq l" using latest_of_Some assms(1) by auto
  then have "l = m" using assms(2) [of l] by force
  then show ?thesis using l by simp
qed

lemma runs_of_append [simp]:
  "runs_of (d\<lparr>t_runs := t_runs d @ [row]\<rparr>) jid = runs_of d jid @ (if r_job_id row = jid then [row] else [])"
  by (simp add: runs_of_def)

section \<open>Well-formed tables\<close>

text \<open>The constraints the schema declares: primary keys and the unique \<open>(job_id, seq)\<close> index.\<close>

definition tables_wf :: "db \<Rightarrow> bool" where
  "tables_wf d \<longleftrightarrow> distinct (map r_id (t_runs d)) \<and> distinct (map j_id (t_jobs d))
     \<and> distinct (map (\<lambda>r. (r_job_id r, r_seq r)) (t_runs d))"

text \<open>
  The two denormalised columns tell the truth: \<open>run_count\<close> counts the runs that exist and
  \<open>latest_run_id\<close> names the one with the greatest sequence number.
\<close>

definition columns :: "(int \<Rightarrow> ident option \<Rightarrow> run_row list \<Rightarrow> bool) \<Rightarrow> db \<Rightarrow> bool" where
  "columns truth d \<longleftrightarrow> (\<forall>j \<in> set (t_jobs d). truth (j_run_count j) (j_latest_run_id j) (runs_of d (j_id j)))"

definition honest_columns :: "int \<Rightarrow> ident option \<Rightarrow> run_row list \<Rightarrow> bool" where
  "honest_columns n l rs \<longleftrightarrow> n = int (length rs) \<and> l = map_option r_id (latest_of rs)"

abbreviation columns_honest :: "db \<Rightarrow> bool" where
  "columns_honest \<equiv> columns honest_columns"

text \<open>A weaker truth: \<open>latest_run_id\<close> names some run of the job, and none only when there is none.\<close>

definition valid_columns :: "int \<Rightarrow> ident option \<Rightarrow> run_row list \<Rightarrow> bool" where
  "valid_columns n l rs \<longleftrightarrow> n = int (length rs)
     \<and> (case l of None \<Rightarrow> rs = [] | Some i \<Rightarrow> i \<in> r_id ` set rs)"

abbreviation columns_valid :: "db \<Rightarrow> bool" where
  "columns_valid \<equiv> columns valid_columns"

text \<open>The documented numbering: the runs of a job are numbered \<open>1..n\<close> without a gap.\<close>

definition seqs_dense :: "db \<Rightarrow> ident \<Rightarrow> bool" where
  "seqs_dense d jid \<longleftrightarrow> r_seq ` set (runs_of d jid) = {1 .. int (length (runs_of d jid))}"

lemma tables_wf_runs_inj:
  "tables_wf d \<Longrightarrow> r \<in> set (t_runs d) \<Longrightarrow> r' \<in> set (t_runs d) \<Longrightarrow> r_id r = r_id r' \<Longrightarrow> r = r'"
  by (simp add: tables_wf_def distinct_map inj_on_def)

lemma tables_wf_jobs_inj:
  "tables_wf d \<Longrightarrow> j \<in> set (t_jobs d) \<Longrightarrow> j' \<in> set (t_jobs d) \<Longrightarrow> j_id j = j_id j' \<Longrightarrow> j = j'"
  by (simp add: tables_wf_def distinct_map inj_on_def)

lemma tables_wf_seq_inj:
  assumes "tables_wf d" "r \<in> set (runs_of d jid)" "r' \<in> set (runs_of d jid)" "r_seq r = r_seq r'"
  shows "r = r'"
proof -
  have "inj_on (\<lambda>r. (r_job_id r, r_seq r)) (set (t_runs d))"
    using assms(1) by (simp add: tables_wf_def distinct_map)
  then show ?thesis using assms(2-4) by (auto simp: runs_of_def inj_on_def)
qed

lemma add_run_wf:
  assumes "tables_wf d" "add_run new_id rs now jid inp d = Inr (d', row)"
  shows "tables_wf d'"
proof -
  from assms(2) obtain job :: job_row where f: "r_id row = new_id" "r_job_id row = jid" "r_seq row = j_run_count job + 1"
    "t_runs d' = t_runs d @ [row]" "new_id \<notin> r_id ` set (t_runs d)"
    "t_jobs d' = update_where (\<lambda>j. j_id j = jid) (\<lambda>j. j\<lparr>j_latest_run_id := Some new_id, j_run_count := j_run_count job + 1\<rparr>) (t_jobs d)"
    "\<forall>r \<in> set (t_runs d). r_job_id r = jid \<longrightarrow> r_seq r \<noteq> j_run_count job + 1"
    by (elim add_run_Inr) (rule that; assumption)
  have "map j_id (t_jobs d') = map j_id (t_jobs d)"
    unfolding f(6) by (rule map_update_where) simp
  then show ?thesis
    using assms(1) f by (auto simp: tables_wf_def)
qed

lemma create_job_wf:
  assumes "tables_wf d" "create_job new_id now inp d = Inr (d', row)"
  shows "tables_wf d'"
  using assms(1) create_job_Inr [OF assms(2)] by (auto simp: tables_wf_def)

lemma update_runs_wf:
  assumes "\<And>r. r_id (f r) = r_id r" "\<And>r. r_job_id (f r) = r_job_id r" "\<And>r. r_seq (f r) = r_seq r"
  shows "tables_wf (update_runs P f d) = tables_wf d"
proof -
  have "map r_id (update_where P f (t_runs d)) = map r_id (t_runs d)"
    "map (\<lambda>r. (r_job_id r, r_seq r)) (update_where P f (t_runs d)) = map (\<lambda>r. (r_job_id r, r_seq r)) (t_runs d)"
    by (rule map_update_where; simp add: assms)+
  then show ?thesis by (simp add: tables_wf_def)
qed

lemma update_jobs_wf:
  assumes "\<And>j. j_id (f j) = j_id j"
  shows "tables_wf (update_jobs P f d) = tables_wf d"
proof -
  have "map j_id (update_where P f (t_jobs d)) = map j_id (t_jobs d)"
    by (rule map_update_where) (simp add: assms)
  then show ?thesis by (simp add: tables_wf_def)
qed

lemma distinct_map_filter_keys: "distinct (map f xs) \<Longrightarrow> distinct (map f (filter P xs))"
  by (rule distinct_map_filter)

lemma recompute_job_wf: "tables_wf (recompute_job jid d) = tables_wf d"
  by (simp add: recompute_job_def Let_def update_jobs_wf)

lemma fold_recompute_wf: "tables_wf (fold recompute_job jids d) = tables_wf d"
  by (induction jids arbitrary: d) (simp_all add: recompute_job_wf)

lemma keep_runs_wf: "tables_wf d \<Longrightarrow> tables_wf (d\<lparr>t_runs := filter P (t_runs d)\<rparr>)"
  by (simp add: tables_wf_def distinct_map_filter_keys)

lemma delete_runs_wf: "tables_wf d \<Longrightarrow> tables_wf (fst (delete_runs ids d))"
  by (simp add: delete_runs_def Let_def fold_recompute_wf keep_runs_wf)

section \<open>Honesty of the denormalised columns\<close>

text \<open>An update that moves neither a run to another job nor its number keeps every column honest.\<close>

lemma latest_of_map:
  assumes "\<And>r. r_seq (f r) = r_seq r"
  shows "latest_of (map f rs) = map_option f (latest_of rs)"
proof -
  have "fold latest_step (map f rs) (map_option f b) = map_option f (fold latest_step rs b)" for b
  proof (induction rs arbitrary: b)
    case (Cons r rs)
    have "latest_step (f r) (map_option f b) = map_option f (latest_step r b)"
      by (cases b) (simp_all add: assms)
    then show ?case using Cons.IH [of "latest_step r b"] by simp
  qed simp
  from this [of None] show ?thesis by (simp add: latest_of_def)
qed

lemma runs_of_update:
  assumes "\<And>r. r_job_id (f r) = r_job_id r"
  shows "runs_of (update_runs P f d) jid = map (\<lambda>r. if P r then f r else r) (runs_of d jid)"
  using assms by (simp add: runs_of_def update_where_def filter_map o_def if_distrib [of r_job_id] cong: if_cong)

text \<open>
  The contract of a truth the columns keep: what \<open>recomputeJob\<close> writes has it, and it looks at the
  identity and number of the runs alone. The operations that are no \<open>addRun\<close> keep such a truth.
\<close>

locale run_columns =
  fixes truth :: "int \<Rightarrow> ident option \<Rightarrow> run_row list \<Rightarrow> bool"
  assumes recomputed: "truth (int (length rs)) (map_option r_id (latest_of rs)) rs"
    and relabel: "truth n l rs \<Longrightarrow> (\<And>r. r_id (f r) = r_id r) \<Longrightarrow> (\<And>r. r_seq (f r) = r_seq r)
      \<Longrightarrow> truth n l (map f rs)"
begin

lemma update_runs_columns:
  assumes "\<And>r. r_id (f r) = r_id r" "\<And>r. r_job_id (f r) = r_job_id r" "\<And>r. r_seq (f r) = r_seq r"
    and "columns truth d"
  shows "columns truth (update_runs P f d)"
  using assms(4) unfolding columns_def runs_of_update [OF assms(2)]
  by (auto intro!: relabel simp: assms(1,3))

lemma update_jobs_columns:
  assumes "\<And>j. j_id (f j) = j_id j" "\<And>j. j_run_count (f j) = j_run_count j"
    "\<And>j. j_latest_run_id (f j) = j_latest_run_id j" "columns truth d"
  shows "columns truth (update_jobs P f d)"
  using assms by (auto simp: columns_def in_update_where runs_of_def)

lemma fold_recompute_columns:
  assumes "\<And>j. j \<in> set (t_jobs d) \<Longrightarrow> j_id j \<notin> set jids \<Longrightarrow>
     truth (j_run_count j) (j_latest_run_id j) (runs_of d (j_id j))"
  shows "columns truth (fold recompute_job jids d)"
  using assms
proof (induction jids arbitrary: d)
  case Nil
  then show ?case by (simp add: columns_def)
next
  case (Cons jid jids)
  have r: "runs_of (recompute_job jid d) i = runs_of d i" for i
    by (simp add: recompute_job_def Let_def runs_of_def)
  have "columns truth (fold recompute_job jids (recompute_job jid d))"
  proof (rule Cons.IH)
    fix j assume j: "j \<in> set (t_jobs (recompute_job jid d))" "j_id j \<notin> set jids"
    then obtain j0 where j0: "j0 \<in> set (t_jobs d)"
      "j = (if j_id j0 = jid then j0\<lparr>j_latest_run_id := map_option r_id (latest_of (runs_of d jid)),
                                   j_run_count := int (length (runs_of d jid))\<rparr> else j0)"
      by (auto simp: recompute_job_def Let_def in_update_where)
    show "truth (j_run_count j) (j_latest_run_id j) (runs_of (recompute_job jid d) (j_id j))"
      using Cons.prems [of j0] j(2) j0 recomputed by (auto simp: r)
  qed
  then show ?case by simp
qed

lemma delete_runs_columns:
  assumes "columns truth d"
  shows "columns truth (fst (delete_runs ids d))"
proof (cases "ids = []")
  case True
  then show ?thesis using assms by (simp add: delete_runs_def)
next
  case False
  let ?d = "d\<lparr>t_runs := filter (\<lambda>r. r_id r \<notin> set ids) (t_runs d)\<rparr>"
  let ?jids = "rev (remdups (rev (map r_job_id (filter (\<lambda>r. r_id r \<in> set ids) (t_runs d)))))"
  have "columns truth (fold recompute_job ?jids ?d)"
  proof (rule fold_recompute_columns)
    fix j assume j: "j \<in> set (t_jobs ?d)" "j_id j \<notin> set ?jids"
    have "runs_of ?d (j_id j) = runs_of d (j_id j)"
      using j(2) by (force simp: runs_of_def intro!: filter_cong)
    then show "truth (j_run_count j) (j_latest_run_id j) (runs_of ?d (j_id j))"
      using j(1) assms by (simp add: columns_def)
  qed
  then show ?thesis using False by (simp add: delete_runs_def Let_def)
qed

end

interpretation honest: run_columns honest_columns
  by unfold_locales (auto simp: honest_columns_def latest_of_map option.map_comp o_def)

interpretation valid: run_columns valid_columns
proof unfold_locales
  fix rs :: "run_row list"
  show "valid_columns (int (length rs)) (map_option r_id (latest_of rs)) rs"
    by (auto simp: valid_columns_def split: option.splits dest!: latest_of_Some)
next
  fix n l rs and f :: "run_row \<Rightarrow> run_row"
  assume "valid_columns n l rs" "\<And>r. r_id (f r) = r_id r"
  then show "valid_columns n l (map f rs)"
    by (auto simp: valid_columns_def image_image split: option.splits)
qed

lemma add_run_valid:
  assumes valid: "columns_valid d"
    and a: "add_run new_id rs now jid inp d = Inr (d', row)"
  shows "columns_valid d'"
proof -
  from a obtain job :: job_row where f: "job_by_id d jid = Some job" "r_id row = new_id"
    "r_job_id row = jid" "t_runs d' = t_runs d @ [row]"
    "t_jobs d' = update_where (\<lambda>j. j_id j = jid) (\<lambda>j. j\<lparr>j_latest_run_id := Some new_id, j_run_count := j_run_count job + 1\<rparr>) (t_jobs d)"
    by (elim add_run_Inr) (rule that; assumption)
  have job: "job \<in> set (t_jobs d)" "j_id job = jid" using f(1) by (auto dest: job_by_id_Some)
  then have "valid_columns (j_run_count job) (j_latest_run_id job) (runs_of d jid)"
    using valid by (auto simp: columns_def)
  then have count: "j_run_count job = int (length (runs_of d jid))" by (simp add: valid_columns_def)
  have runs: "runs_of d' i = runs_of d i @ (if i = jid then [row] else [])" for i
    using f(3,4) by (simp add: runs_of_def)
  show ?thesis
    unfolding columns_def
  proof
    fix j assume "j \<in> set (t_jobs d')"
    then obtain j0 where j0: "j0 \<in> set (t_jobs d)"
      "j = (if j_id j0 = jid then j0\<lparr>j_latest_run_id := Some new_id, j_run_count := j_run_count job + 1\<rparr> else j0)"
      by (auto simp: f(5) in_update_where)
    have "valid_columns (j_run_count j0) (j_latest_run_id j0) (runs_of d (j_id j0))"
      using valid j0(1) by (simp add: columns_def)
    then show "valid_columns (j_run_count j) (j_latest_run_id j) (runs_of d' (j_id j))"
      using j0(2) f(2) count by (cases "j_id j0 = jid") (simp_all add: valid_columns_def runs)
  qed
qed

section \<open>Numbering the runs of a job\<close>

lemma add_run_fails_iff:
  assumes "job_by_id d jid = Some job"
  shows "(\<exists>e. add_run new_id rs now jid inp d = Inl e) \<longleftrightarrow>
    new_id \<in> r_id ` set (t_runs d) \<or> (\<exists>r \<in> set (runs_of d jid). r_seq r = j_run_count job + 1)"
proof -
  have "j_id job = jid" using assms by (auto dest: job_by_id_Some)
  then show ?thesis using assms by (auto simp: add_run_def Let_def runs_of_def)
qed

text \<open>A dense, honest job accepts a run, numbers it \<open>n + 1\<close> and stays dense and honest.\<close>

lemma add_run_dense:
  assumes wf: "tables_wf d" and honest: "columns_honest d" and dense: "seqs_dense d jid"
    and ok: "add_run new_id rs now jid inp d = Inr (d', row)"
  shows "seqs_dense d' jid" "columns_honest d'" "latest_of (runs_of d' jid) = Some row"
    "r_seq row = int (length (runs_of d jid)) + 1"
proof -
  from ok obtain job :: job_row where f: "job_by_id d jid = Some job" "r_id row = new_id"
    "r_job_id row = jid" "r_seq row = j_run_count job + 1" "t_runs d' = t_runs d @ [row]"
    "t_jobs d' = update_where (\<lambda>j. j_id j = jid) (\<lambda>j. j\<lparr>j_latest_run_id := Some new_id, j_run_count := j_run_count job + 1\<rparr>) (t_jobs d)"
    by (elim add_run_Inr) (rule that; assumption)
  let ?n = "int (length (runs_of d jid))"
  have job: "job \<in> set (t_jobs d)" "j_id job = jid" using f(1) by (auto dest: job_by_id_Some)
  then have count: "j_run_count job = ?n"
    using honest by (auto simp: columns_def honest_columns_def)
  then show seq: "r_seq row = ?n + 1" using f(4) by simp
  have runs: "runs_of d' i = runs_of d i @ (if i = jid then [row] else [])" for i
    using f(3,5) by (simp add: runs_of_def)
  have "r_seq ` set (runs_of d' jid) = insert (?n + 1) {1..?n}"
    using dense seq by (simp add: runs seqs_dense_def)
  also have "\<dots> = {1..?n + 1}" by auto
  finally show "seqs_dense d' jid" by (simp add: seqs_dense_def runs)
  have less: "r_seq r < r_seq row" if "r \<in> set (runs_of d jid)" for r
  proof -
    have "r_seq r \<in> {1..?n}" using that dense by (auto simp: seqs_dense_def)
    then show ?thesis using seq by simp
  qed
  show latest: "latest_of (runs_of d' jid) = Some row"
    by (rule latest_of_unique) (use less in \<open>auto simp: runs\<close>)
  show "columns_honest d'"
    unfolding columns_def
  proof
    fix j assume "j \<in> set (t_jobs d')"
    then obtain j0 where j0: "j0 \<in> set (t_jobs d)"
      "j = (if j_id j0 = jid then j0\<lparr>j_latest_run_id := Some new_id, j_run_count := j_run_count job + 1\<rparr> else j0)"
      by (auto simp: f(6) in_update_where)
    have "honest_columns (j_run_count j0) (j_latest_run_id j0) (runs_of d (j_id j0))"
      using honest j0(1) by (simp add: columns_def)
    then show "honest_columns (j_run_count j) (j_latest_run_id j) (runs_of d' (j_id j))"
      using j0(2) latest f(2) count by (auto simp: honest_columns_def runs)
  qed
qed

lemma update_runs_dense:
  assumes "\<And>r. r_job_id (f r) = r_job_id r" "\<And>r. r_seq (f r) = r_seq r"
  shows "seqs_dense (update_runs P f d) jid = seqs_dense d jid"
proof -
  have "r_seq ` set (runs_of (update_runs P f d) jid) = r_seq ` set (runs_of d jid)"
    unfolding runs_of_update [OF assms(1)] set_map image_image by (rule image_cong) (simp_all add: assms(2))
  then show ?thesis by (simp add: seqs_dense_def runs_of_update [OF assms(1)])
qed

text \<open>
  After deletions the count is the number of surviving runs, so a surviving run numbered one
  above that count makes the next \<open>addRun\<close> of the job violate the unique index.
\<close>

lemma add_run_after_delete_collides:
  assumes wf: "tables_wf d" and honest: "columns_honest d" and ids: "ids \<noteq> []"
    and job: "job_by_id (fst (delete_runs ids d)) jid = Some job"
    and clash: "r \<in> set (runs_of (fst (delete_runs ids d)) jid)"
      "r_seq r = int (length (runs_of (fst (delete_runs ids d)) jid)) + 1"
  shows "\<exists>e. add_run new_id rs now jid inp (fst (delete_runs ids d)) = Inl e"
proof -
  have "honest_columns (j_run_count job) (j_latest_run_id job) (runs_of (fst (delete_runs ids d)) (j_id job))"
    using honest.delete_runs_columns [OF honest, of ids] job by (auto simp: columns_def dest: job_by_id_Some)
  then have "j_run_count job + 1 = r_seq r"
    using clash(2) job by (auto simp: honest_columns_def dest: job_by_id_Some)
  then show ?thesis using clash(1) by (auto simp: add_run_fails_iff [OF job])
qed

lemma settle_patch_keeps [simp]:
  "r_id (settle_patch now inp r) = r_id r" "r_job_id (settle_patch now inp r) = r_job_id r"
  "r_seq (settle_patch now inp r) = r_seq r" "r_device_id (settle_patch now inp r) = r_device_id r"
  "r_status (settle_patch now inp r) = settle_run_status (si_status inp)"
  by (simp_all add: settle_patch_def)

end
