(* ===== verification/JobStore.thy ===== *)
theory JobStore
  imports RunStore
begin

text \<open>
  \<open>packages/core/src/queue/job-store.ts\<close>: the queue. \<open>claimNext\<close> is one immediate transaction, so
  it is one step on the database; its gates are the conjuncts of the SQL \<open>WHERE\<close>. Where the
  \<open>ORDER BY\<close> leaves a tie the first row in table order is taken.
\<close>

section \<open>Claiming a run\<close>

text \<open>The device is free for this job: only its own parent workflow's run may be running there.\<close>

definition device_free :: "db \<Rightarrow> job_row \<Rightarrow> run_row \<Rightarrow> bool" where
  "device_free d j r \<longleftrightarrow>
     \<not> list_ex (\<lambda>x. r_device_id x = r_device_id r \<and> running x \<and>
                  (case j_parent_workflow_job_id j of None \<Rightarrow> True | Some p \<Rightarrow> r_job_id x \<noteq> p)) (t_runs d)"

text \<open>\<open>SELECT COUNT(*) FROM job_runs r2 JOIN jobs j2 ... WHERE j2.batch_id = b AND running\<close>.\<close>

definition running_in_batch :: "db \<Rightarrow> ident \<Rightarrow> nat" where
  "running_in_batch d b = length (filter (\<lambda>r. running r \<and>
     (case job_by_id d (r_job_id r) of None \<Rightarrow> False | Some j \<Rightarrow> j_batch_id j = Some b)) (t_runs d))"

definition batch_gate :: "db \<Rightarrow> job_row \<Rightarrow> bool" where
  "batch_gate d j = (case j_batch_id j of None \<Rightarrow> True
     | Some b \<Rightarrow> (case batch_by_id d b of None \<Rightarrow> False
         | Some row \<Rightarrow> b_concurrency row = 0 \<or> int (running_in_batch d b) < b_concurrency row))"

definition running_of_script :: "db \<Rightarrow> string option \<Rightarrow> nat" where
  "running_of_script d s =
     (case s of None \<Rightarrow> 0 | Some _ \<Rightarrow> length (filter (\<lambda>r. r_script_name r = s \<and> running r) (t_runs d)))"

definition concurrency_gate :: "db \<Rightarrow> run_row \<Rightarrow> bool" where
  "concurrency_gate d r = (case r_max_concurrent r of None \<Rightarrow> True
     | Some m \<Rightarrow> m = 0 \<or> int (running_of_script d (r_script_name r)) < m)"

definition due :: "seconds \<Rightarrow> run_row \<Rightarrow> bool" where
  "due nowS r = (case r_not_before r of None \<Rightarrow> True | Some t \<Rightarrow> t \<le> nowS)"

definition device_online :: "db \<Rightarrow> ident \<Rightarrow> bool" where
  "device_online d i = (case device_by_id d i of None \<Rightarrow> False | Some row \<Rightarrow> dev_status row = Some Online)"

definition claimable :: "seconds \<Rightarrow> ident list \<Rightarrow> db \<Rightarrow> run_row \<Rightarrow> bool" where
  "claimable nowS exclude d r =
     (case job_by_id d (r_job_id r) of None \<Rightarrow> False
      | Some j \<Rightarrow> queued r \<and> device_online d (r_device_id r) \<and> device_free d j r
          \<and> r_device_id r \<notin> set exclude \<and> batch_gate d j \<and> concurrency_gate d r
          \<and> due nowS r \<and> \<not> r_held r)"

text \<open>\<open>ORDER BY priority DESC, created_at ASC, batch_seq ASC\<close>; a null sorts first.\<close>

fun null_first_less :: "int option \<Rightarrow> int option \<Rightarrow> bool" where
  "null_first_less None None = False"
| "null_first_less None (Some _) = True"
| "null_first_less (Some _) None = False"
| "null_first_less (Some a) (Some b) = (a < b)"

definition batch_seq_of :: "db \<Rightarrow> run_row \<Rightarrow> int option" where
  "batch_seq_of d r = (case job_by_id d (r_job_id r) of None \<Rightarrow> None | Some j \<Rightarrow> j_batch_seq j)"

definition claim_before :: "db \<Rightarrow> run_row \<Rightarrow> run_row \<Rightarrow> bool" where
  "claim_before d a b \<longleftrightarrow>
     r_priority a > r_priority b
     \<or> r_priority a = r_priority b \<and> (r_created_at a < r_created_at b
        \<or> r_created_at a = r_created_at b \<and> null_first_less (batch_seq_of d a) (batch_seq_of d b))"

fun first_by :: "('a \<Rightarrow> 'a \<Rightarrow> bool) \<Rightarrow> 'a list \<Rightarrow> 'a option" where
  "first_by lt [] = None"
| "first_by lt (x # xs) = (case first_by lt xs of None \<Rightarrow> Some x | Some y \<Rightarrow> if lt y x then Some y else Some x)"

definition claim_candidate :: "seconds \<Rightarrow> ident list \<Rightarrow> db \<Rightarrow> run_row option" where
  "claim_candidate nowS exclude d = first_by (claim_before d) (filter (claimable nowS exclude d) (t_runs d))"

definition mark_claimed :: "seconds \<Rightarrow> int \<Rightarrow> run_row \<Rightarrow> run_row" where
  "mark_claimed nowS ttl r = r\<lparr>r_status := RRunning, r_heartbeat_expires_at := Some (nowS + ttl),
     r_started_at := Some nowS\<rparr>"

record claimed_job =
  cl_job :: job_row
  cl_run :: run_row
  cl_device_id :: ident

definition claim_next :: "seconds \<Rightarrow> int \<Rightarrow> ident list \<Rightarrow> db \<Rightarrow> db \<times> claimed_job option" where
  "claim_next nowS ttl exclude d =
     (case claim_candidate nowS exclude d of
        None \<Rightarrow> (d, None)
      | Some r \<Rightarrow>
          let d' = update_runs (\<lambda>x. r_id x = r_id r) (mark_claimed nowS ttl) d in
          (d', case run_by_id d' (r_id r) of None \<Rightarrow> None
               | Some run \<Rightarrow> (case job_by_id d' (r_job_id run) of None \<Rightarrow> None
                   | Some job \<Rightarrow> Some \<lparr>cl_job = job, cl_run = run, cl_device_id = r_device_id r\<rparr>)))"

section \<open>Queue reads\<close>

definition queued_device_ids :: "db \<Rightarrow> ident list" where
  "queued_device_ids d = rev (remdups (rev (map r_device_id (filter queued (t_runs d)))))"

definition next_before :: "run_row \<Rightarrow> run_row \<Rightarrow> bool" where
  "next_before a b \<longleftrightarrow> r_priority a > r_priority b
     \<or> r_priority a = r_priority b \<and> r_created_at a < r_created_at b"

definition next_queued_run_id :: "db \<Rightarrow> ident \<Rightarrow> ident option" where
  "next_queued_run_id d dev =
     map_option r_id (first_by next_before (filter (\<lambda>r. r_device_id r = dev \<and> queued r) (t_runs d)))"

definition list_by_batch :: "db \<Rightarrow> ident \<Rightarrow> job_row list" where
  "list_by_batch d b =
     sort_key (\<lambda>j. case j_batch_seq j of None \<Rightarrow> (0 :: int, 0 :: int) | Some s \<Rightarrow> (1, s))
       (filter (\<lambda>j. j_batch_id j = Some b) (t_jobs d))"

text \<open>\<open>ORDER BY created_at ASC, id ASC\<close>.\<close>

definition created_key :: "job_row \<Rightarrow> seconds \<times> ident" where
  "created_key j = (j_created_at j, j_id j)"

definition opt_in :: "ident option \<Rightarrow> ident list \<Rightarrow> bool" where
  "opt_in x xs = (case x of None \<Rightarrow> False | Some v \<Rightarrow> v \<in> set xs)"

definition list_children :: "db \<Rightarrow> ident list \<Rightarrow> job_row list" where
  "list_children d job_ids =
     (if job_ids = [] then []
      else filter (\<lambda>j. j_id j \<notin> set job_ids)
        (sort_key created_key
          (filter (\<lambda>j. opt_in (j_parent_workflow_job_id j) job_ids \<or> opt_in (j_triggered_by_job_id j) job_ids
                       \<or> opt_in (j_root_job_id j) job_ids) (t_jobs d))))"

definition latest_status :: "db \<Rightarrow> job_row \<Rightarrow> run_status option" where
  "latest_status d j = (case j_latest_run_id j of None \<Rightarrow> None
     | Some i \<Rightarrow> map_option r_status (run_by_id d i))"

definition latest_trigger :: "db \<Rightarrow> job_row \<Rightarrow> run_trigger option" where
  "latest_trigger d j = (case j_latest_run_id j of None \<Rightarrow> None
     | Some i \<Rightarrow> map_option r_trigger (run_by_id d i))"

datatype active_status = FQueued | FRunning | FActive

record active_filter =
  af_status :: active_status
  af_device_id :: "ident option"
  af_batch_id :: "ident option"
  af_schedule_id :: "ident option"
  af_kind :: "job_kind option"
  af_root_job_id :: "ident option"
  af_limit :: nat

text \<open>A filter field narrows the list only when it is truthy.\<close>

definition narrowed :: "ident option \<Rightarrow> ident option \<Rightarrow> bool" where
  "narrowed wanted actual \<longleftrightarrow> (truthy_str wanted \<longrightarrow> actual = wanted)"

definition active_match :: "db \<Rightarrow> active_filter \<Rightarrow> job_row \<Rightarrow> bool" where
  "active_match d f j \<longleftrightarrow>
     narrowed (af_device_id f) (Some (j_device_id j)) \<and> narrowed (af_batch_id f) (j_batch_id j)
     \<and> narrowed (af_schedule_id f) (j_schedule_id j)
     \<and> (case af_kind f of None \<Rightarrow> True | Some k \<Rightarrow> j_kind j = k)
     \<and> narrowed (af_root_job_id f) (j_root_job_id j)
     \<and> (case af_status f of
          FActive \<Rightarrow> latest_status d j = Some RQueued \<or> latest_status d j = Some RRunning
        | FQueued \<Rightarrow> latest_status d j = Some RQueued
        | FRunning \<Rightarrow> latest_status d j = Some RRunning)"

definition list_active :: "db \<Rightarrow> active_filter \<Rightarrow> job_row list \<times> nat" where
  "list_active d f =
     (let matching = filter (active_match d f) (t_jobs d) in
      (take (af_limit f) (sort_key created_key matching), length matching))"

section \<open>The paged list\<close>

record list_filter =
  lf_device_id :: "ident option"
  lf_status :: "run_status option"
  lf_kind :: "job_kind option"
  lf_exclude_kind :: "job_kind option"
  lf_root_job_id :: "ident option"
  lf_parent_workflow_job_id :: "ident option"
  lf_schedule_id :: "ident option"
  lf_include_simulate :: bool

type_synonym job_cursor = "seconds \<times> ident"

definition list_match :: "db \<Rightarrow> list_filter \<Rightarrow> job_row \<Rightarrow> bool" where
  "list_match d f j \<longleftrightarrow>
     narrowed (lf_device_id f) (Some (j_device_id j))
     \<and> (case lf_kind f of None \<Rightarrow> True | Some k \<Rightarrow> j_kind j = k)
     \<and> (case lf_exclude_kind f of None \<Rightarrow> True | Some k \<Rightarrow> j_kind j \<noteq> k)
     \<and> narrowed (lf_root_job_id f) (j_root_job_id j)
     \<and> narrowed (lf_parent_workflow_job_id f) (j_parent_workflow_job_id j)
     \<and> narrowed (lf_schedule_id f) (j_schedule_id j)
     \<and> (case lf_status f of None \<Rightarrow> True | Some s \<Rightarrow> latest_status d j = Some s)
     \<and> (lf_include_simulate f \<or> latest_trigger d j \<noteq> Some TrSimulate)"

text \<open>\<open>keysetWhere\<close> for \<open>ORDER BY created_at DESC, id DESC\<close>: strictly after the cursor.\<close>

definition keyset_where :: "job_cursor option \<Rightarrow> job_row \<Rightarrow> bool" where
  "keyset_where c j = (case c of None \<Rightarrow> True
     | Some (v, i) \<Rightarrow> j_created_at j < v \<or> (j_created_at j = v \<and> j_id j < i))"

definition created_desc :: "job_row list \<Rightarrow> job_row list" where
  "created_desc js = rev (sort_key created_key js)"

definition list_jobs :: "db \<Rightarrow> list_filter \<Rightarrow> job_cursor option \<Rightarrow> nat \<Rightarrow> job_row list \<times> job_cursor option \<times> nat" where
  "list_jobs d f cursor limit =
     (let matching = filter (list_match d f) (t_jobs d);
          page = take (limit + 1) (created_desc (filter (keyset_where cursor) matching));
          has_more = limit < length page;
          rows = (if has_more then take limit page else page);
          next = (if has_more \<and> rows \<noteq> [] then Some (created_key (last rows)) else None)
      in (rows, next, length matching))"

section \<open>Heartbeats, expiry and recovery\<close>

definition renew_heartbeat :: "seconds \<Rightarrow> ident \<Rightarrow> int \<Rightarrow> db \<Rightarrow> db \<times> bool" where
  "renew_heartbeat nowS run_id ttl d =
     (let P = (\<lambda>r. r_id r = run_id \<and> running r) in
      (update_runs P (\<lambda>r. r\<lparr>r_heartbeat_expires_at := Some (nowS + ttl)\<rparr>) d, 0 < rows_where P (t_runs d)))"

definition expired_running :: "seconds \<Rightarrow> db \<Rightarrow> run_row list" where
  "expired_running nowS d =
     filter (\<lambda>r. running r \<and> (case r_heartbeat_expires_at r of None \<Rightarrow> False | Some t \<Rightarrow> t < nowS)) (t_runs d)"

definition queue_expired :: "seconds \<Rightarrow> run_row \<Rightarrow> bool" where
  "queue_expired nowS r \<longleftrightarrow> queued r \<and> (case r_expires_at r of None \<Rightarrow> False | Some t \<Rightarrow> t \<le> nowS)"

definition expire_queued :: "seconds \<Rightarrow> db \<Rightarrow> db \<times> run_row list" where
  "expire_queued nowS d =
     (let ids = map r_id (filter (queue_expired nowS) (t_runs d));
          d' = update_runs (queue_expired nowS) (\<lambda>r. r\<lparr>r_status := RExpired, r_finished_at := Some nowS\<rparr>) d
      in (d', if ids = [] then [] else filter (\<lambda>r. r_id r \<in> set ids) (t_runs d')))"

definition fail_orphan_running :: "millis \<Rightarrow> db \<Rightarrow> db \<times> nat" where
  "fail_orphan_running now d =
     (update_runs running
        (\<lambda>r. r\<lparr>r_status := RFailed, r_error := Some ''core restarted'', r_finished_at := Some (to_sec now),
               r_heartbeat_expires_at := None, r_failure_class := Some ''infra''\<rparr>) d,
      rows_where running (t_runs d))"

definition running_by_device :: "db \<Rightarrow> ident \<Rightarrow> run_row option" where
  "running_by_device d dev = get_where (\<lambda>r. r_device_id r = dev \<and> running r) (t_runs d)"

definition requeue_for_rebind :: "ident \<Rightarrow> ident \<Rightarrow> db \<Rightarrow> db \<times> run_row option" where
  "requeue_for_rebind run_id new_dev d =
     (case get_where (\<lambda>r. r_id r = run_id \<and> running r) (t_runs d) of
        None \<Rightarrow> (d, None)
      | Some before \<Rightarrow>
          let P = (\<lambda>r. r_id r = run_id \<and> running r);
              d1 = update_runs P (\<lambda>r. r\<lparr>r_status := RQueued, r_device_id := new_dev,
                     r_heartbeat_expires_at := None, r_started_at := None,
                     r_infra_attempts := r_infra_attempts r + 1\<rparr>) d
          in if rows_where P (t_runs d) = 0 then (d1, None)
             else let d2 = update_jobs (\<lambda>j. j_id j = r_job_id before) (\<lambda>j. j\<lparr>j_device_id := new_dev\<rparr>) d1
                  in (d2, run_by_id d2 run_id))"

section \<open>The projection shown to clients\<close>

record job_info =
  i_job_id :: ident
  i_device_id :: ident
  i_script_id :: string
  i_kind :: job_kind
  i_script_name :: "string option"
  i_script_version :: "string option"
  i_status :: run_status
  i_error :: "string option"
  i_failure_class :: "string option"
  i_priority :: int
  i_created_at :: seconds
  i_started_at :: "seconds option"
  i_finished_at :: "seconds option"
  i_batch_id :: "ident option"
  i_batch_seq :: "int option"
  i_run_id :: "ident option"
  i_run_seq :: "int option"
  i_run_count :: int
  i_expires_at :: "seconds option"
  i_error_phase :: "string option"
  i_triggered_by_job_id :: "ident option"
  i_root_job_id :: "ident option"
  i_depth :: int
  i_peak_rss_bytes :: "int option"
  i_not_before :: "seconds option"
  i_batch_repeat :: "int option"
  i_paced_delay_ms :: "int option"
  i_result_status :: "string option"
  i_result_summary :: "string option"
  i_trigger :: "run_trigger option"
  i_parent_workflow_job_id :: "ident option"
  i_step_seq :: "int option"

text \<open>\<open>rowToJobInfo\<close>: a job's status is its latest run's, \<open>queued\<close> without one.\<close>

definition row_to_job_info :: "job_row \<Rightarrow> run_row option \<Rightarrow> (string \<times> string) option \<Rightarrow> job_info" where
  "row_to_job_info row run script = \<lparr>
     i_job_id = j_id row, i_device_id = j_device_id row,
     i_script_id = coalesce (j_script_id row) [], i_kind = j_kind row,
     i_script_name = or_else (j_script_name row) (map_option fst script),
     i_script_version = or_else (j_script_version row) (map_option snd script),
     i_status = (case run of None \<Rightarrow> RQueued | Some r \<Rightarrow> r_status r),
     i_error = Option.bind run r_error,
     i_failure_class = Option.bind run r_failure_class,
     i_priority = (case run of None \<Rightarrow> 0 | Some r \<Rightarrow> r_priority r),
     i_created_at = j_created_at row,
     i_started_at = Option.bind run r_started_at,
     i_finished_at = Option.bind run r_finished_at,
     i_batch_id = j_batch_id row, i_batch_seq = j_batch_seq row,
     i_run_id = map_option r_id run, i_run_seq = map_option r_seq run, i_run_count = j_run_count row,
     i_expires_at = Option.bind run r_expires_at, i_error_phase = Option.bind run r_error_phase,
     i_triggered_by_job_id = j_triggered_by_job_id row, i_root_job_id = j_root_job_id row,
     i_depth = j_depth row, i_peak_rss_bytes = Option.bind run r_peak_rss_bytes,
     i_not_before = Option.bind run r_not_before, i_batch_repeat = Option.bind run r_batch_repeat,
     i_paced_delay_ms = Option.bind run r_paced_delay_ms,
     i_result_status = Option.bind run r_result_status,
     i_result_summary = Option.bind run r_result_summary,
     i_trigger = map_option r_trigger run,
     i_parent_workflow_job_id = j_parent_workflow_job_id row, i_step_seq = j_step_seq row\<rparr>"

section \<open>The orders of the two selections\<close>

text \<open>
  An \<open>ORDER BY\<close> compares rows by a key. The contract: the comparison is the strict order of a
  key into a linear order. What it gives: the selected row is a least one, and the earliest of
  the least ones in table order.
\<close>

locale keyed_order =
  fixes lt :: "'a \<Rightarrow> 'a \<Rightarrow> bool" and key :: "'a \<Rightarrow> 'k :: linorder"
  assumes lt_key: "lt a b \<longleftrightarrow> key a < key b"
begin

lemma first_by_None: "first_by lt xs = None \<longleftrightarrow> xs = []"
  by (cases xs) (auto split: option.splits)

lemma first_by_least: "first_by lt xs = Some x \<Longrightarrow> x \<in> set xs \<and> (\<forall>y \<in> set xs. key x \<le> key y)"
proof (induction xs arbitrary: x)
  case (Cons z xs)
  show ?case
  proof (cases "first_by lt xs")
    case None
    then show ?thesis using Cons.prems by (simp add: first_by_None)
  next
    case (Some y)
    have "x = (if key y < key z then y else z)" using Cons.prems Some by (simp add: lt_key [symmetric] split: if_splits)
    then show ?thesis using Cons.IH [OF Some] by (auto split: if_splits)
  qed
qed simp

lemma first_by_not_lt: "first_by lt xs = Some x \<Longrightarrow> y \<in> set xs \<Longrightarrow> \<not> lt y x"
  using first_by_least by (auto simp: lt_key not_less)

lemma first_by_earliest:
  assumes "first_by lt (xs @ y # ys) = Some x" "key y = key x" "y \<noteq> x"
  shows "x \<in> set xs"
  using assms
proof (induction xs)
  case Nil
  have "first_by lt (y # ys) = Some x" using Nil by simp
  then show ?case using Nil(2,3)
    by (auto simp: lt_key split: option.splits if_splits)
next
  case (Cons z xs)
  then show ?case by (auto split: option.splits if_splits)
qed

end

text \<open>The claim order as a key: a higher priority first, then the older row, then the batch order.\<close>

definition null_first_key :: "int option \<Rightarrow> int \<times> int" where
  "null_first_key x = (case x of None \<Rightarrow> (0, 0) | Some s \<Rightarrow> (1, s))"

definition claim_key :: "db \<Rightarrow> run_row \<Rightarrow> int \<times> seconds \<times> int \<times> int" where
  "claim_key d r = (- r_priority r, r_created_at r, null_first_key (batch_seq_of d r))"

lemma null_first_less_key: "null_first_less a b \<longleftrightarrow> null_first_key a < null_first_key b"
  by (cases a; cases b) (auto simp: null_first_key_def less_prod_def)

interpretation claim_order: keyed_order "claim_before d" "claim_key d" for d
  by unfold_locales (auto simp: claim_before_def claim_key_def less_prod_def null_first_less_key less_eq_prod_def)

interpretation next_order: keyed_order next_before "\<lambda>r. (- r_priority r, r_created_at r)"
  by unfold_locales (auto simp: next_before_def less_prod_def)

section \<open>What a claim does\<close>

lemma claimable_facts:
  assumes "claimable nowS exclude d r"
  shows "queued r" "\<not> r_held r" "due nowS r" "device_online d (r_device_id r)"
    "r_device_id r \<notin> set exclude" "concurrency_gate d r"
    "\<exists>j. job_by_id d (r_job_id r) = Some j \<and> device_free d j r \<and> batch_gate d j"
  using assms by (auto simp: claimable_def split: option.splits)

lemma claim_candidate_Some:
  assumes "claim_candidate nowS exclude d = Some r"
  shows "r \<in> set (t_runs d)" "claimable nowS exclude d r"
    "\<And>x. x \<in> set (t_runs d) \<Longrightarrow> claimable nowS exclude d x \<Longrightarrow> \<not> claim_before d x r"
proof -
  let ?xs = "filter (claimable nowS exclude d) (t_runs d)"
  have f: "first_by (claim_before d) ?xs = Some r" using assms by (simp add: claim_candidate_def)
  from claim_order.first_by_least [OF f] show "r \<in> set (t_runs d)" "claimable nowS exclude d r" by auto
  fix x assume "x \<in> set (t_runs d)" "claimable nowS exclude d x"
  then show "\<not> claim_before d x r" using claim_order.first_by_not_lt [OF f, of x] by simp
qed

lemma claim_candidate_None:
  "claim_candidate nowS exclude d = None \<longleftrightarrow> (\<forall>x \<in> set (t_runs d). \<not> claimable nowS exclude d x)"
  by (auto simp: claim_candidate_def claim_order.first_by_None filter_empty_conv)

lemma mark_claimed_keeps [simp]:
  "r_id (mark_claimed nowS ttl r) = r_id r" "r_job_id (mark_claimed nowS ttl r) = r_job_id r"
  "r_seq (mark_claimed nowS ttl r) = r_seq r" "r_device_id (mark_claimed nowS ttl r) = r_device_id r"
  "r_status (mark_claimed nowS ttl r) = RRunning"
  by (simp_all add: mark_claimed_def)

lemma claim_next_Some:
  assumes wf: "tables_wf d" and c: "claim_next nowS ttl exclude d = (d', Some cj)"
  obtains r j where "claim_candidate nowS exclude d = Some r" "r \<in> set (t_runs d)"
    "claimable nowS exclude d r" "job_by_id d (r_job_id r) = Some j"
    "cj = \<lparr>cl_job = j, cl_run = mark_claimed nowS ttl r, cl_device_id = r_device_id r\<rparr>"
    "d' = update_runs (\<lambda>x. r_id x = r_id r) (mark_claimed nowS ttl) d"
proof -
  from c obtain r where r: "claim_candidate nowS exclude d = Some r"
    "d' = update_runs (\<lambda>x. r_id x = r_id r) (mark_claimed nowS ttl) d"
    by (auto simp: claim_next_def Let_def split: option.splits)
  have in_r: "r \<in> set (t_runs d)" "claimable nowS exclude d r"
    using claim_candidate_Some [OF r(1)] by auto
  have "run_by_id d (r_id r) = Some r"
    using wf in_r(1) by (simp add: tables_wf_def run_by_id_unique)
  then have run: "run_by_id d' (r_id r) = Some (mark_claimed nowS ttl r)"
    unfolding r(2) by (subst run_by_id_update) simp_all
  obtain j where j: "job_by_id d (r_job_id r) = Some j"
    using in_r(2) by (auto simp: claimable_def split: option.splits)
  have "cj = \<lparr>cl_job = j, cl_run = mark_claimed nowS ttl r, cl_device_id = r_device_id r\<rparr>"
    using c r run j by (simp add: claim_next_def Let_def)
  then show ?thesis using that r in_r j by blast
qed

lemma claim_next_None:
  assumes wf: "tables_wf d" and c: "claim_next nowS ttl exclude d = (d', None)"
  shows "d' = d" "\<And>r. r \<in> set (t_runs d) \<Longrightarrow> \<not> claimable nowS exclude d r"
proof -
  have n: "claim_candidate nowS exclude d = None"
  proof (rule ccontr)
    assume "claim_candidate nowS exclude d \<noteq> None"
    then obtain r where r: "claim_candidate nowS exclude d = Some r" by auto
    have in_r: "r \<in> set (t_runs d)" "claimable nowS exclude d r"
      using claim_candidate_Some [OF r] by auto
    have "run_by_id d (r_id r) = Some r"
      using wf in_r(1) by (simp add: tables_wf_def run_by_id_unique)
    then show False using c r in_r(2)
      by (auto simp: claim_next_def Let_def run_by_id_update claimable_def split: option.splits)
  qed
  then show "d' = d" using c by (simp add: claim_next_def)
  show "\<And>r. r \<in> set (t_runs d) \<Longrightarrow> \<not> claimable nowS exclude d r"
    using n by (simp add: claim_candidate_None)
qed

section \<open>Paging through the list\<close>

lemma keyset_where_key: "keyset_where (Some (created_key k)) j \<longleftrightarrow> created_key j < created_key k"
  by (auto simp: keyset_where_def created_key_def less_prod_def)

lemma created_desc_filter: "created_desc (filter P js) = filter P (created_desc js)"
  unfolding created_desc_def by (simp add: rev_filter [symmetric] filter_sort)

lemma created_desc_strict:
  assumes "distinct (map j_id js)"
  shows "sorted_wrt (\<lambda>a b. created_key b < created_key a) (created_desc js)"
proof -
  have "inj_on created_key (set js)"
    using assms by (auto simp: distinct_map inj_on_def created_key_def)
  then have "distinct (map created_key (sort_key created_key js))"
    using assms by (simp add: distinct_map)
  then have "sorted_wrt (<) (map created_key (sort_key created_key js))"
    by (simp add: strict_sorted_iff)
  then show ?thesis by (simp add: created_desc_def sorted_wrt_rev sorted_wrt_map)
qed

text \<open>In the ordered list, the rows strictly after the \<open>k\<close>-th are the ones the cursor keeps.\<close>

lemma keyset_drop:
  assumes "sorted_wrt (\<lambda>a b. created_key b < created_key a) S" "k < length S"
  shows "filter (keyset_where (Some (created_key (S ! k)))) S = drop (Suc k) S"
proof -
  have S: "S = take (Suc k) S @ drop (Suc k) S" by simp
  have "filter (keyset_where (Some (created_key (S ! k)))) (take (Suc k) S) = []"
    using assms by (auto simp: filter_empty_conv keyset_where_key in_set_conv_nth sorted_wrt_iff_nth_less)
      (metis less_SucE less_asym' order_less_irrefl)
  moreover have "filter (keyset_where (Some (created_key (S ! k)))) (drop (Suc k) S) = drop (Suc k) S"
    using assms by (auto simp: filter_id_conv keyset_where_key in_set_conv_nth sorted_wrt_iff_nth_less)
  ultimately show ?thesis by (subst S, subst filter_append) simp
qed

definition matching_jobs :: "db \<Rightarrow> list_filter \<Rightarrow> job_row list" where
  "matching_jobs d f = created_desc (filter (list_match d f) (t_jobs d))"

lemma list_jobs_page:
  assumes "filter (keyset_where c) (matching_jobs d f) = rest"
  shows "list_jobs d f c limit =
    (take limit rest,
     (if limit < length rest \<and> limit \<noteq> 0 then Some (created_key (rest ! (limit - 1))) else None),
     length (matching_jobs d f))"
proof -
  have rest: "created_desc (filter (keyset_where c) (filter (list_match d f) (t_jobs d))) = rest"
    using assms by (simp only: matching_jobs_def created_desc_filter)
  then have rest': "created_desc (filter (\<lambda>x. list_match d f x \<and> keyset_where c x) (t_jobs d)) = rest"
    by simp
  have len: "length (matching_jobs d f) = length (filter (list_match d f) (t_jobs d))"
    by (simp add: matching_jobs_def created_desc_def)
  show ?thesis
  proof (cases "limit < length rest")
    case True
    then have "take limit (take (limit + 1) rest) = take limit rest" "limit < length (take (limit + 1) rest)"
      by simp_all
    then show ?thesis using True
      by (auto simp: list_jobs_def Let_def rest' len last_conv_nth)
  next
    case False
    then show ?thesis by (simp add: list_jobs_def Let_def rest' len)
  qed
qed

text \<open>A client that follows \<open>nextCursor\<close> until there is none.\<close>

fun collect_pages :: "nat \<Rightarrow> db \<Rightarrow> list_filter \<Rightarrow> job_cursor option \<Rightarrow> nat \<Rightarrow> job_row list option" where
  "collect_pages 0 d f c limit = None"
| "collect_pages (Suc n) d f c limit =
     (case list_jobs d f c limit of
        (rows, None, _) \<Rightarrow> Some rows
      | (rows, Some c', _) \<Rightarrow> map_option ((@) rows) (collect_pages n d f (Some c') limit))"

lemma collect_pages_from:
  assumes ids: "distinct (map j_id (t_jobs d))" and limit: "0 < limit"
    and rest: "filter (keyset_where c) (matching_jobs d f) = drop k (matching_jobs d f)"
    and fuel: "length (matching_jobs d f) < n + k" "k \<le> length (matching_jobs d f)"
  shows "collect_pages n d f c limit = Some (drop k (matching_jobs d f))"
  using rest fuel
proof (induction n arbitrary: c k)
  case (Suc n)
  let ?S = "matching_jobs d f"
  have strict: "sorted_wrt (\<lambda>a b. created_key b < created_key a) ?S"
    unfolding matching_jobs_def using ids by (intro created_desc_strict distinct_map_filter_keys)
  show ?case
  proof (cases "limit < length (drop k ?S)")
    case False
    then show ?thesis by (simp add: list_jobs_page [OF Suc.prems(1)])
  next
    case True
    have "filter (keyset_where (Some (created_key (?S ! (k + (limit - 1)))))) ?S = drop (Suc (k + (limit - 1))) ?S"
      using True by (intro keyset_drop [OF strict]) auto
    then have "collect_pages n d f (Some (created_key (?S ! (k + (limit - 1))))) limit = Some (drop (k + limit) ?S)"
      using True limit Suc.prems by (intro Suc.IH) auto
    moreover have "take limit (drop k ?S) @ drop (k + limit) ?S = drop k ?S"
      by (metis add.commute append_take_drop_id drop_drop)
    ultimately show ?thesis using True limit by (simp add: list_jobs_page [OF Suc.prems(1)])
  qed
qed simp

end
