(* ===== verification/RunSweeper.thy ===== *)
theory RunSweeper
  imports RunStore
begin

text \<open>
  The deletions of run history: \<open>packages/core/src/jobs/runs/sweeper.ts\<close> (the nightly pass over old
  runs), the row half of \<open>jobs/purge.ts\<close> (a job with its whole history) and the one direct insert of
  a finished pair of rows, \<open>workflows/simulate-store.ts\<close>. Files, events and artifacts that hang off a
  run are in the theory of the retention sweep.
\<close>

section \<open>Selecting old runs\<close>

definition joined_job :: "db \<Rightarrow> run_row \<Rightarrow> job_row option" where
  "joined_job d r = job_by_id d (r_job_id r)"

definition finished_at :: "run_row \<Rightarrow> seconds" where
  "finished_at r = coalesce (r_finished_at r) (r_created_at r)"

text \<open>\<open>latestWorkflowRunIds\<close>: per workflow name the most recently finished run, over all its jobs.\<close>

definition best_workflow_runs :: "db \<Rightarrow> (string, ident \<times> seconds) jmap" where
  "best_workflow_runs d =
     fold (\<lambda>r best.
        case Option.bind (joined_job d r) j_workflow_name of
          None \<Rightarrow> best
        | Some name \<Rightarrow>
            if \<not> terminal_status (r_status r) \<or> r_trigger r = TrNodeTest \<or> r_trigger r = TrSimulate then best
            else if name = [] then best
            else (case jm_get best name of
                    None \<Rightarrow> jm_set name (r_id r, finished_at r) best
                  | Some (_, t) \<Rightarrow> if finished_at r > t then jm_set name (r_id r, finished_at r) best else best))
       (t_runs d) []"

definition latest_workflow_run_ids :: "db \<Rightarrow> ident list" where
  "latest_workflow_run_ids d = map fst (jm_values (best_workflow_runs d))"

definition DAY_MS :: millis where
  "DAY_MS = 86400000"

definition cutoff_sec :: "millis \<Rightarrow> int \<Rightarrow> seconds" where
  "cutoff_sec now days = to_sec (now - days * DAY_MS)"

text \<open>\<open>latest_run_id IS NULL OR latest_run_id <> id\<close>.\<close>

definition not_latest :: "job_row \<Rightarrow> run_row \<Rightarrow> bool" where
  "not_latest j r \<longleftrightarrow> (case j_latest_run_id j of None \<Rightarrow> True | Some i \<Rightarrow> i \<noteq> r_id r)"

definition old_run :: "seconds \<Rightarrow> run_row \<Rightarrow> bool" where
  "old_run cutoff r \<longleftrightarrow> terminal_status (r_status r) \<and> finished_at r < cutoff"

definition candidate_run_ids :: "millis \<Rightarrow> int \<Rightarrow> db \<Rightarrow> ident list" where
  "candidate_run_ids now run_days d =
     filter (\<lambda>i. i \<notin> set (latest_workflow_run_ids d))
       (map r_id (filter (\<lambda>r. r_trigger r \<noteq> TrSimulate \<and> old_run (cutoff_sec now run_days) r
          \<and> (case joined_job d r of None \<Rightarrow> False | Some j \<Rightarrow> not_latest j r)) (t_runs d)))"

definition candidate_simulate_run_ids :: "millis \<Rightarrow> int \<Rightarrow> db \<Rightarrow> ident list" where
  "candidate_simulate_run_ids now simulate_days d =
     map r_id (filter (\<lambda>r. r_trigger r = TrSimulate \<and> old_run (cutoff_sec now simulate_days) r) (t_runs d))"

section \<open>Deleting them\<close>

definition delete_jobs :: "ident list \<Rightarrow> db \<Rightarrow> db" where
  "delete_jobs ids d = d\<lparr>t_jobs := filter (\<lambda>j. j_id j \<notin> set ids) (t_jobs d)\<rparr>"

text \<open>A job whose last run went goes too, unless a schedule or a parent workflow job owns it.\<close>

definition unowned_empty :: "job_row \<Rightarrow> bool" where
  "unowned_empty j \<longleftrightarrow> j_run_count j = 0 \<and> j_schedule_id j = None \<and> j_parent_workflow_job_id j = None"

definition drop_if_empty :: "ident \<Rightarrow> db \<times> nat \<Rightarrow> db \<times> nat" where
  "drop_if_empty i s = (case s of (d, n) \<Rightarrow>
     (case job_by_id d i of None \<Rightarrow> (d, n)
      | Some j \<Rightarrow> if unowned_empty j then (delete_jobs [i] d, n + 1) else (d, n)))"

definition sweep_chunk :: "ident list \<Rightarrow> db \<times> nat \<times> nat \<Rightarrow> db \<times> nat \<times> nat" where
  "sweep_chunk batch s = (case s of (d, runs, jobs) \<Rightarrow>
     (case delete_runs batch d of (d1, n, touched) \<Rightarrow>
        (case fold drop_if_empty touched (d1, jobs) of (d2, jobs') \<Rightarrow> (d2, runs + n, jobs'))))"

text \<open>\<open>for (i = 0; i < ids.length; i += chunk) ids.slice(i, i + chunk)\<close>; a positive \<open>chunk\<close>.\<close>

function chunks :: "nat \<Rightarrow> 'a list \<Rightarrow> 'a list list" where
  "chunks n xs = (if xs = [] then [] else if n = 0 then [xs] else take n xs # chunks n (drop n xs))"
  by auto
termination by (relation "measure (\<lambda>(n, xs). length xs)") auto

declare chunks.simps [simp del]

definition sweep_once :: "millis \<Rightarrow> int \<Rightarrow> int \<Rightarrow> nat \<Rightarrow> db \<Rightarrow> db \<times> nat \<times> nat" where
  "sweep_once now run_days simulate_days chunk d =
     fold sweep_chunk (chunks chunk (candidate_run_ids now run_days d @ candidate_simulate_run_ids now simulate_days d))
       (d, 0, 0)"

section \<open>Purging jobs\<close>

text \<open>\<open>deleteJobsWithHistory\<close>: the runs of the named jobs, then the jobs, in chunks of 500.\<close>

definition purge_chunk :: "ident list \<Rightarrow> db \<times> nat \<times> nat \<Rightarrow> db \<times> nat \<times> nat" where
  "purge_chunk job_ids s = (case s of (d, jobs, runs) \<Rightarrow>
     let run_ids = map r_id (filter (\<lambda>r. r_job_id r \<in> set job_ids) (t_runs d));
         d1 = (if run_ids = [] then d else d\<lparr>t_runs := filter (\<lambda>r. r_id r \<notin> set run_ids) (t_runs d)\<rparr>)
     in (delete_jobs job_ids d1, jobs + rows_where (\<lambda>j. j_id j \<in> set job_ids) (t_jobs d1), runs + length run_ids))"

definition PURGE_BATCH_SIZE :: nat where
  "PURGE_BATCH_SIZE = 500"

definition delete_jobs_with_history :: "ident list \<Rightarrow> db \<Rightarrow> db \<times> nat \<times> nat" where
  "delete_jobs_with_history job_ids d = fold purge_chunk (chunks PURGE_BATCH_SIZE job_ids) (d, 0, 0)"

section \<open>Storing a simulation\<close>

text \<open>\<open>storeSimulateRun\<close>: a job and its one finished run, written as they are.\<close>

record simulate_input =
  sim_workflow_name :: string
  sim_workflow_doc :: jsval
  sim_params :: jsval
  sim_created_by :: "string option"
  sim_success :: bool
  sim_result :: "jsval option"
  sim_error :: "string option"

definition store_simulate_run ::
    "ident \<Rightarrow> ident \<Rightarrow> millis \<Rightarrow> simulate_input \<Rightarrow> db \<Rightarrow> db_error + db" where
  "store_simulate_run job_id run_id now inp d =
     (let job = \<lparr>j_id = job_id, j_kind = JkWorkflow, j_script_id = None,
            j_workflow_name = Some (sim_workflow_name inp), j_workflow_doc = Some (sim_workflow_doc inp),
            j_device_id = [], j_params = Some (sim_params inp), j_batch_id = None, j_batch_seq = None,
            j_schedule_id = None, j_parent_workflow_job_id = None, j_step_seq = None,
            j_script_name = Some (sim_workflow_name inp), j_script_version = None,
            j_triggered_by_job_id = None, j_root_job_id = None, j_depth = 0, j_trigger_key = None,
            j_created_by = sim_created_by inp, j_created_at = to_sec now,
            j_latest_run_id = Some run_id, j_run_count = 1\<rparr>;
          run = \<lparr>r_id = run_id, r_job_id = job_id, r_seq = 1, r_trigger = TrSimulate,
            r_status = (if sim_success inp then RSuccess else RFailed), r_device_id = [],
            r_script_name = Some (sim_workflow_name inp), r_priority = 0, r_created_at = to_sec now,
            r_started_at = Some (to_sec now), r_finished_at = Some (to_sec now),
            r_heartbeat_expires_at = None, r_expires_at = None, r_not_before = None,
            r_batch_repeat = None, r_batch_wave = None, r_held = False, r_paced_delay_ms = None,
            r_result = (if sim_success inp then sim_result inp else None), r_error = sim_error inp,
            r_failure_class = None, r_error_phase = None, r_infra_attempts = 0, r_seed = 0,
            r_peak_rss_bytes = None, r_max_concurrent = None, r_runtime_override = None,
            r_result_status = None, r_result_bytes = None, r_result_summary = None,
            r_result_issues = None, r_resumed_from_run_id = None, r_resumed_from_step = None\<rparr>
      in if job_id \<in> j_id ` set (t_jobs d) \<or> run_id \<in> r_id ` set (t_runs d)
           \<or> (\<exists>r \<in> set (t_runs d). r_job_id r = job_id \<and> r_seq r = 1)
         then Inl SQL_CONSTRAINT
         else Inr (d\<lparr>t_jobs := t_jobs d @ [job], t_runs := t_runs d @ [run]\<rparr>))"

section \<open>What a pass removes\<close>

lemma chunks_concat [simp]: "concat (chunks n xs) = xs"
  by (induction n xs rule: chunks.induct) (subst chunks.simps, auto)

lemma delete_runs_t_runs: "t_runs (fst (delete_runs ids d)) = filter (\<lambda>r. r_id r \<notin> set ids) (t_runs d)"
proof -
  have "t_runs (fold recompute_job ks e) = t_runs e" for ks e
    by (induction ks arbitrary: e) (simp_all add: recompute_job_def Let_def)
  then show ?thesis by (simp add: delete_runs_def Let_def)
qed

lemma delete_jobs_t_runs [simp]: "t_runs (delete_jobs ids d) = t_runs d"
  by (simp add: delete_jobs_def)

lemma drop_if_empty_runs: "t_runs (fst (fold drop_if_empty is (d, n))) = t_runs d"
  by (induction "is" arbitrary: d n) (simp_all add: drop_if_empty_def split: option.splits)

lemma sweep_chunk_runs: "t_runs (fst (sweep_chunk ids s)) = filter (\<lambda>r. r_id r \<notin> set ids) (t_runs (fst s))"
proof -
  obtain d runs jobs where s: "s = (d, runs, jobs)" by (cases s) auto
  obtain d1 n touched where d1: "delete_runs ids d = (d1, n, touched)" by (cases "delete_runs ids d") auto
  obtain d2 jobs' where d2: "fold drop_if_empty touched (d1, jobs) = (d2, jobs')"
    by (cases "fold drop_if_empty touched (d1, jobs)") auto
  have "t_runs d2 = t_runs d1" using drop_if_empty_runs [of touched d1 jobs] d2 by simp
  also have "\<dots> = filter (\<lambda>r. r_id r \<notin> set ids) (t_runs d)"
    using delete_runs_t_runs [of ids d] d1 by simp
  finally show ?thesis by (simp add: sweep_chunk_def s d1 d2)
qed

lemma sweep_chunks_runs:
  "t_runs (fst (fold sweep_chunk bs s)) = filter (\<lambda>r. r_id r \<notin> set (concat bs)) (t_runs (fst s))"
proof (induction bs arbitrary: s)
  case (Cons b bs)
  show ?case by (simp add: Cons.IH sweep_chunk_runs conj_commute)
qed simp

text \<open>A pass removes exactly the candidates it computed at its start, whatever the chunk size.\<close>

lemma sweep_once_runs:
  "t_runs (fst (sweep_once now rd sd chunk d)) =
     filter (\<lambda>r. r_id r \<notin> set (candidate_run_ids now rd d) \<union> set (candidate_simulate_run_ids now sd d)) (t_runs d)"
  by (simp add: sweep_once_def sweep_chunks_runs)

lemma sweep_once_spares:
  assumes "tables_wf d" "r \<in> set (t_runs d)" "r_trigger r \<noteq> TrSimulate"
    and "\<not> terminal_status (r_status r) \<or> finished_at r \<ge> cutoff_sec now rd
      \<or> job_by_id d (r_job_id r) = Some j \<and> j_latest_run_id j = Some (r_id r)
      \<or> r_id r \<in> set (latest_workflow_run_ids d)"
  shows "r \<in> set (t_runs (fst (sweep_once now rd sd chunk d)))"
proof -
  have inj: "r' = r" if "r' \<in> set (t_runs d)" "r_id r' = r_id r" for r'
    using tables_wf_runs_inj [OF assms(1) that(1) assms(2) that(2)] .
  have "r_id r \<notin> set (candidate_run_ids now rd d)"
  proof
    assume "r_id r \<in> set (candidate_run_ids now rd d)"
    then obtain x k where x: "x \<in> set (t_runs d)" "r_id x = r_id r" "old_run (cutoff_sec now rd) x"
      "joined_job d x = Some k" "not_latest k x" "r_id r \<notin> set (latest_workflow_run_ids d)"
      by (auto simp: candidate_run_ids_def split: option.splits)
    then have "x = r" using inj by blast
    then show False using x assms(4) by (auto simp: old_run_def joined_job_def not_latest_def)
  qed
  moreover have "r_id r \<notin> set (candidate_simulate_run_ids now sd d)"
    using assms(3) inj by (fastforce simp: candidate_simulate_run_ids_def)
  ultimately show ?thesis using assms(2) by (simp add: sweep_once_runs)
qed

end
