(* ===== verification/QueueMachine.thy ===== *)
theory QueueMachine
  imports JobStore RunSweeper "HOL-Library.Sublist"
begin

text \<open>
  The database as the queue sees it: every operation that changes jobs, runs, devices or batches
  is one step (each is a synchronous transaction in the code), in any order. The invariants that
  survive every interleaving: keys stay unique, the denormalised columns of a job stay true of its runs, a device
  is never shared by runs that are not a workflow and its step, a batch never exceeds its
  concurrency.
\<close>

section \<open>The step relation\<close>

definition batch_ids :: "db \<Rightarrow> ident list" where
  "batch_ids d = map b_id (t_batches d)"

inductive queue_step :: "db \<Rightarrow> db \<Rightarrow> bool" where
  create: "create_job i now inp d = Inr (d', j) \<Longrightarrow>
     ci_parent_workflow_job_id inp \<noteq> Some i \<Longrightarrow> queue_step d d'"
| add: "add_run i seed now jid inp d = Inr (d', r) \<Longrightarrow> queue_step d d'"
| claim: "queue_step d (fst (claim_next nowS ttl exclude d))"
| settle: "queue_step d (fst (settle_run now i inp d))"
| cancel: "queue_step d (fst (cancel_queued_run now i d))"
| expire: "queue_step d (fst (expire_queued nowS d))"
| heartbeat: "queue_step d (fst (renew_heartbeat nowS i ttl d))"
| orphans: "queue_step d (fst (fail_orphan_running now d))"
| rebind: "queue_step d (fst (requeue_for_rebind i dev d))"
| delete: "queue_step d (fst (delete_runs ids d))"
| drop_job: "queue_step d (fst (drop_if_empty i (d, n)))"
| purge: "queue_step d (fst (purge_chunk ids (d, m, n)))"
| simulate: "store_simulate_run i k now inp d = Inr d' \<Longrightarrow> queue_step d d'"
| devices: "queue_step d (d\<lparr>t_devices := ds\<rparr>)"
| batch_new: "b_id b \<notin> set (batch_ids d) \<Longrightarrow> queue_step d (d\<lparr>t_batches := t_batches d @ [b]\<rparr>)"
| batch_status: "(\<And>b. b_id (f b) = b_id b) \<Longrightarrow> (\<And>b. b_concurrency (f b) = b_concurrency b) \<Longrightarrow>
     queue_step d (update_batches P f d)"

definition empty_db :: db where
  "empty_db = \<lparr>t_jobs = [], t_runs = [], t_devices = [], t_batches = []\<rparr>"

inductive queue_reachable :: "db \<Rightarrow> bool" where
  start: "queue_reachable empty_db"
| step: "queue_reachable d \<Longrightarrow> queue_step d d' \<Longrightarrow> queue_reachable d'"

section \<open>The running runs\<close>

text \<open>Identity, job and device of the runs that are running, in table order.\<close>

type_synonym core = "ident \<times> ident \<times> ident"

definition core_of :: "run_row \<Rightarrow> core" where
  "core_of r = (r_id r, r_job_id r, r_device_id r)"

definition run_core :: "run_row list \<Rightarrow> core list" where
  "run_core rs = map core_of (filter running rs)"

lemma run_core_simps [simp]:
  "run_core [] = []"
  "run_core (r # rs) = (if running r then [core_of r] else []) @ run_core rs"
  "run_core (rs @ ss) = run_core rs @ run_core ss"
  by (simp_all add: run_core_def)

text \<open>An update that makes nothing run: what runs afterwards ran before, under the same identity.\<close>

definition calm :: "(run_row \<Rightarrow> bool) \<Rightarrow> (run_row \<Rightarrow> run_row) \<Rightarrow> bool" where
  "calm P f \<longleftrightarrow> (\<forall>r. P r \<longrightarrow> running (f r) \<longrightarrow> running r \<and> core_of (f r) = core_of r)"

lemma run_core_update: "calm P f \<Longrightarrow> subseq (run_core (update_where P f rs)) (run_core rs)"
  by (induction rs) (auto simp: calm_def)

lemma run_core_filter: "subseq (run_core (filter P rs)) (run_core rs)"
  unfolding run_core_def by (intro subseq_map) (simp add: filter_filter conj_commute flip: filter_filter)

text \<open>A claim inserts one core.\<close>

lemma run_core_claim:
  assumes "distinct (map r_id rs)" "r \<in> set rs" "queued r" "core_of (f r) = core_of r" "running (f r)"
  shows "\<exists>xs ys. run_core rs = xs @ ys
    \<and> run_core (update_where (\<lambda>x. r_id x = r_id r) f rs) = xs @ core_of r # ys"
proof -
  obtain as bs where rs: "rs = as @ r # bs" using assms(2) by (meson split_list)
  have "update_where (\<lambda>x. r_id x = r_id r) f as = as" "update_where (\<lambda>x. r_id x = r_id r) f bs = bs"
    using assms(1) by (auto simp: rs intro!: update_where_none) (metis image_eqI)+
  moreover have "update_where (\<lambda>x. r_id x = r_id r) f rs
      = update_where (\<lambda>x. r_id x = r_id r) f as @ f r # update_where (\<lambda>x. r_id x = r_id r) f bs"
    by (simp add: rs update_where_def)
  ultimately have "run_core (update_where (\<lambda>x. r_id x = r_id r) f rs) = run_core as @ core_of r # run_core bs"
    using assms(4,5) by simp
  moreover have "run_core rs = run_core as @ run_core bs" using assms(3) by (simp add: rs)
  ultimately show ?thesis by blast
qed

section \<open>The invariant\<close>

text \<open>The job fields the gates read, which no operation changes.\<close>

definition parent_of :: "db \<Rightarrow> ident \<Rightarrow> ident option" where
  "parent_of d i = Option.bind (job_by_id d i) j_parent_workflow_job_id"

definition batch_of :: "db \<Rightarrow> ident \<Rightarrow> ident option" where
  "batch_of d i = Option.bind (job_by_id d i) j_batch_id"

definition on_device :: "ident \<Rightarrow> core list \<Rightarrow> core list" where
  "on_device dev cs = filter (\<lambda>c. snd (snd c) = dev) cs"

text \<open>At most two cores on a device, and two only as a workflow's run and one of its steps.\<close>

definition nested :: "db \<Rightarrow> core list \<Rightarrow> bool" where
  "nested d cs \<longleftrightarrow> (case cs of [] \<Rightarrow> True | [a] \<Rightarrow> True
     | [a, b] \<Rightarrow> parent_of d (fst (snd a)) = Some (fst (snd b)) \<or> parent_of d (fst (snd b)) = Some (fst (snd a))
     | _ \<Rightarrow> False)"

definition devices_exclusive :: "db \<Rightarrow> bool" where
  "devices_exclusive d \<longleftrightarrow> (\<forall>dev. nested d (on_device dev (run_core (t_runs d))))"

definition batches_bounded :: "db \<Rightarrow> bool" where
  "batches_bounded d \<longleftrightarrow> (\<forall>b. case batch_by_id d b of
       None \<Rightarrow> running_in_batch d b = 0
     | Some row \<Rightarrow> b_concurrency row = 0 \<or> int (running_in_batch d b) \<le> max (b_concurrency row) 0)"

definition runs_have_jobs :: "db \<Rightarrow> bool" where
  "runs_have_jobs d \<longleftrightarrow> (\<forall>r \<in> set (t_runs d). job_by_id d (r_job_id r) \<noteq> None)"

definition no_self_parent :: "db \<Rightarrow> bool" where
  "no_self_parent d \<longleftrightarrow> (\<forall>i. parent_of d i \<noteq> Some i)"

definition queue_inv :: "db \<Rightarrow> bool" where
  "queue_inv d \<longleftrightarrow> tables_wf d \<and> columns_valid d \<and> runs_have_jobs d \<and> no_self_parent d
     \<and> devices_exclusive d \<and> batches_bounded d"

lemma running_in_batch_core:
  "running_in_batch d b = length (filter (\<lambda>c. batch_of d (fst (snd c)) = Some b) (run_core (t_runs d)))"
proof -
  have "running_in_batch d b = length (filter (\<lambda>r. batch_of d (r_job_id r) = Some b) (filter running (t_runs d)))"
    unfolding running_in_batch_def filter_filter
    by (intro arg_cong [where f = length] filter_cong) (auto simp: batch_of_def split: option.splits)
  then show ?thesis by (simp add: run_core_def filter_map o_def core_of_def)
qed

lemma nested_le_2: "nested d cs \<Longrightarrow> length cs \<le> 2"
  by (auto simp: nested_def split: list.splits)

lemma nested_pair:
  assumes "nested d cs" "a \<in> set cs" "b \<in> set cs" "a \<noteq> b"
  shows "parent_of d (fst (snd a)) = Some (fst (snd b)) \<or> parent_of d (fst (snd b)) = Some (fst (snd a))"
  using assms by (auto simp: nested_def split: list.splits)

lemma nested_subseq: "nested d cs \<Longrightarrow> subseq cs' cs \<Longrightarrow> nested d cs'"
proof -
  assume a: "nested d cs" "subseq cs' cs"
  have two: "length cs \<le> 2" using a(1) by (rule nested_le_2)
  show ?thesis
  proof (cases "length cs' = length cs")
    case True
    then have "cs' = cs" using a(2) by (simp add: subseq_same_length)
    then show ?thesis using a(1) by simp
  next
    case False
    then have "length cs' \<le> 1" using two list_emb_length [OF a(2)] by simp
    then have "cs' = [] \<or> (\<exists>c. cs' = [c])" by (cases cs') auto
    then show ?thesis by (auto simp: nested_def)
  qed
qed

section \<open>Frames\<close>

lemma nested_cong:
  "(\<And>c. c \<in> set cs \<Longrightarrow> parent_of d' (fst (snd c)) = parent_of d (fst (snd c))) \<Longrightarrow> nested d' cs = nested d cs"
  by (auto simp: nested_def split: list.splits)

lemma subseq_set_mono: "subseq xs ys \<Longrightarrow> set xs \<subseteq> set ys"
  by (induction rule: list_emb.induct) auto

lemma core_has_job: "c \<in> set (run_core (t_runs d)) \<Longrightarrow> fst (snd c) \<in> r_job_id ` set (t_runs d)"
  by (auto simp: run_core_def core_of_def)

definition gates_kept :: "db \<Rightarrow> db \<Rightarrow> bool" where
  "gates_kept d d' \<longleftrightarrow> (\<forall>i \<in> r_job_id ` set (t_runs d). parent_of d' i = parent_of d i \<and> batch_of d' i = batch_of d i)
     \<and> (\<forall>b row. batch_by_id d b = Some row \<longrightarrow>
           (\<exists>row'. batch_by_id d' b = Some row' \<and> b_concurrency row' = b_concurrency row))"

lemma gates_kept_core:
  assumes "gates_kept d d'" "c \<in> set (run_core (t_runs d))"
  shows "parent_of d' (fst (snd c)) = parent_of d (fst (snd c))" "batch_of d' (fst (snd c)) = batch_of d (fst (snd c))"
  using assms(1) core_has_job [OF assms(2)] unfolding gates_kept_def by blast+

lemma running_in_batch_le:
  assumes "gates_kept d d'" "subseq (run_core (t_runs d')) (run_core (t_runs d))"
  shows "running_in_batch d' b \<le> running_in_batch d b"
proof -
  have "set (run_core (t_runs d')) \<subseteq> set (run_core (t_runs d))"
    using assms(2) by (rule subseq_set_mono)
  then have "filter (\<lambda>c. batch_of d' (fst (snd c)) = Some b) (run_core (t_runs d'))
      = filter (\<lambda>c. batch_of d (fst (snd c)) = Some b) (run_core (t_runs d'))"
    using gates_kept_core(2) [OF assms(1)] by (intro filter_cong) auto
  moreover have "subseq (filter (\<lambda>c. batch_of d (fst (snd c)) = Some b) (run_core (t_runs d')))
      (filter (\<lambda>c. batch_of d (fst (snd c)) = Some b) (run_core (t_runs d)))"
    using assms(2) by (rule subseq_filter)
  ultimately show ?thesis by (simp add: running_in_batch_core list_emb_length)
qed

lemma bounded_mono:
  assumes "batches_bounded d" "gates_kept d d'" "\<And>b. running_in_batch d' b \<le> running_in_batch d b"
    and "\<And>b. batch_by_id d b = None \<Longrightarrow> batch_by_id d' b = None \<or> running_in_batch d' b = 0"
  shows "batches_bounded d'"
  unfolding batches_bounded_def
proof
  fix b
  show "case batch_by_id d' b of None \<Rightarrow> running_in_batch d' b = 0
     | Some row \<Rightarrow> b_concurrency row = 0 \<or> int (running_in_batch d' b) \<le> max (b_concurrency row) 0"
  proof (cases "batch_by_id d b")
    case None
    then have "running_in_batch d' b = 0"
      using assms(1) assms(3) [of b] by (auto simp: batches_bounded_def dest: spec [of _ b])
    then show ?thesis by (auto split: option.splits)
  next
    case (Some row)
    then obtain row' :: batch_row where row': "batch_by_id d' b = Some row'" "b_concurrency row' = b_concurrency row"
      using assms(2) unfolding gates_kept_def by blast
    have "b_concurrency row = 0 \<or> int (running_in_batch d b) \<le> max (b_concurrency row) 0"
      using assms(1) Some by (auto simp: batches_bounded_def dest: spec [of _ b])
    then show ?thesis using row' assms(3) [of b] by (auto simp: le_max_iff_disj)
  qed
qed

lemma gates_frame:
  assumes "devices_exclusive d" "batches_bounded d"
    and kept: "gates_kept d d'" and sub: "subseq (run_core (t_runs d')) (run_core (t_runs d))"
  shows "devices_exclusive d'" "batches_bounded d'"
proof -
  have sset: "set (run_core (t_runs d')) \<subseteq> set (run_core (t_runs d))"
    using sub by (rule subseq_set_mono)
  show "devices_exclusive d'"
    unfolding devices_exclusive_def
  proof
    fix dev
    have "nested d (on_device dev (run_core (t_runs d')))"
      using assms(1) by (auto simp: devices_exclusive_def on_device_def intro: nested_subseq subseq_filter sub)
    moreover have "nested d' (on_device dev (run_core (t_runs d'))) = nested d (on_device dev (run_core (t_runs d')))"
      using gates_kept_core(1) [OF kept] sset by (intro nested_cong) (auto simp: on_device_def)
    ultimately show "nested d' (on_device dev (run_core (t_runs d')))" by simp
  qed
  show "batches_bounded d'"
    using assms(2) kept running_in_batch_le [OF kept sub]
  proof (rule bounded_mono)
    fix b assume "batch_by_id d b = None"
    then have "running_in_batch d b = 0"
      using assms(2) by (auto simp: batches_bounded_def dest: spec [of _ b])
    then show "batch_by_id d' b = None \<or> running_in_batch d' b = 0"
      using running_in_batch_le [OF kept sub, of b] by simp
  qed
qed

lemma runs_have_jobs_frame:
  assumes "runs_have_jobs d" "r_job_id ` set (t_runs d') \<subseteq> r_job_id ` set (t_runs d)"
    and "\<And>i. job_by_id d i \<noteq> None \<Longrightarrow> job_by_id d' i \<noteq> None"
  shows "runs_have_jobs d'"
  unfolding runs_have_jobs_def
proof
  fix r assume "r \<in> set (t_runs d')"
  then obtain r0 where "r0 \<in> set (t_runs d)" "r_job_id r = r_job_id r0" using assms(2) by blast
  then show "job_by_id d' (r_job_id r) \<noteq> None" using assms(1,3) by (simp add: runs_have_jobs_def)
qed

section \<open>Preservation by the updates of existing rows\<close>

definition keeps_run :: "(run_row \<Rightarrow> run_row) \<Rightarrow> bool" where
  "keeps_run f \<longleftrightarrow> (\<forall>r. r_id (f r) = r_id r \<and> r_job_id (f r) = r_job_id r \<and> r_seq (f r) = r_seq r)"

lemma parent_update_runs [simp]: "parent_of (update_runs P f d) i = parent_of d i"
  by (simp add: parent_of_def)

lemma batch_of_update_runs [simp]: "batch_of (update_runs P f d) i = batch_of d i"
  by (simp add: batch_of_def)

lemma batch_by_id_update_runs [simp]: "batch_by_id (update_runs P f d) i = batch_by_id d i"
  by (simp add: batch_by_id_def)

lemma update_runs_facts:
  assumes "tables_wf d" "columns_valid d" "runs_have_jobs d" "no_self_parent d" "keeps_run f"
  shows "tables_wf (update_runs P f d)" "columns_valid (update_runs P f d)"
    "runs_have_jobs (update_runs P f d)" "no_self_parent (update_runs P f d)"
    "gates_kept d (update_runs P f d)"
  using assms
  by (auto simp: keeps_run_def update_runs_wf valid.update_runs_columns no_self_parent_def gates_kept_def
      runs_have_jobs_def in_update_where split: if_splits)

lemma quiet_update:
  assumes "queue_inv d" "keeps_run f" "calm P f"
  shows "queue_inv (update_runs P f d)"
proof -
  have sub: "subseq (run_core (t_runs (update_runs P f d))) (run_core (t_runs d))"
    by (simp add: run_core_update [OF assms(3)])
  show ?thesis
    using assms(1,2) update_runs_facts [of d f P] gates_frame [OF _ _ _ sub] by (simp add: queue_inv_def)
qed

lemma update_jobs_facts:
  assumes "\<And>j. j_id (f j) = j_id j" "\<And>j. j_parent_workflow_job_id (f j) = j_parent_workflow_job_id j"
    "\<And>j. j_batch_id (f j) = j_batch_id j"
  shows "parent_of (update_jobs P f d) i = parent_of d i" "batch_of (update_jobs P f d) i = batch_of d i"
    "(job_by_id (update_jobs P f d) i = None) = (job_by_id d i = None)"
  using assms by (auto simp: parent_of_def batch_of_def job_by_id_update Option.bind_map_option o_def
      split: Option.bind_splits)

lemma quiet_job_update:
  assumes "queue_inv d"
    and f: "\<And>j. j_id (f j) = j_id j" "\<And>j. j_parent_workflow_job_id (f j) = j_parent_workflow_job_id j"
      "\<And>j. j_batch_id (f j) = j_batch_id j"
    and honest: "columns_valid (update_jobs P f d)"
  shows "queue_inv (update_jobs P f d)"
proof -
  have kept: "gates_kept d (update_jobs P f d)"
    by (simp add: gates_kept_def update_jobs_facts [OF f] batch_by_id_def)
  have "runs_have_jobs (update_jobs P f d)" "no_self_parent (update_jobs P f d)" "tables_wf (update_jobs P f d)"
    using assms(1) by (simp_all add: queue_inv_def runs_have_jobs_def no_self_parent_def update_jobs_facts [OF f]
        update_jobs_wf f(1) del: not_None_eq)
  then show ?thesis
    using assms(1) honest gates_frame [OF _ _ kept] by (simp add: queue_inv_def)
qed

section \<open>Preservation by each operation\<close>

lemma settle_inv: "queue_inv d \<Longrightarrow> queue_inv (fst (settle_run now i inp d))"
proof -
  assume inv: "queue_inv d"
  have "keeps_run (settle_patch now inp)" by (simp add: keeps_run_def)
  moreover have "calm (\<lambda>r. r_id r = i) (settle_patch now inp)"
    by (simp add: calm_def settle_run_status_def split: settle_status.splits)
  ultimately show ?thesis
    using inv by (auto simp: settle_run_def Let_def quiet_update split: option.splits)
qed

lemma cancel_inv: "queue_inv d \<Longrightarrow> queue_inv (fst (cancel_queued_run now i d))"
  by (auto simp: cancel_queued_run_def Let_def keeps_run_def calm_def intro!: quiet_update split: option.splits)

lemma expire_inv: "queue_inv d \<Longrightarrow> queue_inv (fst (expire_queued nowS d))"
  by (auto simp: expire_queued_def Let_def keeps_run_def calm_def intro!: quiet_update)

lemma heartbeat_inv: "queue_inv d \<Longrightarrow> queue_inv (fst (renew_heartbeat nowS i ttl d))"
  by (auto simp: renew_heartbeat_def Let_def keeps_run_def calm_def core_of_def intro!: quiet_update)

lemma orphans_inv: "queue_inv d \<Longrightarrow> queue_inv (fst (fail_orphan_running now d))"
  by (auto simp: fail_orphan_running_def keeps_run_def calm_def intro!: quiet_update)

lemma rebind_inv: "queue_inv d \<Longrightarrow> queue_inv (fst (requeue_for_rebind i dev d))"
proof -
  assume inv: "queue_inv d"
  let ?P = "\<lambda>r. r_id r = i \<and> running r"
  let ?f = "\<lambda>r. r\<lparr>r_status := RQueued, r_device_id := dev, r_heartbeat_expires_at := None,
      r_started_at := None, r_infra_attempts := r_infra_attempts r + 1\<rparr>"
  have one: "queue_inv (update_runs ?P ?f d)"
    using inv by (auto simp: keeps_run_def calm_def intro!: quiet_update)
  moreover have "queue_inv (update_jobs (\<lambda>j. j_id j = k) (\<lambda>j. j\<lparr>j_device_id := dev\<rparr>) (update_runs ?P ?f d))" for k
    by (rule quiet_job_update [OF one]) (use one in \<open>auto simp: queue_inv_def intro!: valid.update_jobs_columns\<close>)
  ultimately show ?thesis
    using inv by (auto simp: requeue_for_rebind_def Let_def split: option.splits)
qed

lemma find_append: "find P (xs @ [y]) = (case find P xs of Some x \<Rightarrow> Some x | None \<Rightarrow> if P y then Some y else None)"
  by (induction xs) auto

lemma create_inv:
  assumes inv: "queue_inv d" and c: "create_job i now inp d = Inr (d', j)"
    and fresh: "ci_parent_workflow_job_id inp \<noteq> Some i"
  shows "queue_inv d'"
proof -
  note f = create_job_Inr [OF c]
  have run: "runs_of d' k = runs_of d k" for k by (simp add: f(1) runs_of_def)
  have lookup: "job_by_id d' k = (if k = i then Some j else job_by_id d k)" for k
  proof -
    have "job_by_id d i = None"
      using f(3) by (auto simp: job_by_id_def find_None_all)
    then show ?thesis
      using f(2) by (auto simp: f(1) job_by_id_def find_append split: option.splits)
  qed
  have batch: "batch_by_id d' b = batch_by_id d b" for b by (simp add: f(1) batch_by_id_def)
  have none: "job_by_id d i = None" using f(3) by (auto simp: job_by_id_def find_None_all)
  have job_free: "r_job_id r \<noteq> i" if "r \<in> set (t_runs d)" for r
    using inv that none by (auto simp: queue_inv_def runs_have_jobs_def)
  have kept: "gates_kept d d'"
    using job_free batch by (auto simp: gates_kept_def parent_of_def batch_of_def lookup)
  have jobs: "t_jobs d' = t_jobs d @ [j]" by (simp add: f(1))
  from job_free have "runs_of d i = []" by (auto simp: runs_of_def filter_empty_conv)
  then have honest: "columns_valid d'"
    using inv f(2,4,5) jobs by (auto simp: queue_inv_def columns_def valid_columns_def run)
  have runs: "t_runs d' = t_runs d" by (simp add: f(1))
  then have "runs_have_jobs d'" using inv by (auto simp: queue_inv_def runs_have_jobs_def lookup)
  moreover have "no_self_parent d'"
    using inv fresh f(7) by (auto simp: queue_inv_def no_self_parent_def parent_of_def lookup)
  moreover have "subseq (run_core (t_runs d')) (run_core (t_runs d))" by (simp add: f(1))
  ultimately show ?thesis
    using inv honest create_job_wf [OF _ c] gates_frame [OF _ _ kept] by (simp add: queue_inv_def)
qed

text \<open>A stored simulation: a new job with one finished run.\<close>

lemma simulate_inv:
  assumes inv: "queue_inv d" and c: "store_simulate_run i k now inp d = Inr d'"
  shows "queue_inv d'"
proof -
  obtain j run where f: "t_jobs d' = t_jobs d @ [j]" "t_runs d' = t_runs d @ [run]" "t_batches d' = t_batches d"
    "j_id j = i" "j_parent_workflow_job_id j = None" "j_run_count j = 1" "j_latest_run_id j = Some k"
    "r_id run = k" "r_job_id run = i" "r_seq run = 1" "\<not> running run"
    and fresh: "i \<notin> j_id ` set (t_jobs d)" "k \<notin> r_id ` set (t_runs d)"
    using c by (auto simp: store_simulate_run_def Let_def split: if_splits)
  have none: "job_by_id d i = None" using fresh(1) by (auto simp: job_by_id_def find_None_all)
  have lookup: "job_by_id d' n = (if n = i then Some j else job_by_id d n)" for n
    using none f(4) by (auto simp: job_by_id_def f(1) find_append split: option.splits)
  have job_free: "r_job_id r \<noteq> i" if "r \<in> set (t_runs d)" for r
    using inv that none by (auto simp: queue_inv_def runs_have_jobs_def)
  have free: "runs_of d i = []" using job_free by (auto simp: runs_of_def filter_empty_conv)
  have run: "runs_of d' n = runs_of d n @ (if n = i then [run] else [])" for n
    using f(9) by (simp add: runs_of_def f(2))
  have batch: "batch_by_id d' b = batch_by_id d b" for b by (simp add: f(3) batch_by_id_def)
  have kept: "gates_kept d d'"
    using job_free batch by (auto simp: gates_kept_def parent_of_def batch_of_def lookup)
  have wf: "tables_wf d'"
    using inv f(4,8-10) fresh by (auto simp: queue_inv_def tables_wf_def f(1,2) dest: job_free)
  have old: "\<forall>x \<in> set (t_jobs d). j_id x \<noteq> i" using fresh(1) by auto
  have "columns_valid d'"
    using inv f(4,6-8) free old
    by (auto simp: queue_inv_def columns_def run f(1)) (auto simp: valid_columns_def)
  moreover have "runs_have_jobs d'"
    using inv f(9) by (auto simp: queue_inv_def runs_have_jobs_def lookup f(2))
  moreover have "no_self_parent d'"
    using inv f(5) by (auto simp: queue_inv_def no_self_parent_def parent_of_def lookup)
  moreover have "subseq (run_core (t_runs d')) (run_core (t_runs d))" using f(11) by (simp add: f(2))
  ultimately show ?thesis using inv wf gates_frame [OF _ _ kept] by (simp add: queue_inv_def)
qed

lemma add_inv:
  assumes inv: "queue_inv d" and a: "add_run i seed now jid inp d = Inr (d', row)"
  shows "queue_inv d'"
proof -
  from a obtain job :: job_row where f: "job_by_id d jid = Some job" "r_job_id row = jid" "queued row"
    "t_runs d' = t_runs d @ [row]" "t_batches d' = t_batches d"
    "t_jobs d' = update_where (\<lambda>j. j_id j = jid) (\<lambda>j. j\<lparr>j_latest_run_id := Some i, j_run_count := j_run_count job + 1\<rparr>) (t_jobs d)"
    by (elim add_run_Inr) (rule that; assumption)
  let ?g = "\<lambda>j. j\<lparr>j_latest_run_id := Some i, j_run_count := j_run_count job + 1\<rparr>"
  have lookup: "job_by_id d' k = job_by_id (update_jobs (\<lambda>j. j_id j = jid) ?g d) k" for k
    by (simp add: job_by_id_def f(6))
  have same: "parent_of d' k = parent_of d k" "batch_of d' k = batch_of d k"
      "(job_by_id d' k = None) = (job_by_id d k = None)" for k
    using update_jobs_facts [of ?g "\<lambda>j. j_id j = jid" d k] by (simp_all add: parent_of_def batch_of_def lookup del: not_None_eq)
  have kept: "gates_kept d d'"
    by (simp add: gates_kept_def same batch_by_id_def f(5))
  have "subseq (run_core (t_runs d')) (run_core (t_runs d))" using f(3) by (simp add: f(4))
  moreover have "runs_have_jobs d'"
    using inv f(1,2) by (auto simp: queue_inv_def runs_have_jobs_def same f(4) simp del: not_None_eq)
  moreover have "no_self_parent d'" using inv by (simp add: queue_inv_def no_self_parent_def same)
  ultimately show ?thesis
    using inv add_run_wf [OF _ a] add_run_valid [OF _ a] gates_frame [OF _ _ kept] by (simp add: queue_inv_def)
qed

lemma recompute_same:
  "parent_of (fold recompute_job ks d) i = parent_of d i \<and> batch_of (fold recompute_job ks d) i = batch_of d i
   \<and> (job_by_id (fold recompute_job ks d) i = None) = (job_by_id d i = None)
   \<and> t_runs (fold recompute_job ks d) = t_runs d \<and> t_batches (fold recompute_job ks d) = t_batches d"
proof (induction ks arbitrary: d)
  case (Cons k ks)
  show ?case
    using Cons.IH [of "recompute_job k d"] by (simp add: recompute_job_def Let_def update_jobs_facts del: not_None_eq)
qed simp

lemma delete_inv:
  assumes inv: "queue_inv d"
  shows "queue_inv (fst (delete_runs ids d))"
proof (cases "ids = []")
  case True
  then show ?thesis using inv by (simp add: delete_runs_def)
next
  case False
  let ?d = "d\<lparr>t_runs := filter (\<lambda>r. r_id r \<notin> set ids) (t_runs d)\<rparr>"
  obtain ks where d': "fst (delete_runs ids d) = fold recompute_job ks ?d"
    using False by (auto simp: delete_runs_def Let_def)
  have cut: "parent_of ?d i = parent_of d i" "batch_of ?d i = batch_of d i" "job_by_id ?d i = job_by_id d i" for i
    by (simp_all add: parent_of_def batch_of_def job_by_id_def)
  note same = recompute_same [of ks ?d]
  have kept: "gates_kept d (fst (delete_runs ids d))"
    by (simp add: gates_kept_def d' same cut batch_by_id_def)
  have "subseq (run_core (t_runs (fst (delete_runs ids d)))) (run_core (t_runs d))"
    by (simp add: d' same run_core_filter)
  moreover have "runs_have_jobs (fst (delete_runs ids d))"
    using inv by (auto simp: d' queue_inv_def runs_have_jobs_def same cut simp del: not_None_eq)
  moreover have "no_self_parent (fst (delete_runs ids d))"
    using inv by (simp add: d' queue_inv_def no_self_parent_def same cut)
  ultimately show ?thesis
    using inv delete_runs_wf [of d ids] valid.delete_runs_columns [of d ids] gates_frame [OF _ _ kept]
    by (simp add: queue_inv_def)
qed

text \<open>A claim: the device gate and the batch gate are what keeps the two bounds.\<close>

lemma nested_insert:
  assumes "nested d (xs @ ys)" "no_self_parent d"
    and "\<And>c. c \<in> set (xs @ ys) \<Longrightarrow> parent_of d (fst (snd a)) = Some (fst (snd c))"
  shows "nested d (xs @ a # ys)"
proof -
  have "length (xs @ ys) \<le> 1"
  proof (rule ccontr)
    assume "\<not> length (xs @ ys) \<le> 1"
    moreover have "length (xs @ ys) \<le> 2" using assms(1) by (rule nested_le_2)
    ultimately have "length (xs @ ys) = Suc (Suc 0)" by linarith
    then obtain b c where bc: "xs @ ys = [b, c]" by (auto simp: length_Suc_conv simp del: length_append)
    then have "parent_of d (fst (snd a)) = Some (fst (snd b))" "parent_of d (fst (snd a)) = Some (fst (snd c))"
      using assms(3) by (metis list.set_intros(1) list.set_intros(2))+
    then show False using assms(1,2) by (auto simp: nested_def bc no_self_parent_def)
  qed
  then consider "xs = []" "ys = []" | c where "xs = [c]" "ys = []" | c where "xs = []" "ys = [c]"
    by (cases xs; cases ys) auto
  then show ?thesis using assms(3) by cases (auto simp: nested_def)
qed

lemma device_free_core:
  assumes "device_free d j r" "c \<in> set (run_core (t_runs d))" "snd (snd c) = r_device_id r"
  shows "j_parent_workflow_job_id j = Some (fst (snd c))"
  using assms by (auto simp: device_free_def run_core_def core_of_def list_ex_iff split: option.splits)

lemma claim_inv:
  assumes inv: "queue_inv d"
  shows "queue_inv (fst (claim_next nowS ttl exclude d))"
proof (cases "claim_candidate nowS exclude d")
  case None
  then show ?thesis using inv by (simp add: claim_next_def)
next
  case (Some r)
  define d' where "d' = update_runs (\<lambda>x. r_id x = r_id r) (mark_claimed nowS ttl) d"
  have fst: "fst (claim_next nowS ttl exclude d) = d'"
    using Some by (simp add: claim_next_def Let_def d'_def)
  have r: "r \<in> set (t_runs d)" "claimable nowS exclude d r" using claim_candidate_Some [OF Some] by auto
  obtain j where j: "job_by_id d (r_job_id r) = Some j" "device_free d j r" "batch_gate d j"
    using claimable_facts(7) [OF r(2)] by auto
  obtain xs ys where core: "run_core (t_runs d) = xs @ ys" "run_core (t_runs d') = xs @ core_of r # ys"
    using run_core_claim [of "t_runs d" r "mark_claimed nowS ttl"] inv r claimable_facts(1) [OF r(2)]
    by (auto simp: d'_def queue_inv_def tables_wf_def core_of_def)
  note facts = update_runs_facts [of d "mark_claimed nowS ttl" "\<lambda>x. r_id x = r_id r", folded d'_def]
  have keeps: "keeps_run (mark_claimed nowS ttl)" by (simp add: keeps_run_def)
  have parent: "parent_of d' i = parent_of d i" and batch: "batch_of d' i = batch_of d i" for i
    by (simp_all add: d'_def)
  have batch_row: "batch_by_id d' b = batch_by_id d b" for b by (simp add: d'_def)
  have "nested d (on_device dev (xs @ core_of r # ys))" for dev
  proof (cases "dev = r_device_id r")
    case True
    have "nested d (on_device dev xs @ core_of r # on_device dev ys)"
    proof (rule nested_insert)
      show "nested d (on_device dev xs @ on_device dev ys)"
        using inv by (auto simp: queue_inv_def devices_exclusive_def core on_device_def)
      show "no_self_parent d" using inv by (simp add: queue_inv_def)
      fix c assume "c \<in> set (on_device dev xs @ on_device dev ys)"
      then have "c \<in> set (run_core (t_runs d))" "snd (snd c) = r_device_id r"
        using True by (auto simp: core on_device_def)
      then show "parent_of d (fst (snd (core_of r))) = Some (fst (snd c))"
        using device_free_core [OF j(2)] j(1) by (simp add: parent_of_def core_of_def)
    qed
    then show ?thesis using True by (simp add: on_device_def core_of_def)
  next
    case False
    then have "on_device dev (xs @ core_of r # ys) = on_device dev (xs @ ys)"
      by (simp add: on_device_def core_of_def)
    then show ?thesis using inv by (auto simp: queue_inv_def devices_exclusive_def core)
  qed
  then have "devices_exclusive d'"
    by (simp add: devices_exclusive_def core nested_cong [OF parent])
  moreover have "batches_bounded d'"
    unfolding batches_bounded_def
  proof
    fix b
    have count: "running_in_batch d' b = running_in_batch d b + (if j_batch_id j = Some b then 1 else 0)"
      using j(1) by (simp add: running_in_batch_core core batch) (simp add: batch_of_def core_of_def)
    have "case batch_by_id d b of None \<Rightarrow> running_in_batch d b = 0
       | Some row \<Rightarrow> b_concurrency row = 0 \<or> int (running_in_batch d b) \<le> max (b_concurrency row) 0"
      using inv by (simp add: queue_inv_def batches_bounded_def)
    then show "case batch_by_id d' b of None \<Rightarrow> running_in_batch d' b = 0
       | Some row \<Rightarrow> b_concurrency row = 0 \<or> int (running_in_batch d' b) \<le> max (b_concurrency row) 0"
      using j(3) by (auto simp: count batch_gate_def batch_row split: option.splits)
  qed
  ultimately show ?thesis
    using inv facts(1-4) keeps by (simp add: fst queue_inv_def)
qed

text \<open>Removing jobs together with all their runs.\<close>

lemma remove_jobs_inv:
  assumes inv: "queue_inv d"
    and jobs: "t_jobs d' = filter (\<lambda>j. j_id j \<notin> X) (t_jobs d)"
    and runs: "t_runs d' = filter (\<lambda>r. r_job_id r \<notin> X) (t_runs d)"
    and bats: "t_batches d' = t_batches d"
  shows "queue_inv d'"
proof -
  have lookup: "job_by_id d' i = (if i \<in> X then None else job_by_id d i)" for i
  proof -
    have "find (\<lambda>j. j_id j = i) (filter (\<lambda>j. j_id j \<notin> X) js) =
        (if i \<in> X then None else find (\<lambda>j. j_id j = i) js)" for js :: "job_row list"
      by (induction js) auto
    then show ?thesis by (simp add: job_by_id_def jobs)
  qed
  have kept_runs: "runs_of d' i = (if i \<in> X then [] else runs_of d i)" for i
    by (auto simp: runs_of_def runs filter_empty_conv intro!: filter_cong)
  have sub: "subseq (run_core (t_runs d')) (run_core (t_runs d))" by (simp add: runs run_core_filter)
  have have_jobs: "runs_have_jobs d'" using inv by (auto simp: queue_inv_def runs_have_jobs_def runs lookup)
  have wf: "tables_wf d'" using inv by (auto simp: queue_inv_def tables_wf_def jobs runs distinct_map_filter_keys)
  have cols: "columns_valid d'" using inv by (auto simp: queue_inv_def columns_def jobs kept_runs)
  have nsp: "no_self_parent d'" using inv by (auto simp: queue_inv_def no_self_parent_def parent_of_def lookup)
  define e where "e = d\<lparr>t_runs := t_runs d'\<rparr>"
  have e_jobs: "job_by_id e i = job_by_id d i" "t_runs e = t_runs d'" "t_batches e = t_batches d" for i
    by (simp_all add: job_by_id_def e_def)
  have "gates_kept d e" by (simp add: gates_kept_def parent_of_def batch_of_def e_jobs batch_by_id_def)
  then have e: "devices_exclusive e" "batches_bounded e"
    using gates_frame [of d e] inv sub by (simp_all add: queue_inv_def e_jobs)
  have "gates_kept e d'"
    by (auto simp: gates_kept_def parent_of_def batch_of_def e_jobs lookup batch_by_id_def bats runs)
  then have "devices_exclusive d'" "batches_bounded d'" using gates_frame [of e d'] e by (simp_all add: e_jobs)
  then show ?thesis using wf cols have_jobs nsp by (simp add: queue_inv_def)
qed

lemma drop_job_inv: "queue_inv d \<Longrightarrow> queue_inv (fst (drop_if_empty i (d, n)))"
proof -
  assume inv: "queue_inv d"
  have "queue_inv (delete_jobs [i] d)" if "job_by_id d i = Some j" "unowned_empty j" for j
  proof (rule remove_jobs_inv [OF inv, where X = "{i}"])
    have "j \<in> set (t_jobs d)" "j_id j = i" using that(1) by (auto dest: job_by_id_Some)
    then have "runs_of d i = []"
      using inv that(2) by (auto simp: queue_inv_def columns_def valid_columns_def unowned_empty_def)
    then show "t_runs (delete_jobs [i] d) = filter (\<lambda>r. r_job_id r \<notin> {i}) (t_runs d)"
      by (auto simp: runs_of_def filter_empty_conv filter_id_conv)
  qed (simp_all add: delete_jobs_def)
  then show ?thesis using inv by (simp add: drop_if_empty_def split: option.splits)
qed

lemma purge_inv: "queue_inv d \<Longrightarrow> queue_inv (fst (purge_chunk ids (d, m, n)))"
proof -
  assume inv: "queue_inv d"
  have "r_id r \<notin> r_id ` {x \<in> set (t_runs d). r_job_id x \<in> set ids} \<longleftrightarrow> r_job_id r \<notin> set ids"
    if "r \<in> set (t_runs d)" for r
    using inv that tables_wf_runs_inj [of d] by (auto simp: queue_inv_def)
  then have eq: "filter (\<lambda>r. r_id r \<notin> r_id ` {x \<in> set (t_runs d). r_job_id x \<in> set ids}) (t_runs d)
      = filter (\<lambda>r. r_job_id r \<notin> set ids) (t_runs d)"
    by (intro filter_cong) auto
  show ?thesis
  proof (rule remove_jobs_inv [OF inv, where X = "set ids"])
    show "t_runs (fst (purge_chunk ids (d, m, n))) = filter (\<lambda>r. r_job_id r \<notin> set ids) (t_runs d)"
      using eq by (auto simp: purge_chunk_def Let_def filter_empty_conv filter_id_conv)
  qed (simp_all add: purge_chunk_def Let_def delete_jobs_def)
qed

section \<open>Every reachable database\<close>

lemma other_tables_inv:
  assumes inv: "queue_inv d" and same: "t_jobs d' = t_jobs d" "t_runs d' = t_runs d"
    and kept: "\<And>b row. batch_by_id d b = Some row \<Longrightarrow>
      \<exists>row'. batch_by_id d' b = Some row' \<and> b_concurrency row' = b_concurrency row"
  shows "queue_inv d'"
proof -
  have jobs: "job_by_id d' i = job_by_id d i" for i by (simp add: job_by_id_def same)
  then have g: "gates_kept d d'"
    using kept by (auto simp: gates_kept_def parent_of_def batch_of_def)
  have "tables_wf d'" "columns_valid d'" "runs_have_jobs d'" "no_self_parent d'"
    using inv by (simp_all add: queue_inv_def tables_wf_def columns_def runs_of_def runs_have_jobs_def
        no_self_parent_def parent_of_def jobs same)
  then show ?thesis using inv gates_frame [OF _ _ g] by (simp add: queue_inv_def same)
qed

lemma queue_step_inv: "queue_step d d' \<Longrightarrow> queue_inv d \<Longrightarrow> queue_inv d'"
proof (induction rule: queue_step.induct)
  case (batch_new b d)
  show ?case by (intro other_tables_inv [OF batch_new(2)]) (simp_all add: batch_by_id_def find_append)
next
  case (batch_status f d P)
  show ?case
    using batch_status(2) by (intro other_tables_inv [OF batch_status(3)])
      (auto simp: batch_by_id_def find_update_where [where key = b_id, OF batch_status(1)])
next
  case (devices d ds)
  then show ?case by (rule other_tables_inv) (simp_all add: batch_by_id_def)
qed (auto intro: create_inv add_inv claim_inv settle_inv cancel_inv expire_inv heartbeat_inv
      orphans_inv rebind_inv delete_inv drop_job_inv purge_inv simulate_inv)

lemma empty_inv: "queue_inv empty_db"
  by (simp add: queue_inv_def empty_db_def tables_wf_def columns_def runs_have_jobs_def no_self_parent_def
      parent_of_def job_by_id_def devices_exclusive_def nested_def on_device_def batches_bounded_def
      batch_by_id_def running_in_batch_def)

lemma queue_reachable_inv: "queue_reachable d \<Longrightarrow> queue_inv d"
  by (induction rule: queue_reachable.induct) (auto intro: empty_inv queue_step_inv)

text \<open>The nightly pass is a sequence of such steps, so it keeps the invariant.\<close>

lemma drop_all_inv: "queue_inv d \<Longrightarrow> queue_inv (fst (fold drop_if_empty ks (d, n)))"
proof (induction ks arbitrary: d n)
  case (Cons k ks)
  obtain d' n' where s: "drop_if_empty k (d, n) = (d', n')" by (cases "drop_if_empty k (d, n)") auto
  then have "queue_inv d'" using drop_job_inv [OF Cons.prems, of k n] by simp
  then show ?case using Cons.IH s by simp
qed simp

lemma sweep_chunk_inv: "queue_inv (fst s) \<Longrightarrow> queue_inv (fst (sweep_chunk ids s))"
proof -
  assume inv: "queue_inv (fst s)"
  obtain d runs jobs where s: "s = (d, runs, jobs)" by (cases s) auto
  obtain d1 n touched where d1: "delete_runs ids d = (d1, n, touched)" by (cases "delete_runs ids d") auto
  obtain d2 jobs' where d2: "fold drop_if_empty touched (d1, jobs) = (d2, jobs')"
    by (cases "fold drop_if_empty touched (d1, jobs)") auto
  have "queue_inv d1" using delete_inv [of d ids] inv s d1 by simp
  then have "queue_inv d2" using drop_all_inv [of d1 touched jobs] d2 by simp
  then show ?thesis by (simp add: sweep_chunk_def s d1 d2)
qed

lemma sweep_once_inv: "queue_inv d \<Longrightarrow> queue_inv (fst (sweep_once now rd sd chunk d))"
proof -
  have "queue_inv (fst s) \<Longrightarrow> queue_inv (fst (fold sweep_chunk bs s))" for bs s
    by (induction bs arbitrary: s) (simp_all add: sweep_chunk_inv)
  then show "queue_inv d \<Longrightarrow> ?thesis" by (simp add: sweep_once_def)
qed

end
