(* ===== verification/QueueProperties.thy ===== *)
theory QueueProperties
  imports QueueMachine "HOL-Library.Multiset"
begin

text \<open>
  What the queue guarantees, stated over \<open>packages/core/src/queue/job-store.ts\<close>,
  \<open>jobs/runs/store.ts\<close> and \<open>jobs/runs/sweeper.ts\<close>: the invariants of every reachable database, the
  correctness of one claim, the paged list, the numbering of runs and what retention does to it.
\<close>

section \<open>A farm with one phone\<close>

text \<open>A concrete history: a workflow run is claimed on a phone, then a step of it on the same phone.\<close>

definition after :: "db_error + (db \<times> 'a) \<Rightarrow> db \<Rightarrow> db" where
  "after res d = (case res of Inl _ \<Rightarrow> d | Inr (d', _) \<Rightarrow> d')"

lemma after_create:
  "queue_reachable d \<Longrightarrow> ci_parent_workflow_job_id inp \<noteq> Some i \<Longrightarrow> queue_reachable (after (create_job i now inp d) d)"
  by (auto simp: after_def intro: queue_reachable.step queue_step.create split: sum.splits)

lemma after_add: "queue_reachable d \<Longrightarrow> queue_reachable (after (add_run i seed now jid inp d) d)"
  by (auto simp: after_def intro: queue_reachable.step queue_step.add split: sum.splits)

lemma after_claim: "queue_reachable d \<Longrightarrow> queue_reachable (fst (claim_next nowS ttl ex d))"
  by (blast intro: queue_reachable.step queue_step.claim)

definition demo_job :: "job_kind \<Rightarrow> ident option \<Rightarrow> ident option \<Rightarrow> create_job_input" where
  "demo_job k parent batch = \<lparr>ci_kind = k, ci_script_id = None, ci_workflow_name = None, ci_workflow_doc = None,
     ci_device_id = ''phone'', ci_params = None, ci_script_name = None, ci_script_version = None,
     ci_batch_id = batch, ci_batch_seq = None, ci_schedule_id = None, ci_parent_workflow_job_id = parent,
     ci_step_seq = None, ci_triggered_by_job_id = None, ci_root_job_id = None, ci_depth = None,
     ci_trigger_key = None, ci_created_by = None\<rparr>"

definition demo_run :: add_run_input where
  "demo_run = \<lparr>ai_trigger = TrManual, ai_priority = None, ai_expires_at = None, ai_not_before = None,
     ai_batch_repeat = None, ai_batch_wave = None, ai_held = None, ai_paced_delay_ms = None,
     ai_max_concurrent = None, ai_runtime_override = None, ai_resumed_from_run_id = None,
     ai_resumed_from_step = None, ai_seed = Some 7\<rparr>"

definition demo_batch :: batch_row where
  "demo_batch = \<lparr>b_id = ''b'', b_concurrency = 1, b_status = BQueued, b_repeat_count = 1, b_interval_min_ms = 0,
     b_interval_max_ms = 0, b_device_interval_ms = 0, b_device_delay_min_ms = 0, b_device_delay_max_ms = 0,
     b_wave_size = 0, b_sequential = False, b_finished_at = None\<rparr>"

definition demo_start :: db where
  "demo_start = (let d = empty_db\<lparr>t_devices := [\<lparr>dev_id = ''phone'', dev_serial = ''s1'', dev_status = Some Online\<rparr>]\<rparr>
     in d\<lparr>t_batches := t_batches d @ [demo_batch]\<rparr>)"

definition demo_add :: "ident \<Rightarrow> ident \<Rightarrow> job_kind \<Rightarrow> ident option \<Rightarrow> ident option \<Rightarrow> db \<Rightarrow> db" where
  "demo_add j r k parent batch d =
     (let d' = after (create_job j 1000 (demo_job k parent batch) d) d in after (add_run r 1 1000 j demo_run d') d')"

definition demo_claim :: "db \<Rightarrow> db" where
  "demo_claim d = fst (claim_next 5 30 [] d)"

definition demo_nested :: db where
  "demo_nested = demo_claim (demo_add ''step'' ''step-run'' JkScript (Some ''flow'') None
     (demo_claim (demo_add ''flow'' ''flow-run'' JkWorkflow None (Some ''b'') demo_start)))"

lemma demo_add_reachable: "queue_reachable d \<Longrightarrow> parent \<noteq> Some j \<Longrightarrow> queue_reachable (demo_add j r k parent batch d)"
  by (simp add: demo_add_def Let_def after_add after_create demo_job_def)

lemma demo_nested_reachable: "queue_reachable demo_nested"
proof -
  have "queue_reachable (empty_db\<lparr>t_devices := ds\<rparr>)" for ds
    by (rule queue_reachable.step [OF queue_reachable.start queue_step.devices])
  then have "queue_reachable demo_start"
    unfolding demo_start_def Let_def
    by (rule queue_reachable.step) (rule queue_step.batch_new, simp add: batch_ids_def empty_db_def)
  then show ?thesis
    unfolding demo_nested_def demo_claim_def by (intro after_claim demo_add_reachable) simp_all
qed

section \<open>Properties\<close>

lemma reachable_exclusive:
  assumes "queue_reachable d"
  shows "nested d (on_device dev (run_core (t_runs d)))"
  using queue_reachable_inv [OF assms] by (simp add: queue_inv_def devices_exclusive_def)

text \<open>
  C1: On every reachable database at most two runs are running on one device, and when two are, one
  of them belongs to the workflow job that is the parent of the other's job.
\<close>

theorem device_exclusion:
  assumes "queue_reachable d"
  shows "length (filter (\<lambda>r. running r \<and> r_device_id r = dev) (t_runs d)) \<le> 2 \<and>
    (\<forall>r \<in> set (t_runs d). \<forall>r' \<in> set (t_runs d). running r \<and> running r' \<and> r_id r \<noteq> r_id r'
       \<and> r_device_id r = dev \<and> r_device_id r' = dev \<longrightarrow>
       parent_of d (r_job_id r) = Some (r_job_id r') \<or> parent_of d (r_job_id r') = Some (r_job_id r))"
proof -
  have cores: "on_device dev (run_core (t_runs d)) = map core_of (filter (\<lambda>r. running r \<and> r_device_id r = dev) (t_runs d))"
    by (simp add: on_device_def run_core_def filter_map o_def core_of_def conj_commute)
  note n = reachable_exclusive [OF assms, of dev]
  have "length (filter (\<lambda>r. running r \<and> r_device_id r = dev) (t_runs d)) \<le> 2"
    using nested_le_2 [OF n] by (simp add: cores)
  moreover have "parent_of d (r_job_id r) = Some (r_job_id r') \<or> parent_of d (r_job_id r') = Some (r_job_id r)"
    if "r \<in> set (t_runs d)" "r' \<in> set (t_runs d)" "running r" "running r'" "r_id r \<noteq> r_id r'"
      "r_device_id r = dev" "r_device_id r' = dev" for r r'
    using nested_pair [OF n, of "core_of r" "core_of r'"] that by (auto simp: cores core_of_def)
  ultimately show ?thesis by blast
qed

theorem device_exclusion_witness:
  "length (filter (\<lambda>r. running r \<and> r_device_id r = ''phone'') (t_runs demo_nested)) = 2 \<and>
   length (filter (\<lambda>r. running r \<and> r_device_id r = ''phone'') (t_runs demo_nested)) \<le> 2"
proof -
  have "length (filter (\<lambda>r. running r \<and> r_device_id r = ''phone'') (t_runs demo_nested)) = 2"
    by code_simp
  then show ?thesis using device_exclusion [OF demo_nested_reachable, of "''phone''"] by blast
qed

text \<open>
  C3: On every reachable database a batch with a concurrency limit never has more runs running than
  the limit allows, whatever the order of creations, claims, settlements, rebinds and deletions.
\<close>

theorem batch_concurrency:
  assumes "queue_reachable d" "batch_by_id d b = Some row" "b_concurrency row \<noteq> 0"
  shows "int (running_in_batch d b) \<le> max (b_concurrency row) 0"
proof -
  have "case batch_by_id d b of None \<Rightarrow> running_in_batch d b = 0
     | Some row \<Rightarrow> b_concurrency row = 0 \<or> int (running_in_batch d b) \<le> max (b_concurrency row) 0"
    using queue_reachable_inv [OF assms(1)] by (simp add: queue_inv_def batches_bounded_def)
  then show ?thesis using assms(2,3) by simp
qed

theorem batch_concurrency_witness:
  "running_in_batch demo_nested ''b'' = 1 \<and> int (running_in_batch demo_nested ''b'') \<le> max 1 0"
proof -
  have "batch_by_id demo_nested ''b'' = Some demo_batch" by code_simp
  moreover have "b_concurrency demo_batch = 1" by (simp add: demo_batch_def)
  moreover have "running_in_batch demo_nested ''b'' = 1" by code_simp
  ultimately show ?thesis using batch_concurrency [OF demo_nested_reachable, of "''b''" demo_batch] by simp
qed

text \<open>
  C5: On every reachable database, after any number of retention passes and purges too, a job's
  \<open>run_count\<close> is the number of its runs and \<open>latest_run_id\<close> names a run of that job, none exactly
  when the job has none.
\<close>

theorem job_columns_true:
  assumes "queue_reachable d" "j \<in> set (t_jobs d)"
  shows "j_run_count j = int (length (runs_of d (j_id j))) \<and>
    (case j_latest_run_id j of None \<Rightarrow> runs_of d (j_id j) = []
     | Some i \<Rightarrow> \<exists>r \<in> set (runs_of d (j_id j)). r_id r = i)"
proof -
  have "valid_columns (j_run_count j) (j_latest_run_id j) (runs_of d (j_id j))"
    using queue_reachable_inv [OF assms(1)] assms(2) by (simp add: queue_inv_def columns_def)
  then show ?thesis by (auto simp: valid_columns_def image_iff split: option.splits)
qed

theorem job_columns_true_witness:
  "list_all (\<lambda>j. j_run_count j = int (length (runs_of demo_nested (j_id j)))) (t_jobs demo_nested)"
  using job_columns_true [OF demo_nested_reachable] by (simp add: list_all_iff)

text \<open>
  C2: A successful claim picks a queued, unheld, due run of an online, non-excluded device where only
  the parent workflow's run may be running, no claimable run precedes it in the claim order
  (priority, age, batch order), and it changes that one row and nothing else.
\<close>

theorem claim_next_correct:
  assumes "tables_wf d" "claim_next nowS ttl exclude d = (d', Some cj)"
  shows "\<exists>r j. r \<in> set (t_runs d) \<and> job_by_id d (r_job_id r) = Some j
    \<and> cj = \<lparr>cl_job = j, cl_run = mark_claimed nowS ttl r, cl_device_id = r_device_id r\<rparr>
    \<and> queued r \<and> \<not> r_held r \<and> due nowS r \<and> device_online d (r_device_id r) \<and> r_device_id r \<notin> set exclude
    \<and> (\<forall>x \<in> set (t_runs d). running x \<and> r_device_id x = r_device_id r \<longrightarrow> j_parent_workflow_job_id j = Some (r_job_id x))
    \<and> (\<forall>x \<in> set (t_runs d). claimable nowS exclude d x \<longrightarrow> \<not> claim_before d x r)
    \<and> t_runs d' = map (\<lambda>x. if r_id x = r_id r then mark_claimed nowS ttl x else x) (t_runs d)
    \<and> t_jobs d' = t_jobs d \<and> t_devices d' = t_devices d \<and> t_batches d' = t_batches d"
proof -
  obtain r j where r: "claim_candidate nowS exclude d = Some r" "r \<in> set (t_runs d)"
    "claimable nowS exclude d r" "job_by_id d (r_job_id r) = Some j"
    "cj = \<lparr>cl_job = j, cl_run = mark_claimed nowS ttl r, cl_device_id = r_device_id r\<rparr>"
    "d' = update_runs (\<lambda>x. r_id x = r_id r) (mark_claimed nowS ttl) d"
    using claim_next_Some [OF assms] .
  have "device_free d j r" using claimable_facts(7) [OF r(3)] r(4) by simp
  then have "\<forall>x \<in> set (t_runs d). running x \<and> r_device_id x = r_device_id r \<longrightarrow> j_parent_workflow_job_id j = Some (r_job_id x)"
    by (auto simp: device_free_def list_ex_iff split: option.splits)
  then show ?thesis
    using r claimable_facts(1-5) [OF r(3)] claim_candidate_Some(3) [OF r(1)]
    by (intro exI [of _ r] exI [of _ j]) (auto simp: update_where_def)
qed

definition demo_queued :: db where
  "demo_queued = demo_add ''flow'' ''flow-run'' JkWorkflow None (Some ''b'') demo_start"

theorem claim_next_correct_witness:
  "tables_wf demo_queued \<and> snd (claim_next 5 30 [] demo_queued) \<noteq> None \<and>
   (\<exists>r. r \<in> set (t_runs demo_queued) \<and> queued r \<and> device_online demo_queued (r_device_id r))"
proof -
  have wf: "tables_wf demo_queued" by code_simp
  have "snd (claim_next 5 30 [] demo_queued) \<noteq> None" by code_simp
  then obtain d' cj where c: "claim_next 5 30 [] demo_queued = (d', Some cj)"
    by (cases "claim_next 5 30 [] demo_queued") auto
  from claim_next_correct [OF wf c] show ?thesis using wf c by auto
qed



text \<open>
  C20: Following the cursors of the paged job list from the start visits every matching job exactly
  once, newest first, for every positive page size; as many requests as there are jobs plus one are
  always enough.
\<close>

theorem paging_complete:
  assumes "tables_wf d" "0 < limit" "length (t_jobs d) < n"
  shows "\<exists>js. collect_pages n d f None limit = Some js
    \<and> mset js = mset (filter (list_match d f) (t_jobs d))
    \<and> sorted_wrt (\<lambda>a b. created_key b < created_key a) js"
proof -
  have ids: "distinct (map j_id (t_jobs d))" using assms(1) by (simp add: tables_wf_def)
  have "filter (keyset_where None) (matching_jobs d f) = drop 0 (matching_jobs d f)"
    by (simp add: keyset_where_def)
  moreover have "length (matching_jobs d f) < n + 0"
    using le_less_trans [OF length_filter_le assms(3)] by (simp add: matching_jobs_def created_desc_def)
  ultimately have "collect_pages n d f None limit = Some (matching_jobs d f)"
    using collect_pages_from [OF ids assms(2), of None f 0 n] by simp
  moreover have "mset (matching_jobs d f) = mset (filter (list_match d f) (t_jobs d))"
    by (simp add: matching_jobs_def created_desc_def)
  moreover have "sorted_wrt (\<lambda>a b. created_key b < created_key a) (matching_jobs d f)"
    unfolding matching_jobs_def using ids by (intro created_desc_strict distinct_map_filter_keys)
  ultimately show ?thesis by blast
qed

definition demo_filter :: list_filter where
  "demo_filter = \<lparr>lf_device_id = None, lf_status = None, lf_kind = None, lf_exclude_kind = None,
     lf_root_job_id = None, lf_parent_workflow_job_id = None, lf_schedule_id = None, lf_include_simulate = False\<rparr>"

theorem paging_complete_witness:
  "\<exists>js. collect_pages 3 demo_nested demo_filter None 1 = Some js \<and> length js = 2"
proof -
  have wf: "tables_wf demo_nested" by code_simp
  have len: "length (t_jobs demo_nested) < 3" "length (filter (list_match demo_nested demo_filter) (t_jobs demo_nested)) = 2"
    by code_simp+
  from paging_complete [OF wf _ len(1), of 1 demo_filter] obtain js
    where js: "collect_pages 3 demo_nested demo_filter None 1 = Some js"
      "mset js = mset (filter (list_match demo_nested demo_filter) (t_jobs demo_nested))" by auto
  then show ?thesis using len(2) by (metis size_mset)
qed

text \<open>
  \<open>addRun\<close> on a job whose runs are numbered \<open>1..n\<close> and whose columns are honest gives the new
  run number \<open>n + 1\<close>, makes it the job's latest run, and leaves the numbering gapless and the columns
  honest.
\<close>

theorem add_run_numbering:
  assumes "tables_wf d" "columns_honest d" "seqs_dense d jid"
    and "add_run new_id seed now jid inp d = Inr (d', row)"
  shows "r_seq row = int (length (runs_of d jid)) + 1 \<and> queued row \<and> latest_of (runs_of d' jid) = Some row
    \<and> seqs_dense d' jid \<and> columns_honest d' \<and> tables_wf d'"
proof -
  have "queued row" by (rule add_run_Inr [OF assms(4)])
  then show ?thesis using add_run_dense [OF assms] add_run_wf [OF assms(1,4)] by blast
qed

theorem add_run_numbering_witness:
  "\<exists>d' row. add_run ''second'' 1 2000 ''flow'' demo_run demo_queued = Inr (d', row) \<and> r_seq row = 2 \<and> seqs_dense d' ''flow''"
proof -
  have wf: "tables_wf demo_queued" "columns_honest demo_queued" by (code_simp, simp add: columns_def, code_simp)
  have seqs: "r_seq ` set (runs_of demo_queued ''flow'') = {1}" "length (runs_of demo_queued ''flow'') = 1" by code_simp+
  have dense: "seqs_dense demo_queued ''flow''" by (simp add: seqs_dense_def seqs)
  have "\<not> isl (add_run ''second'' 1 2000 ''flow'' demo_run demo_queued)" by code_simp
  then obtain d' row where a: "add_run ''second'' 1 2000 ''flow'' demo_run demo_queued = Inr (d', row)"
    by (cases "add_run ''second'' 1 2000 ''flow'' demo_run demo_queued") auto
  from add_run_numbering [OF wf dense a] show ?thesis using a seqs(2) by auto
qed

text \<open>
  C39: After \<open>deleteRuns\<close> removed some runs of an honest job, \<open>addRun\<close> fails with the table's unique
  constraint whenever a surviving run carries the number one above the count of survivors: the count
  is what the next number is computed from, although the numbers themselves were never compacted.
\<close>

theorem add_run_after_retention_fails:
  assumes "tables_wf d" "columns_honest d" "ids \<noteq> []"
    and "job_by_id (fst (delete_runs ids d)) jid = Some job"
    and "r \<in> set (runs_of (fst (delete_runs ids d)) jid)"
    and "r_seq r = int (length (runs_of (fst (delete_runs ids d)) jid)) + 1"
  shows "add_run new_id seed now jid inp (fst (delete_runs ids d)) = Inl SQL_CONSTRAINT"
proof -
  obtain e where e: "add_run new_id seed now jid inp (fst (delete_runs ids d)) = Inl e"
    using add_run_after_delete_collides [OF assms] by blast
  then show ?thesis using assms(4) by (auto simp: add_run_def Let_def split: if_splits)
qed

text \<open>Two finished runs, the older one past retention: the pass removes it and the next run cannot be added.\<close>

definition demo_history :: db where
  "demo_history = (let inp = \<lparr>si_status = StSuccess, si_result = None, si_error = None, si_failure_class = None,
        si_error_phase = None, si_peak_rss_bytes = None, si_result_status = None, si_result_bytes = None,
        si_result_summary = None, si_result_issues = None\<rparr>;
      d1 = fst (settle_run 2000 ''r1'' inp (demo_claim (demo_add ''job'' ''r1'' JkScript None None demo_start)));
      d2 = demo_claim (after (add_run ''r2'' 1 3000 ''job'' demo_run d1) d1)
    in fst (settle_run 9000000000 ''r2'' inp d2))"

definition demo_swept :: db where
  "demo_swept = fst (sweep_once 9000000000 30 2 500 demo_history)"

theorem add_run_after_retention_fails_witness:
  "map r_id (t_runs demo_history) = [''r1'', ''r2''] \<and> map r_id (t_runs (fst (delete_runs [''r1''] demo_history))) = [''r2'']
   \<and> add_run ''r3'' 1 9000000000 ''job'' demo_run (fst (delete_runs [''r1''] demo_history)) = Inl SQL_CONSTRAINT
   \<and> fst (delete_runs [''r1''] demo_history) = demo_swept"
proof -
  let ?d = "fst (delete_runs [''r1''] demo_history)"
  have wf: "tables_wf demo_history" "columns_honest demo_history" by (code_simp, simp add: columns_def, code_simp)
  obtain r where r: "runs_of ?d ''job'' = [r]" "r_seq r = 2"
  proof -
    have "map r_seq (runs_of ?d ''job'') = [2]" by code_simp
    then show ?thesis using that by (cases "runs_of ?d ''job''") auto
  qed
  have "job_by_id ?d ''job'' \<noteq> None" by code_simp
  then obtain job where job: "job_by_id ?d ''job'' = Some job" by auto
  have "add_run ''r3'' 1 9000000000 ''job'' demo_run ?d = Inl SQL_CONSTRAINT"
    by (rule add_run_after_retention_fails [OF wf _ job, of r]) (use r in simp_all)
  moreover have "map r_id (t_runs demo_history) = [''r1'', ''r2'']" "map r_id (t_runs ?d) = [''r2'']" "?d = demo_swept"
    by code_simp+
  ultimately show ?thesis by blast
qed



end
