(* ===== verification/BatchStatus.thy ===== *)
theory BatchStatus
  imports JobStore
begin

text \<open>
  Batches (\<open>packages/core/src/groups/status.ts\<close>, \<open>groups/pacer.ts\<close>): a batch's cached status is
  derived from the latest run of each member job, and the pacer plans its repetitions. The state is
  the database with what the module does to the outside: the armed timer, the scheduler kicks and
  the broadcasts. Random draws, uuids and seeds come from numbered sources.
\<close>

section \<open>Counting\<close>

record batch_counts =
  c_total :: nat
  c_queued :: nat
  c_running :: nat
  c_success :: nat
  c_failed :: nat
  c_cancelled :: nat
  c_expired :: nat
  c_failed_script :: nat
  c_failed_infra :: nat

definition no_counts :: "nat \<Rightarrow> batch_counts" where
  "no_counts n = \<lparr>c_total = n, c_queued = 0, c_running = 0, c_success = 0, c_failed = 0, c_cancelled = 0,
     c_expired = 0, c_failed_script = 0, c_failed_infra = 0\<rparr>"

definition count_run :: "run_row option \<Rightarrow> batch_counts \<Rightarrow> batch_counts" where
  "count_run run c =
     (let status = (case run of None \<Rightarrow> RQueued | Some r \<Rightarrow> r_status r);
          fc = Option.bind run r_failure_class
      in case status of
           RQueued \<Rightarrow> c\<lparr>c_queued := c_queued c + 1\<rparr>
         | RRunning \<Rightarrow> c\<lparr>c_running := c_running c + 1\<rparr>
         | RSuccess \<Rightarrow> c\<lparr>c_success := c_success c + 1\<rparr>
         | RCancelled \<Rightarrow> c\<lparr>c_cancelled := c_cancelled c + 1\<rparr>
         | RExpired \<Rightarrow> c\<lparr>c_expired := c_expired c + 1\<rparr>
         | RFailed \<Rightarrow>
             (let c' = c\<lparr>c_failed := c_failed c + 1\<rparr> in
              if fc = Some ''infra'' \<or> fc = Some ''load''
              then c'\<lparr>c_failed_infra := c_failed_infra c' + 1\<rparr>
              else c'\<lparr>c_failed_script := c_failed_script c' + 1\<rparr>))"

definition count_jobs :: "run_row option list \<Rightarrow> batch_counts" where
  "count_jobs rs = fold count_run rs (no_counts (length rs))"

definition compute_batch_status :: "batch_counts \<Rightarrow> batch_status" where
  "compute_batch_status c =
     (if c_total c = 0 then BQueued
      else if 0 < c_running c then BRunning
      else if c_success c + c_failed c + c_cancelled c + c_expired c = c_total c
      then (if c_cancelled c = c_total c then BCancelled
            else if 0 < c_failed c \<or> 0 < c_expired c then BFailed else BSuccess)
      else BQueued)"

definition terminal_batch :: "batch_status \<Rightarrow> bool" where
  "terminal_batch s \<longleftrightarrow> s = BSuccess \<or> s = BFailed \<or> s = BCancelled"

section \<open>The pacer's state\<close>

record batch_event =
  be_batch_id :: ident
  be_status :: batch_status
  be_counts :: batch_counts

record pacer =
  p_db :: db
  p_timer :: "millis option"
  p_kicks :: nat
  p_events :: "batch_event list"
  p_draws :: nat
  p_uuids :: nat

record sources =
  src_random :: "nat \<Rightarrow> int"
  src_uuid :: "nat \<Rightarrow> ident"
  src_seed :: "nat \<Rightarrow> int"
  src_fallback_ms :: millis

definition with_db :: "(db \<Rightarrow> db) \<Rightarrow> pacer \<Rightarrow> pacer" where
  "with_db f p = p\<lparr>p_db := f (p_db p)\<rparr>"

definition kick :: "pacer \<Rightarrow> pacer" where
  "kick p = p\<lparr>p_kicks := p_kicks p + 1\<rparr>"

definition ladder_rung :: "nat \<Rightarrow> int \<Rightarrow> int" where
  "ladder_rung index wave_size = int index div max 1 wave_size"

text \<open>\<open>drawIntervalMs\<close> with the drawn number given; \<open>drawn\<close> also counts the draw it used.\<close>

definition draw_interval_ms :: "int \<Rightarrow> int \<Rightarrow> int \<Rightarrow> int" where
  "draw_interval_ms lo hi u = (if hi \<le> lo then lo else lo + u mod (hi - lo + 1))"

definition drawn :: "sources \<Rightarrow> int \<Rightarrow> int \<Rightarrow> pacer \<Rightarrow> int \<times> pacer" where
  "drawn src lo hi p =
     (draw_interval_ms lo hi (src_random src (p_draws p)),
      if hi \<le> lo then p else p\<lparr>p_draws := p_draws p + 1\<rparr>)"

section \<open>Planning a sequential batch\<close>

record member_run =
  mr_repeat :: int
  mr_status :: run_status
  mr_held :: bool

record sequential_member =
  sm_device_id :: ident
  sm_wave :: int
  sm_runs :: "member_run list"

datatype sequential_step = Wait | Release int int | NextPhase int | Done

definition current_phase :: "sequential_member list \<Rightarrow> int" where
  "current_phase ms = fold (\<lambda>r cur. max cur (mr_repeat r)) (concat (map sm_runs ms)) (-1)"

definition waves_of :: "sequential_member list \<Rightarrow> int list" where
  "waves_of ms = sort (remdups (map sm_wave ms))"

text \<open>The last run of the phase, per member of the sub-group that has one.\<close>

definition in_wave :: "int \<Rightarrow> sequential_member list \<Rightarrow> int \<Rightarrow> member_run list" where
  "in_wave cur ms w =
     map last (filter (\<lambda>rs. rs \<noteq> [])
       (map (\<lambda>m. filter (\<lambda>r. mr_repeat r = cur) (sm_runs m)) (filter (\<lambda>m. sm_wave m = w) ms)))"

definition under_way :: "member_run \<Rightarrow> bool" where
  "under_way r \<longleftrightarrow> mr_status r = RRunning \<or> mr_status r = RQueued \<and> \<not> mr_held r"

definition holding :: "member_run \<Rightarrow> bool" where
  "holding r \<longleftrightarrow> mr_status r = RQueued \<and> mr_held r"

fun scan_waves :: "int \<Rightarrow> sequential_member list \<Rightarrow> int list \<Rightarrow> sequential_step option" where
  "scan_waves cur ms [] = None"
| "scan_waves cur ms (w # ws) =
     (if list_ex under_way (in_wave cur ms w) then Some Wait
      else if list_ex holding (in_wave cur ms w) then Some (Release cur w)
      else scan_waves cur ms ws)"

definition plan_sequential_step :: "sequential_member list \<Rightarrow> int \<Rightarrow> sequential_step" where
  "plan_sequential_step ms repeat_count =
     (let cur = current_phase ms in
      if cur < 0 then Wait
      else case scan_waves cur ms (waves_of ms) of
             Some s \<Rightarrow> s
           | None \<Rightarrow> if cur + 1 < repeat_count then NextPhase (cur + 1) else Done)"

section \<open>The pacer's operations\<close>

definition non_planning :: "batch_status \<Rightarrow> bool" where
  "non_planning s \<longleftrightarrow> s = BStopping \<or> s = BSuccess \<or> s = BFailed \<or> s = BCancelled"

definition is_paced :: "batch_row \<Rightarrow> bool" where
  "is_paced b \<longleftrightarrow> b_sequential b \<or> 1 < b_repeat_count b \<or> 0 < b_device_interval_ms b \<or> 0 < b_device_delay_max_ms b"

text \<open>One timer, at the earliest \<open>notBefore\<close> of a queued run, at most the fallback away.\<close>

definition rearm :: "sources \<Rightarrow> millis \<Rightarrow> pacer \<Rightarrow> pacer" where
  "rearm src now p =
     (let times = List.map_filter r_not_before (filter queued (t_runs (p_db p))) in
      p\<lparr>p_timer := (if times = [] then None
          else Some (min (src_fallback_ms src) (max 0 (Min (set times) * 1000 - now))))\<rparr>)"

definition set_run :: "ident \<Rightarrow> (run_row \<Rightarrow> run_row) \<Rightarrow> pacer \<Rightarrow> pacer" where
  "set_run i f = with_db (update_runs (\<lambda>r. r_id r = i) f)"

definition plan_first_member :: "sources \<Rightarrow> millis \<Rightarrow> batch_row \<Rightarrow> nat \<times> job_row \<Rightarrow> pacer \<Rightarrow> pacer" where
  "plan_first_member src now b im p =
     (let (i, m) = im; nowS = to_sec now in
      if \<not> truthy_str (j_latest_run_id m) then p
      else case run_by_id (p_db p) (the (j_latest_run_id m)) of
        None \<Rightarrow> p
      | Some run \<Rightarrow>
          let wave = ladder_rung i (b_wave_size b);
              (draw, p') = drawn src (b_device_delay_min_ms b) (b_device_delay_max_ms b) p in
          if b_sequential b
          then set_run (r_id run)
                 (if wave = 0
                  then (\<lambda>r. r\<lparr>r_batch_repeat := Some 0, r_batch_wave := Some 0, r_held := False,
                        r_not_before := (if draw > 0 then Some (nowS + round_sec draw) else r_not_before run),
                        r_paced_delay_ms := (if draw > 0 then Some draw else r_paced_delay_ms run)\<rparr>)
                  else (\<lambda>r. r\<lparr>r_batch_repeat := Some 0, r_batch_wave := Some wave, r_held := True,
                        r_not_before := None, r_expires_at := None\<rparr>)) p'
          else let stagger = wave * b_device_interval_ms b + draw in
               set_run (r_id run)
                 (\<lambda>r. r\<lparr>r_not_before := (if stagger > 0 then Some (nowS + round_sec stagger) else r_not_before run),
                        r_batch_repeat := Some 0,
                        r_paced_delay_ms := (if stagger > 0 then Some stagger else r_paced_delay_ms run)\<rparr>) p')"

definition plan_first :: "sources \<Rightarrow> millis \<Rightarrow> ident \<Rightarrow> pacer \<Rightarrow> pacer" where
  "plan_first src now batch_id p =
     (case batch_by_id (p_db p) batch_id of
        None \<Rightarrow> p
      | Some b \<Rightarrow>
          if \<not> is_paced b then p
          else rearm src now
            (fold (plan_first_member src now b) (List.enumerate 0 (list_by_batch (p_db p) batch_id)) p))"

text \<open>The planner's view of the batch: the repetition runs of each member, oldest first.\<close>

record member_view =
  mv_job :: job_row
  mv_wave :: int
  mv_runs :: "run_row list"

definition member_view_of :: "db \<Rightarrow> job_row \<Rightarrow> member_view" where
  "member_view_of d m =
     (let runs = filter (\<lambda>r. r_batch_repeat r \<noteq> None) (rev (job_runs_desc d (j_id m))) in
      \<lparr>mv_job = m,
       mv_wave = (case find (\<lambda>r. r_batch_wave r \<noteq> None) runs of None \<Rightarrow> 0 | Some r \<Rightarrow> coalesce (r_batch_wave r) 0),
       mv_runs = runs\<rparr>)"

definition sequential_members :: "db \<Rightarrow> ident \<Rightarrow> member_view list" where
  "sequential_members d batch_id = map (member_view_of d) (list_by_batch d batch_id)"

definition planner_member :: "member_view \<Rightarrow> sequential_member" where
  "planner_member v = \<lparr>sm_device_id = j_device_id (mv_job v), sm_wave = mv_wave v,
     sm_runs = map (\<lambda>r. \<lparr>mr_repeat = coalesce (r_batch_repeat r) 0, mr_status = r_status r, mr_held = r_held r\<rparr>) (mv_runs v)\<rparr>"

definition release_patch :: "millis \<Rightarrow> millis \<Rightarrow> run_row \<Rightarrow> run_row" where
  "release_patch now delay r = r\<lparr>r_held := False,
     r_not_before := (if delay > 0 then Some (to_sec now + round_sec delay) else None),
     r_paced_delay_ms := Some delay\<rparr>"

definition release_member :: "sources \<Rightarrow> millis \<Rightarrow> batch_row \<Rightarrow> int \<Rightarrow> int \<Rightarrow> member_view \<Rightarrow> pacer \<Rightarrow> pacer" where
  "release_member src now b rep wave v p =
     (if mv_wave v \<noteq> wave then p
      else let rs = filter (\<lambda>r. r_batch_repeat r = Some rep) (mv_runs v) in
      if rs = [] then p
      else let run = last rs in
      if \<not> queued run \<or> \<not> r_held run then p
      else let (draw, p') = drawn src (b_device_delay_min_ms b) (b_device_delay_max_ms b) p;
               delay = (if 0 < wave then b_device_interval_ms b else 0) + draw in
           set_run (r_id run) (release_patch now delay) p')"

definition batch_run_input :: "int \<Rightarrow> int option \<Rightarrow> bool option \<Rightarrow> seconds option \<Rightarrow> int option \<Rightarrow> add_run_input" where
  "batch_run_input rep wave held not_before delay =
     \<lparr>ai_trigger = TrBatch, ai_priority = None, ai_expires_at = None, ai_not_before = not_before,
      ai_batch_repeat = Some rep, ai_batch_wave = wave, ai_held = held, ai_paced_delay_ms = delay,
      ai_max_concurrent = None, ai_runtime_override = None, ai_resumed_from_run_id = None,
      ai_resumed_from_step = None, ai_seed = None\<rparr>"

definition paced_add_run :: "sources \<Rightarrow> millis \<Rightarrow> ident \<Rightarrow> add_run_input \<Rightarrow> pacer \<Rightarrow> pacer \<times> db_error option" where
  "paced_add_run src now jid inp p =
     (let p' = p\<lparr>p_uuids := p_uuids p + 1\<rparr> in
      case add_run (src_uuid src (p_uuids p)) (src_seed src (p_uuids p)) now jid inp (p_db p) of
        Inl e \<Rightarrow> (p', Some e)
      | Inr (d, _) \<Rightarrow> (p'\<lparr>p_db := d\<rparr>, None))"

definition next_phase_member ::
    "sources \<Rightarrow> millis \<Rightarrow> batch_row \<Rightarrow> int \<Rightarrow> millis \<Rightarrow> member_view \<Rightarrow> pacer \<Rightarrow> pacer \<times> db_error option" where
  "next_phase_member src now b rep gap v p =
     (let (draw, p') = drawn src (b_device_delay_min_ms b) (b_device_delay_max_ms b) p; delay = gap + draw in
      paced_add_run src now (j_id (mv_job v))
        (if mv_wave v = 0 then batch_run_input rep (Some 0) (Some False) (Some (to_sec now + round_sec delay)) (Some delay)
         else batch_run_input rep (Some (mv_wave v)) (Some True) None None) p')"

definition advance :: "sources \<Rightarrow> millis \<Rightarrow> ident \<Rightarrow> pacer \<Rightarrow> pacer \<times> db_error option" where
  "advance src now batch_id p =
     (case batch_by_id (p_db p) batch_id of
        None \<Rightarrow> (p, None)
      | Some b \<Rightarrow>
          if \<not> b_sequential b \<or> non_planning (b_status b) then (p, None)
          else
            let view = sequential_members (p_db p) batch_id in
            (case plan_sequential_step (map planner_member view) (b_repeat_count b) of
               Release rep wave \<Rightarrow> (kick (rearm src now (fold (release_member src now b rep wave) view p)), None)
             | NextPhase rep \<Rightarrow>
                 (let (gap, p1) = drawn src (b_interval_min_ms b) (b_interval_max_ms b) p in
                  case each_until (next_phase_member src now b rep gap) view p1 of
                    (p2, Some e) \<Rightarrow> (p2, Some e)
                  | (p2, None) \<Rightarrow> (kick (rearm src now p2), None))
             | Wait \<Rightarrow> (p, None)
             | Done \<Rightarrow> (p, None)))"

definition on_member_settled :: "sources \<Rightarrow> millis \<Rightarrow> ident \<Rightarrow> ident \<Rightarrow> pacer \<Rightarrow> pacer \<times> db_error option" where
  "on_member_settled src now batch_id dev p =
     (case batch_by_id (p_db p) batch_id of
        None \<Rightarrow> (p, None)
      | Some b \<Rightarrow>
          if non_planning (b_status b) \<or> \<not> is_paced b then (p, None)
          else if b_sequential b then advance src now batch_id p
          else (case get_where (\<lambda>j. j_batch_id j = Some batch_id \<and> j_device_id j = dev) (t_jobs (p_db p)) of
                  None \<Rightarrow> (p, None)
                | Some m \<Rightarrow>
                    (case job_runs_desc (p_db p) (j_id m) of
                       [] \<Rightarrow> (p, None)
                     | latest # rest \<Rightarrow>
                         let next = coalesce (r_batch_repeat latest) 0 + 1 in
                         if int (length (latest # rest)) \<ge> b_repeat_count b \<or> next \<ge> b_repeat_count b then (p, None)
                         else
                           let (delay, p') = drawn src (b_interval_min_ms b) (b_interval_max_ms b) p in
                           (case paced_add_run src now (j_id m)
                                   (batch_run_input next None None (Some (to_sec now + round_sec delay)) (Some delay)) p' of
                              (p2, Some e) \<Rightarrow> (p2, Some e)
                            | (p2, None) \<Rightarrow> (kick (rearm src now p2), None)))))"

section \<open>Recomputing the status\<close>

definition latest_member_runs :: "db \<Rightarrow> job_row list \<Rightarrow> run_row option list" where
  "latest_member_runs d ms = (let by_job = latest_runs d (map j_id ms) in map (\<lambda>m. jm_get by_job (j_id m)) ms)"

definition set_batch :: "ident \<Rightarrow> (batch_row \<Rightarrow> batch_row) \<Rightarrow> pacer \<Rightarrow> pacer" where
  "set_batch i f = with_db (update_batches (\<lambda>b. b_id b = i) f)"

definition emit_batch :: "ident \<Rightarrow> batch_status \<Rightarrow> batch_counts \<Rightarrow> pacer \<Rightarrow> pacer" where
  "emit_batch i s c p = p\<lparr>p_events := p_events p @ [\<lparr>be_batch_id = i, be_status = s, be_counts = c\<rparr>]\<rparr>"

text \<open>\<open>settled\<close>: the device of the member that settled, when the pacer is wired and one did.\<close>

definition recompute_batch_status ::
    "sources \<Rightarrow> millis \<Rightarrow> ident \<Rightarrow> ident option \<Rightarrow> pacer \<Rightarrow> pacer \<times> db_error option" where
  "recompute_batch_status src now batch_id settled p =
     (let ms = list_by_batch (p_db p) batch_id in
      case batch_by_id (p_db p) batch_id of
        None \<Rightarrow> (p, None)
      | Some b \<Rightarrow>
          if ms = []
          then (if terminal_batch (b_status b) then (p, None)
                else (emit_batch batch_id BCancelled (count_jobs [])
                        (set_batch batch_id (\<lambda>r. r\<lparr>b_status := BCancelled,
                           b_finished_at := Some (coalesce (b_finished_at b) (to_sec now))\<rparr>) p), None))
          else
            (case (if truthy_str settled then on_member_settled src now batch_id (the settled) p else (p, None)) of
               (p1, Some e) \<Rightarrow> (p1, Some e)
             | (p1, None) \<Rightarrow>
                 let counts = count_jobs (latest_member_runs (p_db p1) ms);
                     status = compute_batch_status counts;
                     still_stopping = (b_status b = BStopping \<and> \<not> terminal_batch status);
                     new_status = (if \<not> still_stopping then status else b_status b);
                     p2 = set_batch batch_id
                            (\<lambda>r. r\<lparr>b_status := (if \<not> still_stopping \<and> b_status b \<noteq> status then status else b_status r),
                                   b_finished_at := (if terminal_batch status \<and> b_finished_at b = None
                                                     then Some (to_sec now) else b_finished_at r)\<rparr>) p1
                 in (emit_batch batch_id new_status counts p2, None)))"

section \<open>The boot sweep\<close>

definition replan_member :: "sources \<Rightarrow> millis \<Rightarrow> ident \<Rightarrow> job_row \<Rightarrow> pacer \<Rightarrow> pacer \<times> db_error option" where
  "replan_member src now batch_id m p =
     (case (if truthy_str (j_latest_run_id m) then run_by_id (p_db p) (the (j_latest_run_id m)) else None) of
        None \<Rightarrow> (p, None)
      | Some latest \<Rightarrow> if queued latest \<or> running latest then (p, None)
                        else on_member_settled src now batch_id (j_device_id m) p)"

definition replan_batch :: "sources \<Rightarrow> millis \<Rightarrow> batch_row \<Rightarrow> pacer \<Rightarrow> pacer \<times> db_error option" where
  "replan_batch src now b p =
     (if \<not> is_paced b then (p, None)
      else
        let ms = filter (\<lambda>j. j_batch_id j = Some (b_id b)) (t_jobs (p_db p)) in
        if ms = []
        then (emit_batch (b_id b) BFailed (count_jobs [])
                (set_batch (b_id b) (\<lambda>r. r\<lparr>b_status := BFailed, b_finished_at := Some (to_sec now)\<rparr>) p), None)
        else
          (case (if b_sequential b then advance src now (b_id b) p
                 else each_until (replan_member src now (b_id b)) ms p) of
             (p1, Some e) \<Rightarrow> (p1, Some e)
           | (p1, None) \<Rightarrow> recompute_batch_status src now (b_id b) None p1))"

definition replan_after_restart :: "sources \<Rightarrow> millis \<Rightarrow> pacer \<Rightarrow> pacer \<times> db_error option" where
  "replan_after_restart src now p =
     (let open_batches = filter (\<lambda>b. b_status b = BQueued) (t_batches (p_db p))
                         @ filter (\<lambda>b. b_status b = BRunning) (t_batches (p_db p)) in
      case each_until (replan_batch src now) open_batches p of
        (p1, Some e) \<Rightarrow> (p1, Some e)
      | (p1, None) \<Rightarrow> (rearm src now p1, None))"

definition stop_pacer :: "pacer \<Rightarrow> pacer" where
  "stop_pacer p = p\<lparr>p_timer := None\<rparr>"

section \<open>Counts\<close>

definition settled_counts :: "batch_counts \<Rightarrow> nat" where
  "settled_counts c = c_success c + c_failed c + c_cancelled c + c_expired c"

definition counted :: "run_row option \<Rightarrow> run_status" where
  "counted run = (case run of None \<Rightarrow> RQueued | Some r \<Rightarrow> r_status r)"

definition tally :: "run_status \<Rightarrow> run_row option list \<Rightarrow> nat" where
  "tally st rs = length (filter (\<lambda>r. counted r = st) rs)"

lemma tally_simps [simp]:
  "tally st [] = 0" "tally st (r # rs) = (if counted r = st then 1 else 0) + tally st rs"
  by (simp_all add: tally_def)

lemma count_run_fold:
  "c_total (fold count_run rs c) = c_total c
   \<and> c_queued (fold count_run rs c) = c_queued c + tally RQueued rs
   \<and> c_running (fold count_run rs c) = c_running c + tally RRunning rs
   \<and> c_success (fold count_run rs c) = c_success c + tally RSuccess rs
   \<and> c_failed (fold count_run rs c) = c_failed c + tally RFailed rs
   \<and> c_cancelled (fold count_run rs c) = c_cancelled c + tally RCancelled rs
   \<and> c_expired (fold count_run rs c) = c_expired c + tally RExpired rs
   \<and> c_failed_script (fold count_run rs c) + c_failed_infra (fold count_run rs c)
       = c_failed_script c + c_failed_infra c + tally RFailed rs"
proof (induction rs arbitrary: c)
  case (Cons r rs)
  show ?case
    by (cases "counted r")
      (use Cons.IH [of "count_run r c"] in \<open>simp_all add: count_run_def counted_def Let_def split: if_splits\<close>)
qed simp

lemma tally_sum:
  "tally RQueued rs + tally RRunning rs + tally RSuccess rs + tally RFailed rs + tally RCancelled rs + tally RExpired rs
     = length rs"
proof (induction rs)
  case (Cons r rs)
  then show ?case by (cases "counted r") simp_all
qed simp

lemma count_jobs_facts:
  "c_total (count_jobs rs) = length rs" "c_queued (count_jobs rs) = tally RQueued rs"
  "c_running (count_jobs rs) = tally RRunning rs" "c_success (count_jobs rs) = tally RSuccess rs"
  "c_failed (count_jobs rs) = tally RFailed rs" "c_cancelled (count_jobs rs) = tally RCancelled rs"
  "c_expired (count_jobs rs) = tally RExpired rs"
  "c_failed_script (count_jobs rs) + c_failed_infra (count_jobs rs) = tally RFailed rs"
  using count_run_fold [of rs "no_counts (length rs)"] by (simp_all add: count_jobs_def no_counts_def)

lemma tally_zero: "tally st rs = 0 \<longleftrightarrow> (\<forall>r \<in> set rs. counted r \<noteq> st)"
  by (auto simp: tally_def filter_empty_conv)

lemma compute_terminal:
  "c_total c \<noteq> 0 \<Longrightarrow> terminal_batch (compute_batch_status c) \<longleftrightarrow> c_running c = 0 \<and> settled_counts c = c_total c"
  by (simp add: compute_batch_status_def terminal_batch_def settled_counts_def)

lemma compute_success:
  "c_total c \<noteq> 0 \<Longrightarrow> compute_batch_status c = BSuccess \<longleftrightarrow> c_running c = 0 \<and> settled_counts c = c_total c
     \<and> c_cancelled c \<noteq> c_total c \<and> c_failed c = 0 \<and> c_expired c = 0"
  by (simp add: compute_batch_status_def settled_counts_def)

lemma success_or_cancelled:
  "st = RSuccess \<or> st = RCancelled \<longleftrightarrow> st \<noteq> RQueued \<and> st \<noteq> RRunning \<and> st \<noteq> RFailed \<and> st \<noteq> RExpired"
  by (cases st) simp_all

lemma terminal_or_live: "terminal_status st \<longleftrightarrow> st \<noteq> RQueued \<and> st \<noteq> RRunning"
  by (cases st) (simp_all add: terminal_status_def)

text \<open>The derived status, in terms of the members: what each of its values means.\<close>

lemma compute_status_meaning:
  assumes "rs \<noteq> []"
  shows "compute_batch_status (count_jobs rs) = BRunning \<longleftrightarrow> (\<exists>r \<in> set rs. counted r = RRunning)"
    and "terminal_batch (compute_batch_status (count_jobs rs)) \<longleftrightarrow> (\<forall>r \<in> set rs. terminal_status (counted r))"
    and "compute_batch_status (count_jobs rs) = BSuccess \<longleftrightarrow>
      (\<forall>r \<in> set rs. counted r = RSuccess \<or> counted r = RCancelled) \<and> (\<exists>r \<in> set rs. counted r = RSuccess)"
proof -
  have sum: "tally RQueued rs + tally RRunning rs + tally RSuccess rs + tally RFailed rs + tally RCancelled rs
      + tally RExpired rs = length rs" by (rule tally_sum)
  have pos: "0 < length rs" using assms by simp
  have settled: "(tally RSuccess rs + tally RFailed rs + tally RCancelled rs + tally RExpired rs = length rs)
      \<longleftrightarrow> (\<forall>r \<in> set rs. terminal_status (counted r))"
  proof -
    have "(tally RSuccess rs + tally RFailed rs + tally RCancelled rs + tally RExpired rs = length rs)
        \<longleftrightarrow> tally RQueued rs = 0 \<and> tally RRunning rs = 0" using sum by linarith
    also have "\<dots> \<longleftrightarrow> (\<forall>r \<in> set rs. terminal_status (counted r))"
      unfolding tally_zero terminal_or_live by blast
    finally show ?thesis .
  qed
  have run: "0 < tally RRunning rs \<longleftrightarrow> (\<exists>r \<in> set rs. counted r = RRunning)"
    using tally_zero [of RRunning rs] by auto
  show "compute_batch_status (count_jobs rs) = BRunning \<longleftrightarrow> (\<exists>r \<in> set rs. counted r = RRunning)"
    using pos run by (auto simp: compute_batch_status_def count_jobs_facts)
  show t: "terminal_batch (compute_batch_status (count_jobs rs)) \<longleftrightarrow> (\<forall>r \<in> set rs. terminal_status (counted r))"
  proof -
    have "terminal_batch (compute_batch_status (count_jobs rs)) \<longleftrightarrow> tally RRunning rs = 0 \<and>
        tally RSuccess rs + tally RFailed rs + tally RCancelled rs + tally RExpired rs = length rs"
      using pos by (simp add: compute_terminal count_jobs_facts settled_counts_def)
    also have "\<dots> \<longleftrightarrow> tally RSuccess rs + tally RFailed rs + tally RCancelled rs + tally RExpired rs = length rs"
      using sum by linarith
    finally show ?thesis using settled by simp
  qed
  have "compute_batch_status (count_jobs rs) = BSuccess \<longleftrightarrow>
      tally RSuccess rs + tally RCancelled rs = length rs \<and> tally RCancelled rs \<noteq> length rs"
  proof -
    have "compute_batch_status (count_jobs rs) = BSuccess \<longleftrightarrow> tally RRunning rs = 0 \<and>
        tally RSuccess rs + tally RFailed rs + tally RCancelled rs + tally RExpired rs = length rs \<and>
        tally RCancelled rs \<noteq> length rs \<and> tally RFailed rs = 0 \<and> tally RExpired rs = 0"
      using pos by (simp add: compute_success count_jobs_facts settled_counts_def)
    then show ?thesis using sum by linarith
  qed
  also have "\<dots> \<longleftrightarrow> tally RQueued rs = 0 \<and> tally RRunning rs = 0 \<and> tally RFailed rs = 0 \<and> tally RExpired rs = 0
      \<and> tally RSuccess rs \<noteq> 0" using sum by linarith
  also have "\<dots> \<longleftrightarrow> (\<forall>r \<in> set rs. counted r = RSuccess \<or> counted r = RCancelled) \<and> (\<exists>r \<in> set rs. counted r = RSuccess)"
    unfolding tally_zero success_or_cancelled by blast
  finally show "compute_batch_status (count_jobs rs) = BSuccess \<longleftrightarrow>
      (\<forall>r \<in> set rs. counted r = RSuccess \<or> counted r = RCancelled) \<and> (\<exists>r \<in> set rs. counted r = RSuccess)" .
qed

section \<open>The planner\<close>

text \<open>No run of the sub-group is queued or running.\<close>

definition wave_settled :: "int \<Rightarrow> sequential_member list \<Rightarrow> int \<Rightarrow> bool" where
  "wave_settled cur ms w \<longleftrightarrow> (\<forall>r \<in> set (in_wave cur ms w). terminal_status (mr_status r))"

lemma wave_settled_alt:
  "wave_settled cur ms w \<longleftrightarrow> \<not> list_ex under_way (in_wave cur ms w) \<and> \<not> list_ex holding (in_wave cur ms w)"
proof -
  have "terminal_status (mr_status r) \<longleftrightarrow> \<not> under_way r \<and> \<not> holding r" for r
    by (cases "mr_status r") (auto simp: terminal_status_def under_way_def holding_def)
  then show ?thesis by (auto simp: wave_settled_def list_ex_iff)
qed

lemma scan_waves_cases:
  "scan_waves cur ms ws = None \<longleftrightarrow> (\<forall>w \<in> set ws. wave_settled cur ms w)"
  "scan_waves cur ms ws = Some s \<Longrightarrow>
     \<exists>as w bs. ws = as @ w # bs \<and> (\<forall>a \<in> set as. wave_settled cur ms a)
       \<and> (s = Wait \<and> list_ex under_way (in_wave cur ms w)
          \<or> s = Release cur w \<and> \<not> list_ex under_way (in_wave cur ms w) \<and> list_ex holding (in_wave cur ms w))"
proof -
  show "scan_waves cur ms ws = None \<longleftrightarrow> (\<forall>w \<in> set ws. wave_settled cur ms w)"
    by (induction ws) (auto simp: wave_settled_alt)
  show "scan_waves cur ms ws = Some s \<Longrightarrow>
     \<exists>as w bs. ws = as @ w # bs \<and> (\<forall>a \<in> set as. wave_settled cur ms a)
       \<and> (s = Wait \<and> list_ex under_way (in_wave cur ms w)
          \<or> s = Release cur w \<and> \<not> list_ex under_way (in_wave cur ms w) \<and> list_ex holding (in_wave cur ms w))"
  proof (induction ws)
    case (Cons w ws)
    show ?case
    proof (cases "wave_settled cur ms w")
      case True
      then have "scan_waves cur ms ws = Some s" using Cons.prems by (simp add: wave_settled_alt)
      then obtain as w' bs where h: "ws = as @ w' # bs" "\<forall>a \<in> set as. wave_settled cur ms a"
        "s = Wait \<and> list_ex under_way (in_wave cur ms w')
          \<or> s = Release cur w' \<and> \<not> list_ex under_way (in_wave cur ms w') \<and> list_ex holding (in_wave cur ms w')"
        using Cons.IH by blast
      then show ?thesis using True by (intro exI [of _ "w # as"] exI [of _ w'] exI [of _ bs]) auto
    next
      case False
      then show ?thesis
        using Cons.prems by (intro exI [of _ "[]"] exI [of _ w] exI [of _ ws]) (auto simp: wave_settled_alt split: if_splits)
    qed
  qed simp
qed

lemma sorted_split_less:
  assumes "sorted ws" "distinct ws" "ws = as @ w # bs" "a \<in> set ws" "a < (w :: int)"
  shows "a \<in> set as"
  using assms by (auto simp: sorted_append)

section \<open>What the pacer leaves alone\<close>

lemma drawn_db [simp]: "p_db (snd (drawn src lo hi p)) = p_db p"
  by (simp add: drawn_def)

lemma rearm_db [simp]: "p_db (rearm src now p) = p_db p" "p_db (kick p) = p_db p"
  by (simp_all add: rearm_def kick_def Let_def)

lemma set_run_db [simp]: "p_db (set_run i f p) = update_runs (\<lambda>r. r_id r = i) f (p_db p)"
  by (simp add: set_run_def with_db_def)

lemma paced_add_run_db:
  "paced_add_run src now jid inp p = (p', e) \<Longrightarrow>
     e \<noteq> None \<and> p_db p' = p_db p
     \<or> e = None \<and> (\<exists>row. add_run (src_uuid src (p_uuids p)) (src_seed src (p_uuids p)) now jid inp (p_db p) = Inr (p_db p', row))"
  by (auto simp: paced_add_run_def Let_def split: sum.splits)

lemma paced_add_run_batches: "t_batches (p_db (fst (paced_add_run src now jid inp p))) = t_batches (p_db p)"
proof -
  obtain p' e where a: "paced_add_run src now jid inp p = (p', e)" by (cases "paced_add_run src now jid inp p") auto
  from paced_add_run_db [OF a] a show ?thesis by (auto elim: add_run_Inr)
qed

lemma release_member_batches: "t_batches (p_db (release_member src now b rep w v p)) = t_batches (p_db p)"
  by (simp add: release_member_def Let_def split_def)

lemma fold_release_batches: "t_batches (p_db (fold (release_member src now b rep w) vs p)) = t_batches (p_db p)"
  by (induction vs arbitrary: p) (simp_all add: release_member_batches)

lemma next_phase_batches:
  "t_batches (p_db (fst (each_until (next_phase_member src now b rep gap) vs p))) = t_batches (p_db p)"
proof (rule each_until_invariant [where I = "\<lambda>q. t_batches (p_db q) = t_batches (p_db p)"])
  fix v and q :: pacer assume "t_batches (p_db q) = t_batches (p_db p)"
  then show "t_batches (p_db (fst (next_phase_member src now b rep gap v q))) = t_batches (p_db p)"
    by (simp add: next_phase_member_def split_def Let_def paced_add_run_batches)
qed simp

lemma advance_batches: "t_batches (p_db (fst (advance src now i p))) = t_batches (p_db p)"
  by (simp add: advance_def Let_def split_def fold_release_batches next_phase_batches
      split: option.splits sequential_step.splits)

lemma settled_batches: "t_batches (p_db (fst (on_member_settled src now i dev p))) = t_batches (p_db p)"
  by (simp add: on_member_settled_def Let_def split_def advance_batches paced_add_run_batches
      split: option.splits list.splits)

lemma on_member_settled_cases:
  assumes b: "batch_by_id (p_db p) i = Some b" "\<not> b_sequential b"
  obtains "on_member_settled src now i dev p = (p, None)"
    | m :: job_row and inp q where "int (length (job_runs_desc (p_db p) (j_id m))) < b_repeat_count b" "p_db q = p_db p"
        "p_db (fst (on_member_settled src now i dev p)) = p_db (fst (paced_add_run src now (j_id m) inp q))"
proof (cases "non_planning (b_status b) \<or> \<not> is_paced b")
  case True
  then show ?thesis using that(1) b by (simp add: on_member_settled_def)
next
  case planning: False
  show ?thesis
  proof (cases "get_where (\<lambda>j. j_batch_id j = Some i \<and> j_device_id j = dev) (t_jobs (p_db p))")
    case None
    then show ?thesis using that(1) b planning by (simp add: on_member_settled_def)
  next
    case (Some m)
    show ?thesis
    proof (cases "job_runs_desc (p_db p) (j_id m)")
      case Nil
      then show ?thesis using that(1) b planning Some by (simp add: on_member_settled_def)
    next
      case (Cons latest rest)
      let ?next = "coalesce (r_batch_repeat latest) 0 + 1"
      show ?thesis
      proof (cases "int (length (latest # rest)) \<ge> b_repeat_count b \<or> ?next \<ge> b_repeat_count b")
        case True
        then show ?thesis using that(1) b planning Some Cons by (simp add: on_member_settled_def Let_def)
      next
        case False
        let ?d = "drawn src (b_interval_min_ms b) (b_interval_max_ms b) p"
        let ?inp = "batch_run_input ?next None None (Some (to_sec now + round_sec (fst ?d))) (Some (fst ?d))"
        have "on_member_settled src now i dev p =
            (case paced_add_run src now (j_id m) ?inp (snd ?d) of
               (p2, Some e) \<Rightarrow> (p2, Some e) | (p2, None) \<Rightarrow> (kick (rearm src now p2), None))"
          using False b planning Some Cons by (simp add: on_member_settled_def Let_def split_def)
        then have "p_db (fst (on_member_settled src now i dev p)) = p_db (fst (paced_add_run src now (j_id m) ?inp (snd ?d)))"
          by (simp split: prod.splits option.splits)
        moreover have "int (length (job_runs_desc (p_db p) (j_id m))) < b_repeat_count b"
          using False Cons by simp
        ultimately show ?thesis using that(2) [of m "snd ?d" ?inp] by simp
      qed
    qed
  qed
qed

section \<open>Releasing a sub-group\<close>

text \<open>The runs of the phase that belong to the sub-group.\<close>

definition releasable :: "member_view list \<Rightarrow> int \<Rightarrow> int \<Rightarrow> ident set" where
  "releasable view rep w =
     {r_id r | r v. v \<in> set view \<and> mv_wave v = w \<and> r \<in> set (mv_runs v) \<and> r_batch_repeat r = Some rep}"

lemma release_member_rows:
  assumes "r' \<in> set (t_runs (p_db (release_member src now b rep w v p)))"
  shows "\<exists>r \<in> set (t_runs (p_db p)). r_id r' = r_id r \<and> (r_id r \<notin> releasable [v] rep w \<longrightarrow> r' = r)"
proof -
  let ?rs = "filter (\<lambda>r. r_batch_repeat r = Some rep) (mv_runs v)"
  have last: "r_id (last ?rs) \<in> releasable [v] rep w" if "?rs \<noteq> []" "mv_wave v = w"
    using last_in_set [OF that(1)] that(2) by (auto simp: releasable_def)
  show ?thesis
  proof (cases "mv_wave v = w \<and> ?rs \<noteq> [] \<and> queued (last ?rs) \<and> r_held (last ?rs)")
    case False
    then have "release_member src now b rep w v p = p"
      by (auto simp: release_member_def Let_def)
    then show ?thesis using assms by auto
  next
    case True
    then obtain delay where
      "p_db (release_member src now b rep w v p) = update_runs (\<lambda>r. r_id r = r_id (last ?rs)) (release_patch now delay) (p_db p)"
      by (auto simp: release_member_def Let_def split_def)
    moreover have "r_id (release_patch now delay r) = r_id r" for r by (simp add: release_patch_def)
    ultimately obtain r where "r \<in> set (t_runs (p_db p))" "r_id r' = r_id r"
      "r_id r = r_id (last ?rs) \<or> r' = r"
      using assms by (auto simp: in_update_where split: if_splits)
    then show ?thesis using last True by (intro bexI [of _ r]) auto
  qed
qed

lemma fold_release_rows:
  assumes "r' \<in> set (t_runs (p_db (fold (release_member src now b rep w) vs p)))"
  shows "\<exists>r \<in> set (t_runs (p_db p)). r_id r' = r_id r \<and> (r_id r \<notin> releasable vs rep w \<longrightarrow> r' = r)"
  using assms
proof (induction vs arbitrary: p)
  case (Cons v vs)
  from Cons.IH [of "release_member src now b rep w v p"] Cons.prems obtain r1
    where r1: "r1 \<in> set (t_runs (p_db (release_member src now b rep w v p)))" "r_id r' = r_id r1"
      "r_id r1 \<notin> releasable vs rep w \<longrightarrow> r' = r1" by auto
  from release_member_rows [OF r1(1)] obtain r where "r \<in> set (t_runs (p_db p))" "r_id r1 = r_id r"
    "r_id r \<notin> releasable [v] rep w \<longrightarrow> r1 = r" by blast
  moreover have "releasable (v # vs) rep w = releasable [v] rep w \<union> releasable vs rep w"
    by (auto simp: releasable_def)
  ultimately show ?case using r1 by auto
qed auto

text \<open>In the other branches \<open>advance\<close> keeps every existing row.\<close>

lemma paced_add_run_rows: "set (t_runs (p_db p)) \<subseteq> set (t_runs (p_db (fst (paced_add_run src now jid inp p))))"
proof -
  obtain p' e where a: "paced_add_run src now jid inp p = (p', e)" by (cases "paced_add_run src now jid inp p") auto
  from paced_add_run_db [OF a] a show ?thesis by (auto elim: add_run_Inr)
qed

lemma next_phase_rows:
  "set (t_runs (p_db p)) \<subseteq> set (t_runs (p_db (fst (each_until (next_phase_member src now b rep gap) vs p))))"
proof (rule each_until_invariant [where I = "\<lambda>q. set (t_runs (p_db p)) \<subseteq> set (t_runs (p_db q))"])
  fix v and q :: pacer assume "set (t_runs (p_db p)) \<subseteq> set (t_runs (p_db q))"
  then show "set (t_runs (p_db p)) \<subseteq> set (t_runs (p_db (fst (next_phase_member src now b rep gap v q))))"
    using paced_add_run_rows by (fastforce simp: next_phase_member_def split_def Let_def)
qed simp

section \<open>Properties\<close>

text \<open>
  The derived batch status means what it says of the members' latest runs: running exactly when
  one runs, terminal exactly when all are, success exactly when all succeeded or were cancelled and
  one succeeded; and the counts add up, the failed ones split into script and farm failures.
\<close>

theorem batch_status_meaning:
  assumes "rs \<noteq> []"
  shows "(compute_batch_status (count_jobs rs) = BRunning \<longleftrightarrow> (\<exists>r \<in> set rs. counted r = RRunning))
    \<and> (terminal_batch (compute_batch_status (count_jobs rs)) \<longleftrightarrow> (\<forall>r \<in> set rs. terminal_status (counted r)))
    \<and> (compute_batch_status (count_jobs rs) = BSuccess \<longleftrightarrow>
         (\<forall>r \<in> set rs. counted r = RSuccess \<or> counted r = RCancelled) \<and> (\<exists>r \<in> set rs. counted r = RSuccess))
    \<and> c_failed_script (count_jobs rs) + c_failed_infra (count_jobs rs) = c_failed (count_jobs rs)
    \<and> c_queued (count_jobs rs) + c_running (count_jobs rs) + c_success (count_jobs rs) + c_failed (count_jobs rs)
       + c_cancelled (count_jobs rs) + c_expired (count_jobs rs) = c_total (count_jobs rs)"
  using compute_status_meaning [OF assms] tally_sum [of rs] by (simp add: count_jobs_facts)

theorem batch_status_meaning_witness:
  "compute_batch_status (count_jobs [None]) = BQueued \<and>
   \<not> terminal_batch (compute_batch_status (count_jobs [None]))"
proof -
  have "compute_batch_status (count_jobs [None]) = BQueued"
    by (simp add: count_jobs_def no_counts_def count_run_def compute_batch_status_def)
  moreover have "\<not> terminal_batch (compute_batch_status (count_jobs [None]))"
    using batch_status_meaning [of "[None]"] by (simp add: counted_def terminal_status_def)
  ultimately show ?thesis by blast
qed

text \<open>
  C4: The planner of a sequential batch is a barrier. It releases a sub-group only when every earlier
  sub-group of the current phase has settled and nothing of the sub-group itself is under way; it
  starts the next phase only when the whole phase has settled and repetitions are left; it waits
  only when something is under way (or nothing was planned yet); and it is done only at the end.
\<close>

theorem sequential_barrier:
  "case plan_sequential_step ms n of
     Release rep w \<Rightarrow> rep = current_phase ms \<and> w \<in> sm_wave ` set ms
       \<and> (\<forall>a \<in> sm_wave ` set ms. a < w \<longrightarrow> wave_settled rep ms a)
       \<and> \<not> list_ex under_way (in_wave rep ms w) \<and> list_ex holding (in_wave rep ms w)
   | NextPhase rep \<Rightarrow> rep = current_phase ms + 1 \<and> 0 < rep \<and> rep < n
       \<and> (\<forall>a \<in> sm_wave ` set ms. wave_settled (current_phase ms) ms a)
   | Wait \<Rightarrow> current_phase ms < 0 \<or> (\<exists>a \<in> sm_wave ` set ms. list_ex under_way (in_wave (current_phase ms) ms a))
   | Done \<Rightarrow> n \<le> current_phase ms + 1 \<and> (\<forall>a \<in> sm_wave ` set ms. wave_settled (current_phase ms) ms a)"
proof (cases "current_phase ms < 0")
  case True
  then show ?thesis by (simp add: plan_sequential_step_def Let_def)
next
  case False
  have ws: "sorted (waves_of ms)" "distinct (waves_of ms)" "set (waves_of ms) = sm_wave ` set ms"
    by (auto simp: waves_of_def)
  show ?thesis
  proof (cases "scan_waves (current_phase ms) ms (waves_of ms)")
    case None
    then have "\<forall>a \<in> sm_wave ` set ms. wave_settled (current_phase ms) ms a"
      using scan_waves_cases(1) [of "current_phase ms" ms "waves_of ms"] ws(3) by simp
    then show ?thesis using None False by (simp add: plan_sequential_step_def Let_def)
  next
    case (Some s)
    then have plan: "plan_sequential_step ms n = s" using False by (simp add: plan_sequential_step_def Let_def)
    obtain as w bs where h: "waves_of ms = as @ w # bs" "\<forall>a \<in> set as. wave_settled (current_phase ms) ms a"
      "s = Wait \<and> list_ex under_way (in_wave (current_phase ms) ms w)
        \<or> s = Release (current_phase ms) w \<and> \<not> list_ex under_way (in_wave (current_phase ms) ms w)
           \<and> list_ex holding (in_wave (current_phase ms) ms w)"
      using scan_waves_cases(2) [OF Some] by blast
    have w: "w \<in> sm_wave ` set ms" unfolding ws(3) [symmetric] h(1) by simp
    have "wave_settled (current_phase ms) ms a" if "a \<in> sm_wave ` set ms" "a < w" for a
      using sorted_split_less [OF ws(1,2) h(1), of a] that ws(3) h(2) by auto
    then show ?thesis using h(3) w plan by auto
  qed
qed

definition demo_members :: "sequential_member list" where
  "demo_members =
     [\<lparr>sm_device_id = ''a'', sm_wave = 0, sm_runs = [\<lparr>mr_repeat = 0, mr_status = RSuccess, mr_held = False\<rparr>]\<rparr>,
      \<lparr>sm_device_id = ''b'', sm_wave = 1, sm_runs = [\<lparr>mr_repeat = 0, mr_status = RQueued, mr_held = True\<rparr>]\<rparr>]"

theorem sequential_barrier_witness:
  "plan_sequential_step demo_members 2 = Release 0 1 \<and> wave_settled 0 demo_members 0"
proof -
  have s: "plan_sequential_step demo_members 2 = Release 0 1" by code_simp
  have "0 \<in> sm_wave ` set demo_members" by (simp add: demo_members_def)
  then show ?thesis using s sequential_barrier [of demo_members 2] by (auto simp: current_phase_def)
qed

text \<open>
  Advancing a sequential batch lets go of a held run only when the planner released exactly that
  run's repetition and sub-group; every other existing run keeps its row.
\<close>

theorem advance_releases_only:
  assumes "tables_wf (p_db p)" "batch_by_id (p_db p) i = Some b"
    and "r \<in> set (t_runs (p_db p))" "r \<notin> set (t_runs (p_db (fst (advance src now i p))))"
  shows "\<exists>v rep. v \<in> set (sequential_members (p_db p) i)
    \<and> plan_sequential_step (map planner_member (sequential_members (p_db p) i)) (b_repeat_count b) = Release rep (mv_wave v)
    \<and> (\<exists>r0 \<in> set (mv_runs v). r_id r0 = r_id r \<and> r_batch_repeat r0 = Some rep)"
proof -
  let ?view = "sequential_members (p_db p) i"
  let ?step = "plan_sequential_step (map planner_member ?view) (b_repeat_count b)"
  have step: "b_sequential b \<and> \<not> non_planning (b_status b)"
    using assms(2-4) by (auto simp: advance_def split: if_splits)
  show ?thesis
  proof (cases ?step)
    case (Release rep w)
    then have rows: "t_runs (p_db (fst (advance src now i p))) = t_runs (p_db (fold (release_member src now b rep w) ?view p))"
      using assms(2) step by (simp add: advance_def Let_def)
    have "r_id r \<in> releasable ?view rep w"
    proof (rule ccontr)
      assume no: "r_id r \<notin> releasable ?view rep w"
      have ids: "map r_id (t_runs (p_db (fold (release_member src now b rep w) vs q))) = map r_id (t_runs (p_db q))" for vs q
      proof (induction vs arbitrary: q)
        case (Cons v vs)
        have "map r_id (t_runs (p_db (release_member src now b rep w v q))) = map r_id (t_runs (p_db q))"
          by (simp add: release_member_def Let_def split_def release_patch_def map_update_where)
        then show ?case using Cons.IH by simp
      qed simp
      have "r_id r \<in> set (map r_id (t_runs (p_db (fold (release_member src now b rep w) ?view p))))"
        unfolding ids using assms(3) by simp
      then obtain r' where r': "r' \<in> set (t_runs (p_db (fold (release_member src now b rep w) ?view p)))" "r_id r' = r_id r"
        by auto
      from fold_release_rows [OF r'(1)] obtain r1 where "r1 \<in> set (t_runs (p_db p))" "r_id r' = r_id r1"
        "r_id r1 \<notin> releasable ?view rep w \<longrightarrow> r' = r1" by blast
      then have "r' = r" using no r'(2) tables_wf_runs_inj [OF assms(1) _ assms(3)] by auto
      then show False using r'(1) assms(4) rows by simp
    qed
    then obtain r0 v where v: "r_id r0 = r_id r" "v \<in> set ?view" "mv_wave v = w" "r0 \<in> set (mv_runs v)"
      "r_batch_repeat r0 = Some rep" by (auto simp: releasable_def)
    then show ?thesis using Release by (intro exI [of _ v] exI [of _ rep]) auto
  next
    case (NextPhase rep)
    then have "set (t_runs (p_db p)) \<subseteq> set (t_runs (p_db (fst (advance src now i p))))"
      using assms(2) step next_phase_rows [of "snd (drawn src (b_interval_min_ms b) (b_interval_max_ms b) p)"]
      by (simp add: advance_def Let_def split_def split: option.splits)
    then show ?thesis using assms(3,4) by blast
  qed (use assms step in \<open>simp_all add: advance_def Let_def\<close>)
qed

definition demo_job :: "ident \<Rightarrow> int \<Rightarrow> job_row" where
  "demo_job i n = \<lparr>j_id = i, j_kind = JkScript, j_script_id = None, j_workflow_name = None, j_workflow_doc = None,
     j_device_id = i, j_params = None, j_batch_id = Some ''b'', j_batch_seq = Some n, j_schedule_id = None,
     j_parent_workflow_job_id = None, j_step_seq = None, j_script_name = None, j_script_version = None,
     j_triggered_by_job_id = None, j_root_job_id = None, j_depth = 0, j_trigger_key = None, j_created_by = None,
     j_created_at = 0, j_latest_run_id = Some (CHR ''r'' # i), j_run_count = 1\<rparr>"

definition demo_member_run :: "ident \<Rightarrow> int \<Rightarrow> run_status \<Rightarrow> bool \<Rightarrow> run_row" where
  "demo_member_run i wave st held = \<lparr>r_id = CHR ''r'' # i, r_job_id = i, r_seq = 1, r_trigger = TrBatch, r_status = st,
     r_device_id = i, r_script_name = None, r_priority = 0, r_created_at = 0, r_started_at = None,
     r_finished_at = None, r_heartbeat_expires_at = None, r_expires_at = None, r_not_before = None,
     r_batch_repeat = Some 0, r_batch_wave = Some wave, r_held = held, r_paced_delay_ms = None, r_result = None,
     r_error = None, r_failure_class = None, r_error_phase = None, r_infra_attempts = 0, r_seed = 0,
     r_peak_rss_bytes = None, r_max_concurrent = None, r_runtime_override = None, r_result_status = None,
     r_result_bytes = None, r_result_summary = None, r_result_issues = None, r_resumed_from_run_id = None,
     r_resumed_from_step = None\<rparr>"

definition demo_sequential :: "batch_status \<Rightarrow> int \<Rightarrow> batch_row" where
  "demo_sequential st n = \<lparr>b_id = ''b'', b_concurrency = 0, b_status = st, b_repeat_count = n, b_interval_min_ms = 0,
     b_interval_max_ms = 0, b_device_interval_ms = 1000, b_device_delay_min_ms = 0, b_device_delay_max_ms = 0,
     b_wave_size = 1, b_sequential = True, b_finished_at = None\<rparr>"

definition demo_pacer :: "batch_status \<Rightarrow> run_status \<Rightarrow> run_status \<Rightarrow> pacer" where
  "demo_pacer st sa sb = \<lparr>p_db = \<lparr>t_jobs = [demo_job ''a'' 0, demo_job ''b'' 1],
       t_runs = [demo_member_run ''a'' 0 sa False, demo_member_run ''b'' 1 sb (sb = RQueued)],
       t_devices = [], t_batches = [demo_sequential st 2]\<rparr>,
     p_timer = None, p_kicks = 0, p_events = [], p_draws = 0, p_uuids = 0\<rparr>"

definition demo_sources :: sources where
  "demo_sources = \<lparr>src_random = (\<lambda>_. 0), src_uuid = (\<lambda>n. show_int (int n)), src_seed = (\<lambda>_. 0), src_fallback_ms = 120000\<rparr>"

theorem advance_releases_only_witness:
  "map r_held (t_runs (p_db (demo_pacer BRunning RSuccess RQueued))) = [False, True] \<and>
   map r_held (t_runs (p_db (fst (advance demo_sources 5000 ''b'' (demo_pacer BRunning RSuccess RQueued))))) = [False, False] \<and>
   (\<exists>v \<in> set (sequential_members (p_db (demo_pacer BRunning RSuccess RQueued)) ''b''). mv_wave v = 1)"
proof -
  let ?p = "demo_pacer BRunning RSuccess RQueued"
  let ?r = "demo_member_run ''b'' 1 RQueued True"
  have wf: "tables_wf (p_db ?p)" by code_simp
  have b: "batch_by_id (p_db ?p) ''b'' = Some (demo_sequential BRunning 2)" by code_simp
  have r: "?r \<in> set (t_runs (p_db ?p))" by (simp add: demo_pacer_def)
  have held: "map r_held (t_runs (p_db ?p)) = [False, True]"
    "map r_held (t_runs (p_db (fst (advance demo_sources 5000 ''b'' ?p)))) = [False, False]" by code_simp+
  have "r_held ?r" by (simp add: demo_member_run_def)
  then have "?r \<notin> set (t_runs (p_db (fst (advance demo_sources 5000 ''b'' ?p))))"
    using held(2) by (metis (no_types, lifting) image_eqI list.set_map empty_iff insert_iff list.set(1) list.simps(15))
  from advance_releases_only [OF wf b r this] obtain v rep
    where v: "v \<in> set (sequential_members (p_db ?p) ''b'')"
      "plan_sequential_step (map planner_member (sequential_members (p_db ?p) ''b'')) (b_repeat_count (demo_sequential BRunning 2))
         = Release rep (mv_wave v)" by blast
  moreover have "plan_sequential_step (map planner_member (sequential_members (p_db ?p) ''b'')) (b_repeat_count (demo_sequential BRunning 2))
      = Release 0 1" by code_simp
  ultimately show ?thesis using held by auto
qed

text \<open>
  C21: Recomputing a batch with members stores the status derived from the members' latest runs as
  they are after the pacer has planned, except that a stopping batch stays stopping until the
  derived status is terminal; the finish time is set once, at the first terminal status; and the
  stored status is what is announced.
\<close>

theorem recompute_stores_derived:
  assumes "batch_by_id (p_db p) i = Some b" "list_by_batch (p_db p) i \<noteq> []"
    and "recompute_batch_status src now i settled p = (p', None)"
  shows "let ms = list_by_batch (p_db p) i; counts = count_jobs (latest_member_runs (p_db p') ms);
             status = compute_batch_status counts;
             stored = (if b_status b = BStopping \<and> \<not> terminal_batch status then BStopping else status)
         in (\<exists>b'. batch_by_id (p_db p') i = Some b' \<and> b_status b' = stored
              \<and> b_finished_at b' = (if terminal_batch status \<and> b_finished_at b = None then Some (to_sec now) else b_finished_at b))
            \<and> p_events p' \<noteq> [] \<and> last (p_events p') = \<lparr>be_batch_id = i, be_status = stored, be_counts = counts\<rparr>"
proof -
  obtain p1 where p1: "(if truthy_str settled then on_member_settled src now i (the settled) p else (p, None)) = (p1, None)"
    using assms by (cases "if truthy_str settled then on_member_settled src now i (the settled) p else (p, None)")
      (auto simp: recompute_batch_status_def Let_def split: option.splits)
  have "t_batches (p_db p1) = t_batches (p_db p)"
    using p1 settled_batches [of src now i "the settled" p] by (auto split: if_splits)
  then have b1: "batch_by_id (p_db p1) i = Some b" using assms(1) by (simp add: batch_by_id_def)
  have bid: "b_id b = i" using assms(1) by (auto simp: batch_by_id_def dest: find_Some_in)
  have upd: "batch_by_id (update_batches (\<lambda>x. b_id x = i) f d) i = map_option f (batch_by_id d i)"
    if "\<And>x. b_id (f x) = b_id x" for f d
  proof -
    have "batch_by_id (update_batches (\<lambda>x. b_id x = i) f d) i
        = map_option (\<lambda>x. if b_id x = i then f x else x) (batch_by_id d i)"
      unfolding batch_by_id_def update_tables by (rule find_update_where) (rule that)
    also have "\<dots> = map_option f (batch_by_id d i)"
      by (auto simp: batch_by_id_def dest: find_Some_in intro!: option.map_cong)
    finally show ?thesis .
  qed
  have latest: "latest_member_runs (update_batches P f d) ms = latest_member_runs d ms" for P f d ms
  proof -
    have "run_by_id (update_batches P f d) = run_by_id d" by (simp add: fun_eq_iff run_by_id_def)
    then show ?thesis by (simp add: latest_member_runs_def latest_runs_def cong: if_cong)
  qed
  define status where "status = compute_batch_status (count_jobs (latest_member_runs (p_db p1) (list_by_batch (p_db p) i)))"
  define counts where "counts = count_jobs (latest_member_runs (p_db p1) (list_by_batch (p_db p) i))"
  define still where "still \<longleftrightarrow> b_status b = BStopping \<and> \<not> terminal_batch status"
  define patch where "patch r = r\<lparr>b_status := (if \<not> still \<and> b_status b \<noteq> status then status else b_status r),
      b_finished_at := (if terminal_batch status \<and> b_finished_at b = None then Some (to_sec now) else b_finished_at r)\<rparr>" for r :: batch_row
  have "recompute_batch_status src now i settled p =
      (emit_batch i (if \<not> still then status else b_status b) counts (set_batch i patch p1), None)"
    using assms(1,2) p1
    by (simp add: recompute_batch_status_def Let_def patch_def [abs_def] still_def status_def counts_def cong: if_cong)
  then have res: "p' = emit_batch i (if \<not> still then status else b_status b) counts (set_batch i patch p1)"
    using assms(3) by simp
  have runs: "latest_member_runs (p_db p') (list_by_batch (p_db p) i) = latest_member_runs (p_db p1) (list_by_batch (p_db p) i)"
    by (simp add: res emit_batch_def set_batch_def with_db_def latest)
  have row: "batch_by_id (p_db p') i = Some (patch b)"
    using b1 by (simp add: res emit_batch_def set_batch_def with_db_def upd patch_def)
  have ev: "last (p_events p') = \<lparr>be_batch_id = i, be_status = (if \<not> still then status else b_status b), be_counts = counts\<rparr>"
    "p_events p' \<noteq> []"
    by (simp_all add: res emit_batch_def)
  show ?thesis
    unfolding Let_def runs counts_def [symmetric] status_def [symmetric, folded counts_def]
    using row ev by (auto simp: patch_def still_def counts_def [symmetric] status_def [symmetric, folded counts_def])
qed

theorem recompute_stores_derived_witness:
  "\<exists>b'. batch_by_id (p_db (fst (recompute_batch_status demo_sources 5000 ''b'' None (demo_pacer BRunning RSuccess RFailed)))) ''b'' = Some b'
     \<and> b_status b' = BFailed \<and> b_finished_at b' = Some 5"
proof -
  let ?p = "demo_pacer BRunning RSuccess RFailed"
  let ?q = "fst (recompute_batch_status demo_sources 5000 ''b'' None ?p)"
  have b: "batch_by_id (p_db ?p) ''b'' = Some (demo_sequential BRunning 2)" "list_by_batch (p_db ?p) ''b'' \<noteq> []" by code_simp+
  have "snd (recompute_batch_status demo_sources 5000 ''b'' None ?p) = None" by code_simp
  then have r: "recompute_batch_status demo_sources 5000 ''b'' None ?p = (?q, None)" by (simp add: prod_eq_iff)
  have st: "compute_batch_status (count_jobs (latest_member_runs (p_db ?q) (list_by_batch (p_db ?p) ''b''))) = BFailed" by code_simp
  show ?thesis
    using recompute_stores_derived [OF b r] unfolding Let_def st by (auto simp: demo_sequential_def terminal_batch_def)
qed

text \<open>
  In a paced batch that is not sequential a settling member gets its next repetition only while it
  has fewer runs than the batch repeats: no job ever grows past the repeat count this way.
\<close>

theorem repetitions_bounded:
  assumes "batch_by_id (p_db p) i = Some b" "\<not> b_sequential b"
  shows "int (length (runs_of (p_db (fst (on_member_settled src now i dev p))) jid))
     \<le> max (int (length (runs_of (p_db p) jid))) (b_repeat_count b)"
proof -
  have grow: "int (length (runs_of (p_db (fst (paced_add_run src now k inp q))) jid))
      \<le> int (length (runs_of (p_db q) jid)) + (if k = jid then 1 else 0)" for k inp q
  proof -
    obtain q' e where a: "paced_add_run src now k inp q = (q', e)" by (cases "paced_add_run src now k inp q") auto
    from paced_add_run_db [OF a] a show ?thesis by (auto elim!: add_run_Inr simp: runs_of_def)
  qed
  have len: "length (job_runs_desc d k) = length (runs_of d k)" for d k by (simp add: job_runs_desc_def)
  consider "on_member_settled src now i dev p = (p, None)"
    | m :: job_row and inp q where "int (length (job_runs_desc (p_db p) (j_id m))) < b_repeat_count b" "p_db q = p_db p"
        "p_db (fst (on_member_settled src now i dev p)) = p_db (fst (paced_add_run src now (j_id m) inp q))"
    using assms by (rule on_member_settled_cases)
  then show ?thesis
  proof cases
    case 1
    then show ?thesis by simp
  next
    case 2
    then show ?thesis using grow [of "j_id m" inp q] len [of "p_db p" "j_id m"] by (auto split: if_splits)
  qed
qed

theorem repetitions_bounded_witness:
  "length (runs_of (p_db (fst (on_member_settled demo_sources 5000 ''b'' ''a''
      ((demo_pacer BRunning RSuccess RSuccess)\<lparr>p_db := (p_db (demo_pacer BRunning RSuccess RSuccess))\<lparr>
         t_batches := [(demo_sequential BRunning 2)\<lparr>b_sequential := False\<rparr>]\<rparr>\<rparr>)))) ''a'') = 2 \<and> (2::int) \<le> 2"
proof -
  let ?p = "(demo_pacer BRunning RSuccess RSuccess)\<lparr>p_db := (p_db (demo_pacer BRunning RSuccess RSuccess))\<lparr>
         t_batches := [(demo_sequential BRunning 2)\<lparr>b_sequential := False\<rparr>]\<rparr>\<rparr>"
  have b: "batch_by_id (p_db ?p) ''b'' = Some ((demo_sequential BRunning 2)\<lparr>b_sequential := False\<rparr>)"
    by (simp add: batch_by_id_def demo_sequential_def)
  have one: "length (runs_of (p_db ?p) ''a'') = 1" by code_simp
  have two: "2 \<le> length (runs_of (p_db (fst (on_member_settled demo_sources 5000 ''b'' ''a'' ?p))) ''a'')" by code_simp
  from repetitions_bounded [OF b, of demo_sources 5000 "''a''" "''a''"] one two
  show ?thesis by (simp add: demo_sequential_def)
qed

text \<open>
  When two members of a paced batch that is not sequential are on one device (a rebind puts them
  there), a settling member is looked up by its device, so the later of the two in the table never
  gets a repetition planned, whichever of them settled.
\<close>

theorem shared_device_shadows_member:
  assumes "batch_by_id (p_db p) i = Some b" "\<not> b_sequential b"
    and "get_where (\<lambda>j. j_batch_id j = Some i \<and> j_device_id j = dev) (t_jobs (p_db p)) = Some m1" "jid \<noteq> j_id m1"
  shows "runs_of (p_db (fst (on_member_settled src now i dev p))) jid = runs_of (p_db p) jid"
proof -
  have keep: "runs_of (p_db (fst (paced_add_run src now (j_id m1) inp q))) jid = runs_of (p_db q) jid" for inp q
  proof -
    obtain q' e where a: "paced_add_run src now (j_id m1) inp q = (q', e)"
      by (cases "paced_add_run src now (j_id m1) inp q") auto
    from paced_add_run_db [OF a] a assms(4) show ?thesis by (auto elim!: add_run_Inr simp: runs_of_def)
  qed
  show ?thesis
    using assms keep by (simp add: on_member_settled_def Let_def split_def split: option.splits list.splits)
qed

theorem shared_device_shadows_member_witness:
  "runs_of (p_db (fst (on_member_settled demo_sources 5000 ''b'' ''a''
      ((demo_pacer BRunning RSuccess RSuccess)\<lparr>p_db := (p_db (demo_pacer BRunning RSuccess RSuccess))\<lparr>
         t_jobs := [demo_job ''a'' 0, (demo_job ''b'' 1)\<lparr>j_device_id := ''a''\<rparr>],
         t_batches := [(demo_sequential BRunning 2)\<lparr>b_sequential := False\<rparr>]\<rparr>\<rparr>)))) ''b''
   = [demo_member_run ''b'' 1 RSuccess False]"
proof -
  let ?p = "(demo_pacer BRunning RSuccess RSuccess)\<lparr>p_db := (p_db (demo_pacer BRunning RSuccess RSuccess))\<lparr>
         t_jobs := [demo_job ''a'' 0, (demo_job ''b'' 1)\<lparr>j_device_id := ''a''\<rparr>],
         t_batches := [(demo_sequential BRunning 2)\<lparr>b_sequential := False\<rparr>]\<rparr>\<rparr>"
  have b: "batch_by_id (p_db ?p) ''b'' = Some ((demo_sequential BRunning 2)\<lparr>b_sequential := False\<rparr>)"
    by (simp add: batch_by_id_def demo_sequential_def)
  have m: "get_where (\<lambda>j. j_batch_id j = Some ''b'' \<and> j_device_id j = ''a'') (t_jobs (p_db ?p)) = Some (demo_job ''a'' 0)"
    by (simp add: demo_job_def)
  have "runs_of (p_db ?p) ''b'' = [demo_member_run ''b'' 1 RSuccess False]"
    by (simp add: runs_of_def demo_pacer_def demo_member_run_def)
  then show ?thesis
    using shared_device_shadows_member [OF b _ m, of "''b''" demo_sources 5000] by (simp add: demo_job_def)
qed

end
