(* ===== verification/FailureClass.thy ===== *)
theory FailureClass
  imports Prelude "HOL-Library.Sublist"
begin

text \<open>
  Whose fault a failure is (\<open>packages/core/src/jobs/failure-class.ts\<close>, with the text match
  \<open>isDeviceGone\<close> of \<open>packages/adb/src/errors.ts\<close>): the farm's, the queue's or the script's, and
  whether the device is blamed. A thrown value is seen through its optional code and message.
\<close>

datatype failure_class = Infra | Script | Load

definition class_name :: "failure_class \<Rightarrow> string" where
  "class_name c = (case c of Infra \<Rightarrow> ''infra'' | Script \<Rightarrow> ''script'' | Load \<Rightarrow> ''load'')"

record classified_failure =
  cf_class :: failure_class
  cf_code :: string
  cf_message :: string
  cf_blame_device :: bool

definition INFRA_CODES :: "string list" where
  "INFRA_CODES = [''E_ADB_TIMEOUT'', ''E_ADB_CONNECT_TIMEOUT'', ''E_ADB_HANDSHAKE_TIMEOUT'', ''E_ADB_UNAVAILABLE'',
     ''E_DEVICE_NOT_READY'', ''node_offline'', ''device_not_found'', ''device_not_ready'', ''engine_not_found'',
     ''port_range_exhausted'', ''CHILD_CRASHED'', ''DEVICE_DISCONNECTED'', ''HEARTBEAT_EXPIRED'',
     ''SESSION_ACQUIRE_FAILED'', ''STARTUP_TIMEOUT'']"

definition NOT_THE_DEVICES_FAULT :: "string list" where
  "NOT_THE_DEVICES_FAULT = [''E_ADB_CONNECT_TIMEOUT'', ''E_ADB_UNAVAILABLE'', ''node_offline'',
     ''port_range_exhausted'', ''engine_not_found'']"

definition LOAD_CODES :: "string list" where
  "LOAD_CODES = [''E_ADB_BUSY'']"

definition SCRIPT_CODES :: "string list" where
  "SCRIPT_CODES = [''APP_CRASHED'', ''MEMORY_LIMIT'']"

definition TIMEOUT_CODE :: string where
  "TIMEOUT_CODE = ''TIMEOUT''"

text \<open>\<open>/device '[^']*' not found|device not found|device offline/i\<close>, tried at every position.\<close>

definition ascii_lower :: "char \<Rightarrow> char" where
  "ascii_lower c = (let n = (of_char c :: nat) in if 65 \<le> n \<and> n \<le> 90 then char_of (n + 32) else c)"

definition quoted_not_found :: "string \<Rightarrow> bool" where
  "quoted_not_found s \<longleftrightarrow> prefix ''device '' s \<and> (case drop 7 s of [] \<Rightarrow> False
     | q # rest \<Rightarrow> q = CHR 0x27 \<and> prefix (CHR 0x27 # '' not found'') (dropWhile (\<lambda>c. c \<noteq> CHR 0x27) rest))"

definition gone_here :: "string \<Rightarrow> bool" where
  "gone_here s \<longleftrightarrow> quoted_not_found s \<or> prefix ''device not found'' s \<or> prefix ''device offline'' s"

definition is_device_gone :: "string \<Rightarrow> bool" where
  "is_device_gone message \<longleftrightarrow> list_ex gone_here (suffixes (map ascii_lower message))"

definition classify_failure :: "bool \<Rightarrow> string option \<Rightarrow> string \<Rightarrow> classified_failure" where
  "classify_failure timeout_is_infra thrown_code message =
     (let code = coalesce thrown_code ''UNKNOWN'';
          mk = (\<lambda>c blame. \<lparr>cf_class = c, cf_code = code, cf_message = message, cf_blame_device = blame\<rparr>) in
      if code = TIMEOUT_CODE then (if timeout_is_infra then mk Infra True else mk Script False)
      else if code \<in> set LOAD_CODES then mk Load False
      else if code \<in> set INFRA_CODES then mk Infra (code \<notin> set NOT_THE_DEVICES_FAULT)
      else if is_device_gone message then mk Infra True
      else if code \<in> set SCRIPT_CODES then mk Script False
      else mk Script False)"

section \<open>Lemmas\<close>

lemma blame_only_infra: "cf_blame_device (classify_failure t c m) \<Longrightarrow> cf_class (classify_failure t c m) = Infra"
  by (auto simp: classify_failure_def Let_def split: if_splits)



end
