(* ===== verification/ExecutorHost.thy ===== *)
theory ExecutorHost
  imports Activity BatchStatus FailureClass
begin

text \<open>
  The executor host (\<open>packages/core/src/jobs/executor-host.ts\<close>, \<open>jobs/result-store.ts\<close> and
  \<open>pickRebindDevice\<close> of \<open>groups/dispatch.ts\<close>): it wraps every claimed run, settles it, rebinds it
  after a farm failure, and force-stops a cancelled one. Each entry of the running table carries the
  number of the JavaScript object it is, because the code compares entries by identity in some places
  and by run id in others. Callbacks to the outside are recorded as events.
\<close>

section \<open>Recording a result\<close>

datatype result_status = UndeclaredR | ValidR | InvalidR | PartialR | OversizeR

definition result_status_name :: "result_status \<Rightarrow> string" where
  "result_status_name s = (case s of UndeclaredR \<Rightarrow> ''undeclared'' | ValidR \<Rightarrow> ''valid''
     | InvalidR \<Rightarrow> ''invalid'' | PartialR \<Rightarrow> ''partial'' | OversizeR \<Rightarrow> ''oversize'')"

record result_outcome =
  ro_status :: "result_status option"
  ro_bytes :: int
  ro_issues :: "(string \<times> string) list option"

record recorded_result =
  rr_result :: jsval
  rr_status :: result_status
  rr_bytes :: int
  rr_summary :: "string option"
  rr_issues :: "(string \<times> string) list option"

definition MAX_ISSUES :: nat where "MAX_ISSUES = 20"
definition MAX_ISSUE_MESSAGE_CHARS :: nat where "MAX_ISSUE_MESSAGE_CHARS = 200"

text \<open>The ellipsis character is passed in, as the bytes it prints as.\<close>

definition truncate_issues :: "string \<Rightarrow> (string \<times> string) list \<Rightarrow> (string \<times> string) list" where
  "truncate_issues dots issues =
     map (\<lambda>(path, msg). (path, if length msg > MAX_ISSUE_MESSAGE_CHARS
                                then take (MAX_ISSUE_MESSAGE_CHARS - 1) msg @ dots else msg))
       (take MAX_ISSUES issues)"

text \<open>
  \<open>recordResult\<close>; \<open>measured\<close> is the encoded length of a value, \<open>summarise\<close> the one-line summary. An
  outcome whose status is none of the known ones counts as undeclared.
\<close>

definition record_result ::
    "string \<Rightarrow> (jsval \<Rightarrow> int) \<Rightarrow> (jsval \<Rightarrow> string option) \<Rightarrow> int \<Rightarrow> jsval \<Rightarrow> result_outcome option
      \<Rightarrow> result_status option \<Rightarrow> recorded_result option" where
  "record_result dots measured summarise max_bytes value outcome existing =
     (let received = (Option.bind outcome ro_status \<noteq> Some OversizeR \<and> value \<noteq> Undefined);
          bytes = (if received then measured value else (case outcome of None \<Rightarrow> 0 | Some o' \<Rightarrow> ro_bytes o'));
          claimed = coalesce (Option.bind outcome ro_status) UndeclaredR;
          status = (if bytes > max_bytes then OversizeR else claimed) in
      if status = PartialR \<and> existing = Some ValidR then None
      else
        let result = (if status = OversizeR then Null else if received then value else Null);
            reported = (case outcome of None \<Rightarrow> [] | Some o' \<Rightarrow> coalesce (ro_issues o') []);
            issues = (if status = InvalidR \<and> reported \<noteq> [] then Some (truncate_issues dots reported) else None) in
        Some \<lparr>rr_result = result, rr_status = status, rr_bytes = bytes,
              rr_summary = (if result \<noteq> Null then summarise result else None), rr_issues = issues\<rparr>)"

section \<open>Choosing another device\<close>

text \<open>\<open>pickRebindDevice\<close>: the first idle online device among the batch's members, in batch order.\<close>

definition pick_rebind_device :: "db \<Rightarrow> job_row \<Rightarrow> ident option" where
  "pick_rebind_device d job =
     (if \<not> truthy_str (j_batch_id job) then None
      else let candidates = filter (\<lambda>i. i \<noteq> j_device_id job)
             (rev (remdups (rev (map j_device_id (list_by_batch d (the (j_batch_id job))))))) in
           find (\<lambda>i. device_online d i \<and> \<not> list_ex (\<lambda>r. r_device_id r = i \<and> running r) (t_runs d)) candidates)"

section \<open>State\<close>

record running_entry =
  en_job :: job_row
  en_run :: run_row
  en_object :: nat
  en_hold :: bool
  en_cancelling :: bool
  en_aborted :: bool

datatype host_event =
    HJobStatus ident ident run_status
  | HJobFinished ident ident settle_status
  | HBatchChanged ident "ident option"
  | HRebound ident ident ident string
  | HHealthNote string string
  | HKick
  | HKickLater millis
  | HKill ident
  | HHoldReleased nat
  | HWatcherNotify ident run_status

record host =
  h_db :: db
  h_registry :: registry
  h_running :: "(ident, running_entry) jmap"
  h_crash :: "ident list"
  h_kill :: "ident list"
  h_warned :: "ident list"
  h_objects :: nat
  h_events :: "host_event list"

record host_config =
  hc_known :: "job_row \<Rightarrow> bool"
  hc_timeout_is_infra :: bool
  hc_rebind_on_infra :: bool
  hc_max_rebinds :: int
  hc_backoff_ms :: millis
  hc_serial :: "ident \<Rightarrow> string option"
  hc_ttl :: int
  hc_max_result_bytes :: int
  hc_measure :: "jsval \<Rightarrow> int"
  hc_summary :: "job_row \<Rightarrow> jsval \<Rightarrow> string option"
  hc_issue_value :: "(string \<times> string) list \<Rightarrow> jsval"
  hc_dots :: string

record settle_data =
  sd_result :: jsval
  sd_error :: "string option"
  sd_code :: "string option"
  sd_phase :: "string option"
  sd_peak_rss :: "int option"
  sd_outcome :: "result_outcome option"

definition no_data :: settle_data where
  "no_data = \<lparr>sd_result = Undefined, sd_error = None, sd_code = None, sd_phase = None, sd_peak_rss = None,
     sd_outcome = None\<rparr>"

definition activity_id_for :: "job_row \<Rightarrow> run_row \<Rightarrow> ident" where
  "activity_id_for job run = (if j_kind job = JkWorkflow then ''workflow-job:'' @ r_id run else ''job:'' @ r_id run)"

definition emit :: "host_event list \<Rightarrow> host \<Rightarrow> host" where
  "emit es h = h\<lparr>h_events := h_events h @ es\<rparr>"

definition end_marker :: "millis \<Rightarrow> ident \<Rightarrow> ident \<Rightarrow> host \<Rightarrow> host" where
  "end_marker now dev i h = h\<lparr>h_registry := fst (end_activity now dev i (h_registry h))\<rparr>"

section \<open>Settling\<close>

definition host_requeue ::
    "host_config \<Rightarrow> millis \<Rightarrow> job_row \<Rightarrow> run_row \<Rightarrow> string \<Rightarrow> host \<Rightarrow> host" where
  "host_requeue cfg now job run code h =
     (let new_dev = coalesce (pick_rebind_device (h_db h) job) (j_device_id job);
          (d, requeued) = requeue_for_rebind (r_id run) new_dev (h_db h);
          h1 = end_marker now (j_device_id job) (activity_id_for job run) (h\<lparr>h_db := d\<rparr>);
          h2 = (case requeued of None \<Rightarrow> h1 | Some r \<Rightarrow> emit [HJobStatus (j_id job) (r_id r) (r_status r)] h1);
          h3 = emit [HRebound (j_device_id job) (j_id job) new_dev code] h2;
          h4 = (if truthy_str (j_batch_id job) then emit [HBatchChanged (the (j_batch_id job)) None] h3 else h3)
      in emit [if hc_backoff_ms cfg > 0 then HKickLater (hc_backoff_ms cfg) else HKick] h4)"

text \<open>Forgetting the entry stops its heartbeat and its force-stop timers and releases its hold.\<close>

definition forget_entry :: "ident \<Rightarrow> host \<Rightarrow> host" where
  "forget_entry i h =
     (let h1 = (case jm_get (h_running h) i of None \<Rightarrow> h
                | Some e \<Rightarrow> (let h' = h\<lparr>h_running := jm_del i (h_running h)\<rparr> in
                    if en_hold e then emit [HHoldReleased (en_object e)] h' else h'))
      in h1\<lparr>h_crash := removeAll i (h_crash h1), h_kill := removeAll i (h_kill h1),
            h_warned := removeAll i (h_warned h1)\<rparr>)"

definition existing_result_status :: "run_row \<Rightarrow> result_status option" where
  "existing_result_status run =
     find (\<lambda>s. r_result_status run = Some (result_status_name s)) [UndeclaredR, ValidR, InvalidR, PartialR, OversizeR]"

definition settle_input :: "host_config \<Rightarrow> job_row \<Rightarrow> run_row \<Rightarrow> settle_status \<Rightarrow> settle_data \<Rightarrow> string option \<Rightarrow> settle_run_input" where
  "settle_input cfg job run status data fc =
     (let recorded = (if status = StSuccess \<or> sd_outcome data \<noteq> None
            then record_result (hc_dots cfg) (hc_measure cfg) (hc_summary cfg job) (hc_max_result_bytes cfg)
                   (sd_result data) (sd_outcome data) (existing_result_status run)
            else None) in
      \<lparr>si_status = status,
       si_result = (case recorded of Some r \<Rightarrow> Some (if rr_result r = Null then None else Some (rr_result r))
                    | None \<Rightarrow> (if sd_result data = Undefined then None
                               else Some (if sd_result data = Null then None else Some (sd_result data)))),
       si_error = sd_error data, si_failure_class = Some fc,
       si_error_phase = map_option Some (sd_phase data),
       si_peak_rss_bytes = map_option Some (sd_peak_rss data),
       si_result_status = map_option (\<lambda>r. Some (result_status_name (rr_status r))) recorded,
       si_result_bytes = map_option (\<lambda>r. Some (rr_bytes r)) recorded,
       si_result_summary = map_option rr_summary recorded,
       si_result_issues = map_option (\<lambda>r. map_option (hc_issue_value cfg) (rr_issues r)) recorded\<rparr>)"

definition host_settle ::
    "host_config \<Rightarrow> millis \<Rightarrow> job_row \<Rightarrow> run_row \<Rightarrow> settle_status \<Rightarrow> settle_data \<Rightarrow> host \<Rightarrow> host" where
  "host_settle cfg now job run status data h =
     (let h0 = forget_entry (r_id run) h;
          cl = classify_failure (hc_timeout_is_infra cfg) (sd_code data) (coalesce (sd_error data) ''[object Object]'');
          failed = (status = StFailed);
          h1 = (if failed \<and> cf_blame_device cl \<and> truthy_str (hc_serial cfg (j_device_id job))
                then emit [HHealthNote (the (hc_serial cfg (j_device_id job))) (cf_code cl)] h0 else h0) in
      if failed \<and> cf_class cl = Infra \<and> truthy_str (j_batch_id job) \<and> hc_rebind_on_infra cfg
         \<and> r_infra_attempts run < hc_max_rebinds cfg
      then host_requeue cfg now job run (cf_code cl) h1
      else
        let (d, settled) = settle_run now (r_id run)
              (settle_input cfg job run status data (if failed then Some (class_name (cf_class cl)) else None)) (h_db h1);
            h2 = end_marker now (j_device_id job) (activity_id_for job run) (h1\<lparr>h_db := d\<rparr>);
            h3 = (case settled of None \<Rightarrow> h2
                  | Some r \<Rightarrow> emit [HJobStatus (j_id job) (r_id r) (r_status r), HWatcherNotify (r_id r) (r_status r)] h2);
            h4 = emit [HJobFinished (j_device_id job) (j_id job) status] h3;
            h5 = (if truthy_str (j_batch_id job)
                  then emit [HBatchChanged (the (j_batch_id job)) (Some (j_device_id job))] h4 else h4)
        in emit [HKick] h5)"

section \<open>The host's operations\<close>

definition host_start :: "host_config \<Rightarrow> millis \<Rightarrow> job_row \<Rightarrow> run_row \<Rightarrow> host \<Rightarrow> host" where
  "host_start cfg now job run h =
     (if j_kind job \<noteq> JkWorkflow \<and> \<not> (truthy_str (j_script_id job) \<and> hc_known cfg job)
      then host_settle cfg now job run StFailed
             (no_data\<lparr>sd_error := Some (''unknown_script: '' @ (case j_script_id job of Some s \<Rightarrow> s | None \<Rightarrow> ''script'')),
                      sd_code := Some ''unknown_script''\<rparr>) h
      else h\<lparr>h_running := jm_set (r_id run) \<lparr>en_job = job, en_run = run, en_object = h_objects h, en_hold = False,
               en_cancelling = False, en_aborted = False\<rparr> (h_running h),
             h_objects := h_objects h + 1\<rparr>)"

text \<open>The readiness hold arrives later; the closure assigns it to the entry object it created.\<close>

definition hold_acquired :: "ident \<Rightarrow> nat \<Rightarrow> host \<Rightarrow> host" where
  "hold_acquired i obj h =
     (case jm_get (h_running h) i of None \<Rightarrow> h
      | Some e \<Rightarrow> if en_object e = obj then h\<lparr>h_running := jm_set i (e\<lparr>en_hold := True\<rparr>) (h_running h)\<rparr> else h)"

text \<open>
  The executor's promise settles: the closure of \<open>start\<close> holds the job and run it was started with,
  and only asks whether some entry with the run's id is in the table.
\<close>

definition executor_done ::
    "host_config \<Rightarrow> millis \<Rightarrow> job_row \<Rightarrow> run_row \<Rightarrow> settle_status \<Rightarrow> settle_data \<Rightarrow> host \<Rightarrow> host" where
  "executor_done cfg now job run status data h =
     (if jm_get (h_running h) (r_id run) = None then h else host_settle cfg now job run status data h)"

definition executor_rejected_status :: "string option \<Rightarrow> settle_status" where
  "executor_rejected_status code = (if code = Some ''job_cancelled'' then StCancelled else StFailed)"

text \<open>The interval of an entry that is still in the table.\<close>

definition heartbeat_tick :: "host_config \<Rightarrow> millis \<Rightarrow> ident \<Rightarrow> host \<Rightarrow> host" where
  "heartbeat_tick cfg now i h =
     (case jm_get (h_running h) i of None \<Rightarrow> h
      | Some e \<Rightarrow>
          h\<lparr>h_db := fst (renew_heartbeat (to_sec now) (r_id (en_run e)) (hc_ttl cfg) (h_db h)),
            h_registry := fst (touch_activity now (j_device_id (en_job e)) (activity_id_for (en_job e) (en_run e)) (h_registry h))\<rparr>)"

definition host_abort :: "ident \<Rightarrow> host \<Rightarrow> host \<times> bool" where
  "host_abort i h =
     (case jm_get (h_running h) i of None \<Rightarrow> (h, False)
      | Some e \<Rightarrow>
          if en_cancelling e then (h, True)
          else (h\<lparr>h_running := jm_set i (e\<lparr>en_cancelling := True, en_aborted := True\<rparr>) (h_running h)\<rparr>, True))"

text \<open>The two force-stop timers of the entry object \<open>obj\<close>.\<close>

definition kill_timer :: "ident \<Rightarrow> nat \<Rightarrow> host \<Rightarrow> host" where
  "kill_timer i obj h =
     (case jm_get (h_running h) i of None \<Rightarrow> h
      | Some e \<Rightarrow> if en_object e = obj \<and> en_cancelling e \<and> i \<in> set (h_kill h) then emit [HKill i] h else h)"

definition force_timer :: "host_config \<Rightarrow> millis \<Rightarrow> string \<Rightarrow> ident \<Rightarrow> nat \<Rightarrow> host \<Rightarrow> host" where
  "force_timer cfg now message i obj h =
     (case jm_get (h_running h) i of None \<Rightarrow> h
      | Some e \<Rightarrow>
          if en_object e = obj \<and> en_cancelling e
          then host_settle cfg now (en_job e) (en_run e) StCancelled
                 (no_data\<lparr>sd_error := Some message, sd_code := Some ''CANCEL_FORCED''\<rparr>) h
          else h)"

definition list_running :: "host \<Rightarrow> (ident \<times> ident \<times> job_kind \<times> ident) list" where
  "list_running h = map (\<lambda>e. (r_id (en_run e), j_id (en_job e), j_kind (en_job e), j_device_id (en_job e))) (jm_values (h_running h))"

definition finish_externally ::
    "host_config \<Rightarrow> millis \<Rightarrow> ident \<Rightarrow> settle_status \<Rightarrow> string \<Rightarrow> string option \<Rightarrow> host \<Rightarrow> host" where
  "finish_externally cfg now i status error code h =
     (let run = (case jm_get (h_running h) i of Some e \<Rightarrow> Some (en_run e) | None \<Rightarrow> run_by_id (h_db h) i) in
      case run of None \<Rightarrow> h
      | Some r \<Rightarrow>
          (case job_by_id (h_db h) (r_job_id r) of None \<Rightarrow> h
           | Some job \<Rightarrow> host_settle cfg now job r status (no_data\<lparr>sd_error := Some error, sd_code := code\<rparr>) h))"

definition on_crash :: "ident \<Rightarrow> host \<Rightarrow> host" where
  "on_crash i h = h\<lparr>h_crash := List.insert i (h_crash h)\<rparr>"

definition on_force_kill :: "ident \<Rightarrow> host \<Rightarrow> host" where
  "on_force_kill i h = h\<lparr>h_kill := List.insert i (h_kill h)\<rparr>"

definition notify_crash :: "ident \<Rightarrow> host \<Rightarrow> bool" where
  "notify_crash i h \<longleftrightarrow> i \<in> set (h_crash h)"

definition MAX_PROGRESS_BYTES :: int where "MAX_PROGRESS_BYTES = 4 * 1024"

text \<open>\<open>progress\<close>: the value passed on, if any; \<open>bytes\<close> is its encoded length, none when unserialisable.\<close>

definition host_progress :: "ident \<Rightarrow> int option \<Rightarrow> host \<Rightarrow> host \<times> (ident \<times> ident \<times> ident) option" where
  "host_progress i bytes h =
     (case jm_get (h_running h) i of None \<Rightarrow> (h, None)
      | Some e \<Rightarrow>
          if (case bytes of None \<Rightarrow> True | Some b \<Rightarrow> b > MAX_PROGRESS_BYTES)
          then (h\<lparr>h_warned := List.insert i (h_warned h)\<rparr>, None)
          else (h, Some (j_id (en_job e), r_id (en_run e), j_device_id (en_job e))))"

definition stop_all :: "host \<Rightarrow> host" where
  "stop_all h = h\<lparr>h_running := [], h_crash := [], h_kill := [], h_warned := []\<rparr>"

section \<open>Facts about settling\<close>

lemma emit_fields [simp]:
  "h_db (emit es h) = h_db h" "h_running (emit es h) = h_running h" "h_registry (emit es h) = h_registry h"
  "h_kill (emit es h) = h_kill h"
  by (simp_all add: emit_def)

lemma end_marker_fields [simp]:
  "h_db (end_marker now dev i h) = h_db h" "h_running (end_marker now dev i h) = h_running h"
  by (simp_all add: end_marker_def)

lemma forget_entry_fields [simp]:
  "h_db (forget_entry i h) = h_db h" "h_running (forget_entry i h) = jm_del i (h_running h)"
  by (auto simp: forget_entry_def Let_def delete_idem map_of_eq_None_iff split: option.splits)

text \<open>Whether a failed settlement sends the run back to the queue.\<close>

definition rebinds :: "host_config \<Rightarrow> job_row \<Rightarrow> run_row \<Rightarrow> settle_status \<Rightarrow> settle_data \<Rightarrow> bool" where
  "rebinds cfg job run status data \<longleftrightarrow> status = StFailed
     \<and> cf_class (classify_failure (hc_timeout_is_infra cfg) (sd_code data) (coalesce (sd_error data) ''[object Object]'')) = Infra
     \<and> truthy_str (j_batch_id job) \<and> hc_rebind_on_infra cfg \<and> r_infra_attempts run < hc_max_rebinds cfg"

lemma host_requeue_fields:
  "h_db (host_requeue cfg now job run code h) =
     fst (requeue_for_rebind (r_id run) (coalesce (pick_rebind_device (h_db h) job) (j_device_id job)) (h_db h))"
  "h_running (host_requeue cfg now job run code h) = h_running h"
  by (simp_all add: host_requeue_def Let_def split_def split: option.splits)

lemma host_settle_running [simp]:
  "h_running (host_settle cfg now job run status data h) = jm_del (r_id run) (h_running h)"
  by (simp add: host_settle_def Let_def split_def host_requeue_fields split: option.splits)

lemma host_settle_db:
  "h_db (host_settle cfg now job run status data h) =
     (if rebinds cfg job run status data
      then fst (requeue_for_rebind (r_id run) (coalesce (pick_rebind_device (h_db h) job) (j_device_id job)) (h_db h))
      else fst (settle_run now (r_id run) (settle_input cfg job run status data
             (if status = StFailed then Some (class_name (cf_class
                (classify_failure (hc_timeout_is_infra cfg) (sd_code data) (coalesce (sd_error data) ''[object Object]'')))) else None))
             (h_db h)))"
  by (simp add: host_settle_def rebinds_def Let_def split_def host_requeue_fields split: option.splits)

lemma settle_input_status [simp]: "si_status (settle_input cfg job run status data fc) = status"
  by (simp add: settle_input_def Let_def)

lemma settle_run_row:
  assumes "tables_wf d" "r \<in> set (t_runs d)"
  shows "run_by_id (fst (settle_run now i inp d)) (r_id r) =
    Some (if r_id r = i \<and> running r then settle_patch now inp r else r)"
proof -
  have r: "run_by_id d (r_id r) = Some r" using assms by (simp add: tables_wf_def run_by_id_unique)
  show ?thesis
  proof (cases "get_where (\<lambda>x. r_id x = i \<and> running x) (t_runs d)")
    case None
    then have "\<not> (r_id r = i \<and> running r)" using assms(2) by (auto simp: find_None_all)
    then show ?thesis using r None by (auto simp: settle_run_def)
  next
    case (Some x)
    then have x: "x \<in> set (t_runs d)" "r_id x = i" "running x" using find_Some_in by fastforce+
    have "r_id r = i \<Longrightarrow> running r" using tables_wf_runs_inj [OF assms(1) x(1) assms(2)] x by auto
    then show ?thesis using r Some by (auto simp: settle_run_def Let_def run_by_id_update)
  qed
qed

lemma requeue_row:
  assumes "tables_wf d" "r \<in> set (t_runs d)"
  shows "run_by_id (fst (requeue_for_rebind i dev d)) (r_id r) =
    Some (if r_id r = i \<and> running r
          then r\<lparr>r_status := RQueued, r_device_id := dev, r_heartbeat_expires_at := None,
                 r_started_at := None, r_infra_attempts := r_infra_attempts r + 1\<rparr>
          else r)"
proof -
  have r: "run_by_id d (r_id r) = Some r" using assms by (simp add: tables_wf_def run_by_id_unique)
  show ?thesis
  proof (cases "get_where (\<lambda>x. r_id x = i \<and> running x) (t_runs d)")
    case None
    then have "\<not> (r_id r = i \<and> running r)" using assms(2) by (auto simp: find_None_all)
    then show ?thesis using r None by (auto simp: requeue_for_rebind_def)
  next
    case (Some x)
    then show ?thesis using r by (auto simp: requeue_for_rebind_def Let_def run_by_id_update)
  qed
qed

section \<open>Properties\<close>

text \<open>
  C6: Settling a running run ends it: its entry leaves the running table and its row is either the
  settled status or, only for a farm failure of a batch run below the rebind cap, back in the queue on
  the chosen device with one more rebind counted, still within the cap. Every other run keeps its row.
\<close>

theorem settle_ends_the_run:
  assumes "tables_wf (h_db h)" "r \<in> set (t_runs (h_db h))" "running r" "r_id run = r_id r"
    and "r_infra_attempts run = r_infra_attempts r"
  shows "\<exists>r'. run_by_id (h_db (host_settle cfg now job run status data h)) (r_id r) = Some r'
    \<and> jm_get (h_running (host_settle cfg now job run status data h)) (r_id r) = None
    \<and> (if rebinds cfg job run status data
       then queued r' \<and> r_infra_attempts r' = r_infra_attempts r + 1 \<and> r_infra_attempts r' \<le> hc_max_rebinds cfg
          \<and> r_device_id r' = coalesce (pick_rebind_device (h_db h) job) (j_device_id job)
       else r_status r' = settle_run_status status \<and> r_finished_at r' = Some (to_sec now))
    \<and> (\<forall>x \<in> set (t_runs (h_db h)). r_id x \<noteq> r_id r \<longrightarrow>
         run_by_id (h_db (host_settle cfg now job run status data h)) (r_id x) = Some x)"
  using assms settle_run_row [OF assms(1)] requeue_row [OF assms(1)]
  by (auto simp: host_settle_db settle_patch_def) (auto simp: rebinds_def)

definition demo_config :: "int \<Rightarrow> host_config" where
  "demo_config cap = \<lparr>hc_known = (\<lambda>_. True), hc_timeout_is_infra = True, hc_rebind_on_infra = True, hc_max_rebinds = cap,
     hc_backoff_ms = 2000, hc_serial = (\<lambda>_. None), hc_ttl = 30, hc_max_result_bytes = 65536,
     hc_measure = (\<lambda>_. 2), hc_summary = (\<lambda>_ _. None), hc_issue_value = (\<lambda>_. Null), hc_dots = ''...''\<rparr>"

definition demo_script :: "job_row" where
  "demo_script = (demo_job ''phone'' 0)\<lparr>j_script_id := Some ''s''\<rparr>"

definition demo_host :: host where
  "demo_host = \<lparr>h_db = \<lparr>t_jobs = [demo_script],
       t_runs = [(demo_member_run ''phone'' 0 RQueued False)],
       t_devices = [\<lparr>dev_id = ''phone'', dev_serial = ''s1'', dev_status = Some Online\<rparr>],
       t_batches = [demo_sequential BRunning 1]\<rparr>,
     h_registry = empty_registry, h_running = [], h_crash = [], h_kill = [], h_warned = [], h_objects = 0, h_events = []\<rparr>"

text \<open>A claim followed by \<open>start\<close>, as the scheduler does it, and the claimed job and run.\<close>

definition claim_and_start :: "host_config \<Rightarrow> seconds \<Rightarrow> host \<Rightarrow> host \<times> claimed_job option" where
  "claim_and_start cfg nowS h =
     (case claim_next nowS (hc_ttl cfg) [] (h_db h) of
        (d, None) \<Rightarrow> (h\<lparr>h_db := d\<rparr>, None)
      | (d, Some cj) \<Rightarrow> (host_start cfg (nowS * 1000) (cl_job cj) (cl_run cj) (h\<lparr>h_db := d\<rparr>), Some cj))"

definition demo_first :: "host \<times> claimed_job option" where
  "demo_first = claim_and_start (demo_config 3) 10 demo_host"

theorem settle_ends_the_run_witness:
  "\<exists>r'. run_by_id (h_db (host_settle (demo_config 3) 20000 demo_script
      ((demo_member_run ''phone'' 0 RRunning False)) StFailed (no_data\<lparr>sd_code := Some ''CHILD_CRASHED''\<rparr>)
      (fst demo_first))) ''rphone'' = Some r' \<and> queued r' \<and> r_infra_attempts r' = 1"
proof -
  let ?d = "h_db (fst demo_first)"
  let ?run = "demo_member_run ''phone'' 0 RRunning False"
  let ?data = "no_data\<lparr>sd_code := Some ''CHILD_CRASHED''\<rparr>"
  have wf: "tables_wf ?d" by code_simp
  have "map r_status (t_runs ?d) = [RRunning]" "map r_id (t_runs ?d) = [''rphone'']" "map r_infra_attempts (t_runs ?d) = [0]"
    by code_simp+
  then obtain r where r: "t_runs ?d = [r]" "running r" "r_id r = ''rphone''" "r_infra_attempts r = 0"
    by (cases "t_runs ?d") auto
  have run: "r_id ?run = r_id r" "r_infra_attempts ?run = r_infra_attempts r"
    using r by (simp_all add: demo_member_run_def)
  have "rebinds (demo_config 3) demo_script ?run StFailed ?data" by code_simp
  then show ?thesis
    using settle_ends_the_run [OF wf _ r(2) run, of "demo_config 3" 20000 demo_script StFailed ?data] r by auto
qed

text \<open>
  C40: The promise of an earlier attempt settles whatever attempt of the same run is in the table: once
  a rebound run was claimed and started again, the late rejection of the aborted first executor
  removes the new entry and cancels the row the new executor is working on.
\<close>

theorem stale_promise_settles_new_attempt:
  assumes "tables_wf (h_db h)" "r \<in> set (t_runs (h_db h))" "running r" "r_id old_run = r_id r"
    and "jm_get (h_running h) (r_id r) = Some new_entry"
  shows "\<exists>r'. run_by_id (h_db (executor_done cfg now old_job old_run StCancelled data h)) (r_id r) = Some r'
     \<and> r_status r' = RCancelled
     \<and> jm_get (h_running (executor_done cfg now old_job old_run StCancelled data h)) (r_id r) = None"
  using assms settle_run_row [OF assms(1,2)]
  by (simp add: executor_done_def host_settle_db rebinds_def settle_run_status_def)

text \<open>First attempt, lost heartbeat, rebind, second attempt on the same host.\<close>

definition demo_second :: "host \<times> claimed_job option" where
  "demo_second = claim_and_start (demo_config 3) 100
     (finish_externally (demo_config 3) 90000 ''rphone'' StFailed ''heartbeat expired'' (Some ''HEARTBEAT_EXPIRED'') (fst demo_first))"

theorem stale_promise_settles_new_attempt_witness:
  "\<exists>first_run. map en_object (jm_values (h_running (fst demo_second))) = [1]
     \<and> map_option cl_run (snd demo_first) = Some first_run \<and> r_started_at first_run = Some 10
     \<and> map r_started_at (t_runs (h_db (fst demo_second))) = [Some 100]
     \<and> map_option r_status (run_by_id (h_db (executor_done (demo_config 3) 101000 demo_script first_run StCancelled no_data (fst demo_second))) ''rphone'')
         = Some RCancelled"
proof -
  have fst_some: "map_option r_id (map_option cl_run (snd demo_first)) = Some ''rphone''"
    "map_option r_started_at (map_option cl_run (snd demo_first)) = Some (Some 10)" by code_simp+
  then obtain run where run: "map_option cl_run (snd demo_first) = Some run" "r_id run = ''rphone''" "r_started_at run = Some 10"
    by auto
  let ?d = "h_db (fst demo_second)"
  have wf: "tables_wf ?d" by code_simp
  have rows: "map r_status (t_runs ?d) = [RRunning]" "map r_id (t_runs ?d) = [''rphone'']"
    "map r_started_at (t_runs ?d) = [Some 100]" by code_simp+
  have objs: "map en_object (jm_values (h_running (fst demo_second))) = [1]"
    "map fst (h_running (fst demo_second)) = [''rphone'']" by code_simp+
  from rows obtain r where r: "t_runs ?d = [r]" "running r" "r_id r = ''rphone''" by (cases "t_runs ?d") auto
  from objs obtain e where e: "jm_get (h_running (fst demo_second)) (r_id r) = Some e"
    using r(3) by (cases "h_running (fst demo_second)") auto
  have "\<exists>r'. run_by_id (h_db (executor_done (demo_config 3) 101000 demo_script run StCancelled no_data (fst demo_second))) (r_id r) = Some r'
      \<and> r_status r' = RCancelled"
    using stale_promise_settles_new_attempt [OF wf _ r(2) _ e, of run "demo_config 3" 101000 demo_script no_data] r run(2) by auto
  then show ?thesis using run rows(3) objs(1) r(3) by auto
qed

text \<open>
  Force stop: after an abort, when the second timer of that very entry fires, the run is out of the
  table and its row is cancelled; a second abort changes nothing; and a timer of an entry that was
  replaced does nothing.
\<close>

theorem force_stop_ends_the_run:
  assumes "tables_wf (h_db h)" "r \<in> set (t_runs (h_db h))" "running r"
    and "jm_get (h_running h) (r_id r) = Some e" "r_id (en_run e) = r_id r"
  shows "host_abort (r_id r) (fst (host_abort (r_id r) h)) = (fst (host_abort (r_id r) h), True)
    \<and> (\<exists>r'. run_by_id (h_db (force_timer cfg now msg (r_id r) (en_object e) (fst (host_abort (r_id r) h)))) (r_id r) = Some r'
         \<and> r_status r' = RCancelled)
    \<and> jm_get (h_running (force_timer cfg now msg (r_id r) (en_object e) (fst (host_abort (r_id r) h)))) (r_id r) = None
    \<and> (\<forall>obj. obj \<noteq> en_object e \<longrightarrow>
         force_timer cfg now msg (r_id r) obj (fst (host_abort (r_id r) h)) = fst (host_abort (r_id r) h))"
proof -
  let ?h1 = "fst (host_abort (r_id r) h)"
  let ?e1 = "if en_cancelling e then e else e\<lparr>en_cancelling := True, en_aborted := True\<rparr>"
  have h1: "jm_get (h_running ?h1) (r_id r) = Some ?e1" "h_db ?h1 = h_db h"
    using assms(4) by (auto simp: host_abort_def)
  have e1: "en_cancelling ?e1" "en_object ?e1 = en_object e" "en_run ?e1 = en_run e" by auto
  have again: "host_abort (r_id r) ?h1 = (?h1, True)"
    using h1(1) e1(1) by (simp add: host_abort_def)
  have fire: "force_timer cfg now msg (r_id r) (en_object e) ?h1 =
      host_settle cfg now (en_job ?e1) (en_run ?e1) StCancelled
        (no_data\<lparr>sd_error := Some msg, sd_code := Some ''CANCEL_FORCED''\<rparr>) ?h1"
    unfolding force_timer_def h1(1) using e1(1,2) by simp
  have "\<exists>r'. run_by_id (h_db (force_timer cfg now msg (r_id r) (en_object e) ?h1)) (r_id r) = Some r' \<and> r_status r' = RCancelled"
    unfolding fire host_settle_db
    using settle_run_row [OF assms(1,2)] assms(3,5) h1(2) e1(3) by (simp add: rebinds_def settle_run_status_def)
  moreover have "jm_get (h_running (force_timer cfg now msg (r_id r) (en_object e) ?h1)) (r_id r) = None"
    unfolding fire using e1(3) assms(5) by simp
  moreover have "\<forall>obj. obj \<noteq> en_object e \<longrightarrow> force_timer cfg now msg (r_id r) obj ?h1 = ?h1"
    using h1(1) e1(2) by (simp add: force_timer_def)
  ultimately show ?thesis using again by blast
qed

theorem force_stop_ends_the_run_witness:
  "map_option r_status (run_by_id (h_db (force_timer (demo_config 3) 105000 ''x'' ''rphone'' 0
      (fst (host_abort ''rphone'' (fst demo_first))))) ''rphone'') = Some RCancelled"
proof -
  let ?h = "fst demo_first"
  have wf: "tables_wf (h_db ?h)" by code_simp
  have rows: "map r_status (t_runs (h_db ?h)) = [RRunning]" "map r_id (t_runs (h_db ?h)) = [''rphone'']" by code_simp+
  have ents: "map fst (h_running ?h) = [''rphone'']" "map (\<lambda>p. r_id (en_run (snd p))) (h_running ?h) = [''rphone'']"
    "map (\<lambda>p. en_object (snd p)) (h_running ?h) = [0]" by code_simp+
  from rows obtain r where r: "t_runs (h_db ?h) = [r]" "running r" "r_id r = ''rphone''" by (cases "t_runs (h_db ?h)") auto
  from ents obtain e where e: "jm_get (h_running ?h) (r_id r) = Some e" "r_id (en_run e) = r_id r" "en_object e = 0"
    using r(3) by (cases "h_running ?h") auto
  have mem: "r \<in> set (t_runs (h_db ?h))" using r(1) by simp
  from force_stop_ends_the_run [OF wf mem r(2) e(1,2), of "demo_config 3" 105000 "''x''"]
  show ?thesis using r(3) e(3) by auto
qed

text \<open>
  Recording a result: a value over the byte cap is dropped and the row says oversize whatever the
  child claimed; a salvage never overwrites a valid result; only an invalid result carries issues, at
  most twenty of them.
\<close>

theorem record_result_caps:
  "(\<forall>r. record_result dots sz sm cap v out ex = Some r \<longrightarrow>
      (cap < rr_bytes r \<longrightarrow> rr_status r = OversizeR) \<and> (rr_status r = OversizeR \<longrightarrow> rr_result r = Null \<and> rr_summary r = None)
      \<and> (rr_status r \<noteq> OversizeR \<and> v \<noteq> Undefined \<longrightarrow> rr_result r = v \<and> rr_bytes r = sz v)
      \<and> (rr_issues r \<noteq> None \<longrightarrow> rr_status r = InvalidR \<and> length (the (rr_issues r)) \<le> MAX_ISSUES)
      \<and> (ex = Some ValidR \<longrightarrow> rr_status r \<noteq> PartialR))"
  by (auto simp: record_result_def Let_def truncate_issues_def split: if_splits)

theorem record_result_caps_witness:
  "\<exists>r. record_result ''..'' (\<lambda>_. 70000) (\<lambda>_. None) 65536 (Bool True)
      (Some \<lparr>ro_status = Some ValidR, ro_bytes = 4, ro_issues = None\<rparr>) None = Some r
    \<and> rr_status r = OversizeR \<and> rr_result r = Null"
proof -
  let ?rr = "record_result ''..'' (\<lambda>_. 70000) (\<lambda>_. None) 65536 (Bool True)
      (Some \<lparr>ro_status = Some ValidR, ro_bytes = 4, ro_issues = None\<rparr>) None"
  have "map_option rr_status ?rr = Some OversizeR" by code_simp
  then obtain r where r: "?rr = Some r" "rr_status r = OversizeR" by auto
  then show ?thesis using record_result_caps by blast
qed

end
