(* ===== verification/Scheduler.thy ===== *)
theory Scheduler
  imports ExecutorHost QueueMachine
begin

text \<open>
  The scheduler (\<open>packages/core/src/queue/scheduler.ts\<close>), the expiry reaper (\<open>queue/expiry.ts\<close>) and
  the run watcher (\<open>jobs/runs/watcher.ts\<close>). The loop has no await, so one pass runs to its end
  before anything else does; a kick from inside it (a settlement) only sets \<open>dirty\<close>. The clock is
  read once per pass here.
\<close>

section \<open>State\<close>

datatype sched_event =
    SWaiting ident ident ident bool int
  | SClaimed ident
  | SStatus ident ident run_status
  | SStarted ident ident string

record scheduler =
  s_host :: host
  s_looping :: bool
  s_dirty :: bool
  s_previously_waiting :: "ident list"
  s_timer :: bool
  s_events :: "sched_event list"

definition s_emit :: "sched_event list \<Rightarrow> scheduler \<Rightarrow> scheduler" where
  "s_emit es s = s\<lparr>s_events := s_events s @ es\<rparr>"

section \<open>The waiting broadcast\<close>

record paced =
  pb_device :: ident
  pb_job :: ident
  pb_run :: ident
  pb_remaining :: int

definition compute_install_blocked :: "scheduler \<Rightarrow> ident list" where
  "compute_install_blocked s = devices_with KInstall (h_registry (s_host s))"

definition paced_of :: "seconds \<Rightarrow> db \<Rightarrow> ident \<Rightarrow> paced option" where
  "paced_of nowS d dev =
     (case Option.bind (next_queued_run_id d dev) (run_by_id d) of
        None \<Rightarrow> None
      | Some run \<Rightarrow>
          (case r_not_before run of None \<Rightarrow> None
           | Some t \<Rightarrow> if t - nowS \<le> 0 then None
                       else Some \<lparr>pb_device = dev, pb_job = r_job_id run, pb_run = r_id run, pb_remaining = t - nowS\<rparr>))"

definition compute_paced_blocked :: "seconds \<Rightarrow> db \<Rightarrow> paced list" where
  "compute_paced_blocked nowS d = List.map_filter (paced_of nowS d) (queued_device_ids d)"

definition broadcast_waiting :: "paced list \<Rightarrow> scheduler \<Rightarrow> scheduler" where
  "broadcast_waiting blocked s =
     (let d = h_db (s_host s);
          still = map pb_device blocked;
          now_waiting = map (\<lambda>b. SWaiting (pb_job b) (pb_run b) (pb_device b) True (pb_remaining b)) blocked;
          ended = List.map_filter (\<lambda>dev.
              if dev \<in> set still then None
              else map_option (\<lambda>run. SWaiting (r_job_id run) (r_id run) dev False 0)
                     (Option.bind (next_queued_run_id d dev) (run_by_id d)))
            (s_previously_waiting s)
      in (s_emit (now_waiting @ ended) s)\<lparr>s_previously_waiting := still\<rparr>)"

section \<open>One claim\<close>

text \<open>\<open>scriptName ?? names.get(scriptId)?.name ?? workflowName ?? job.id\<close>; \<open>names\<close> is the script table.\<close>

definition claimed_name :: "(ident \<Rightarrow> string option) \<Rightarrow> job_row \<Rightarrow> string" where
  "claimed_name names j =
     coalesce (or_else (j_script_name j)
       (or_else (if truthy_str (j_script_id j) then names (the (j_script_id j)) else None) (j_workflow_name j))) (j_id j)"

definition start_marker :: "(ident \<Rightarrow> string option) \<Rightarrow> claimed_job \<Rightarrow> start_activity_input" where
  "start_marker names c =
     \<lparr>in_id = activity_id_for (cl_job c) (cl_run c), in_kind = KJob,
      in_label = ''Running '' @ claimed_name names (cl_job c), in_actor = SYSTEM_ACTOR,
      in_href = Some (''/jobs/detail?id='' @ j_id (cl_job c) @ ''&run='' @ r_id (cl_run c)), in_meta = None\<rparr>"

definition claimed_step ::
    "host_config \<Rightarrow> (ident \<Rightarrow> string option) \<Rightarrow> millis \<Rightarrow> db \<Rightarrow> claimed_job \<Rightarrow> scheduler \<Rightarrow> scheduler" where
  "claimed_step cfg names now d c s =
     (let h = (s_host s)\<lparr>h_db := d,
                h_registry := fst (start_activity now (cl_device_id c) (start_marker names c) (h_registry (s_host s)))\<rparr>;
          s1 = s_emit [SClaimed (cl_device_id c), SStatus (j_id (cl_job c)) (r_id (cl_run c)) (r_status (cl_run c)),
                 SStarted (cl_device_id c) (j_id (cl_job c))
                   (coalesce (or_else (j_script_id (cl_job c)) (j_workflow_name (cl_job c))) [])] s;
          h' = host_start cfg now (cl_job c) (cl_run c) h
      in s1\<lparr>s_host := h', s_dirty := s_dirty s \<or> HKick \<in> set (drop (length (h_events h)) (h_events h'))\<rparr>)"

section \<open>The loop\<close>

text \<open>\<open>for (;;)\<close>: claim until nothing is left. \<open>None\<close> is "out of fuel".\<close>

fun claim_loop ::
    "nat \<Rightarrow> host_config \<Rightarrow> (ident \<Rightarrow> string option) \<Rightarrow> millis \<Rightarrow> ident list \<Rightarrow> scheduler \<Rightarrow> scheduler option" where
  "claim_loop 0 cfg names now exclude s = None"
| "claim_loop (Suc n) cfg names now exclude s =
     (case claim_next (to_sec now) (hc_ttl cfg) exclude (h_db (s_host s)) of
        (d, None) \<Rightarrow> Some (s\<lparr>s_host := (s_host s)\<lparr>h_db := d\<rparr>\<rparr>)
      | (d, Some c) \<Rightarrow> claim_loop n cfg names now exclude (claimed_step cfg names now d c s))"

text \<open>\<open>do { dirty = false; ... } while (dirty)\<close>.\<close>

fun pass_loop ::
    "nat \<Rightarrow> nat \<Rightarrow> host_config \<Rightarrow> (ident \<Rightarrow> string option) \<Rightarrow> millis \<Rightarrow> scheduler \<Rightarrow> scheduler option" where
  "pass_loop 0 m cfg names now s = None"
| "pass_loop (Suc n) m cfg names now s =
     (let s0 = s\<lparr>s_dirty := False\<rparr>;
          exclude = compute_install_blocked s0;
          s1 = broadcast_waiting (compute_paced_blocked (to_sec now) (h_db (s_host s0))) s0
      in case claim_loop m cfg names now exclude s1 of
           None \<Rightarrow> None
         | Some s2 \<Rightarrow> if s_dirty s2 then pass_loop n m cfg names now s2 else Some s2)"

definition loop ::
    "nat \<Rightarrow> host_config \<Rightarrow> (ident \<Rightarrow> string option) \<Rightarrow> millis \<Rightarrow> scheduler \<Rightarrow> scheduler option" where
  "loop fuel cfg names now s =
     (if s_looping s then Some (s\<lparr>s_dirty := True\<rparr>)
      else map_option (\<lambda>s'. s'\<lparr>s_looping := False\<rparr>) (pass_loop fuel fuel cfg names now (s\<lparr>s_looping := True\<rparr>)))"

definition scheduler_start :: "nat \<Rightarrow> host_config \<Rightarrow> (ident \<Rightarrow> string option) \<Rightarrow> millis \<Rightarrow> scheduler \<Rightarrow> scheduler option" where
  "scheduler_start fuel cfg names now s =
     (if s_timer s then Some s else loop fuel cfg names now (s\<lparr>s_timer := True\<rparr>))"

definition scheduler_stop :: "scheduler \<Rightarrow> scheduler" where
  "scheduler_stop s = s\<lparr>s_timer := False\<rparr>"

section \<open>The expiry reaper\<close>

datatype expiry_event = XStatus ident ident run_status | XBatch ident ident | XHeartbeatExpired ident

text \<open>
  \<open>sweepOnce\<close>: the database after expiring the queue, what was announced for each expired run, and the
  runs handed to \<open>onHeartbeatExpired\<close>.
\<close>

definition expiry_sweep :: "seconds \<Rightarrow> db \<Rightarrow> db \<times> expiry_event list \<times> run_row list" where
  "expiry_sweep nowS d =
     (let (d1, expired) = expire_queued nowS d;
          announce = concat (map (\<lambda>run. case job_by_id d1 (r_job_id run) of None \<Rightarrow> []
             | Some job \<Rightarrow> XStatus (j_id job) (r_id run) (r_status run) #
                 (if truthy_str (j_batch_id job) then [XBatch (the (j_batch_id job)) (r_device_id run)] else [])) expired);
          lost = map (\<lambda>r. XHeartbeatExpired (r_id r)) (expired_running nowS d1)
      in (d1, announce @ lost, expired))"

text \<open>The daemon's \<open>onHeartbeatExpired\<close>: each lost run is finished from outside as a failure.\<close>

definition expiry_tick :: "host_config \<Rightarrow> millis \<Rightarrow> string \<Rightarrow> host \<Rightarrow> host" where
  "expiry_tick cfg now reason h =
     (let (d1, _, _) = expiry_sweep (to_sec now) (h_db h) in
      fold (\<lambda>r. finish_externally cfg now (r_id r) StFailed reason (Some ''HEARTBEAT_EXPIRED''))
        (expired_running (to_sec now) d1) (h\<lparr>h_db := d1\<rparr>))"

section \<open>The run watcher\<close>

text \<open>
  A waiter is a promise: its number, the run it waits for, and how it settled. The set of a run keeps
  the settle functions in subscription order; an abort listener is live until its waiter resolves.
\<close>

datatype wait_result = Pending | Resolved run_status | RejectedCancelled

record watcher =
  w_waiters :: "(ident, nat list) jmap"
  w_results :: "(nat, wait_result) jmap"

definition wait_for_terminal :: "db \<Rightarrow> nat \<Rightarrow> ident \<Rightarrow> bool \<Rightarrow> watcher \<Rightarrow> watcher" where
  "wait_for_terminal d w run_id already_aborted s =
     (case run_by_id d run_id of
        Some run \<Rightarrow>
          if terminal_status (r_status run) then s\<lparr>w_results := jm_set w (Resolved (r_status run)) (w_results s)\<rparr>
          else if already_aborted then s\<lparr>w_results := jm_set w RejectedCancelled (w_results s)\<rparr>
          else s\<lparr>w_waiters := jm_set run_id (coalesce (jm_get (w_waiters s) run_id) [] @ [w]) (w_waiters s),
                 w_results := jm_set w Pending (w_results s)\<rparr>
      | None \<Rightarrow>
          if already_aborted then s\<lparr>w_results := jm_set w RejectedCancelled (w_results s)\<rparr>
          else s\<lparr>w_waiters := jm_set run_id (coalesce (jm_get (w_waiters s) run_id) [] @ [w]) (w_waiters s),
                 w_results := jm_set w Pending (w_results s)\<rparr>)"

definition settle_waiter :: "wait_result \<Rightarrow> nat \<Rightarrow> watcher \<Rightarrow> watcher" where
  "settle_waiter res w s =
     (if jm_get (w_results s) w = Some Pending then s\<lparr>w_results := jm_set w res (w_results s)\<rparr> else s)"

definition watcher_notify :: "run_row \<Rightarrow> watcher \<Rightarrow> watcher" where
  "watcher_notify run s =
     (if \<not> terminal_status (r_status run) then s
      else case jm_get (w_waiters s) (r_id run) of
        None \<Rightarrow> s
      | Some ws \<Rightarrow> fold (settle_waiter (Resolved (r_status run))) ws (s\<lparr>w_waiters := jm_del (r_id run) (w_waiters s)\<rparr>))"

definition watcher_abort :: "nat \<Rightarrow> ident \<Rightarrow> watcher \<Rightarrow> watcher" where
  "watcher_abort w run_id s =
     (if jm_get (w_results s) w \<noteq> Some Pending then s
      else settle_waiter RejectedCancelled w
        (case jm_get (w_waiters s) run_id of
           None \<Rightarrow> s
         | Some ws \<Rightarrow> s\<lparr>w_waiters := jm_set run_id (removeAll w ws) (w_waiters s)\<rparr>))"

section \<open>Why the loop ends\<close>

text \<open>
  Every claim turns a queued run into a running one, and a run that fails at once either ends or goes
  back to the queue with one more rebind counted. The budget of a run is twice the rebinds it has left,
  plus two while it is queued and plus one while it runs.
\<close>

definition run_budget :: "int \<Rightarrow> run_row \<Rightarrow> nat" where
  "run_budget cap r = (case r_status r of
       RQueued \<Rightarrow> 2 * nat (cap - r_infra_attempts r) + 2
     | RRunning \<Rightarrow> 2 * nat (cap - r_infra_attempts r) + 1
     | _ \<Rightarrow> 0)"

definition queue_budget :: "int \<Rightarrow> db \<Rightarrow> nat" where
  "queue_budget cap d = sum_list (map (run_budget cap) (t_runs d))"

lemma budget_update_le:
  assumes "\<And>r. r \<in> set (t_runs d) \<Longrightarrow> P r \<Longrightarrow> run_budget cap (f r) \<le> run_budget cap r"
  shows "queue_budget cap (update_runs P f d) \<le> queue_budget cap d"
  unfolding queue_budget_def update_tables update_where_def map_map
  by (rule sum_list_mono) (use assms in auto)

lemma budget_update_less:
  assumes "\<And>x. x \<in> set (t_runs d) \<Longrightarrow> P x \<Longrightarrow> run_budget cap (f x) \<le> run_budget cap x"
    and "r \<in> set (t_runs d)" "P r" "run_budget cap (f r) < run_budget cap r"
  shows "queue_budget cap (update_runs P f d) < queue_budget cap d"
proof -
  have "sum_list (map (\<lambda>x. run_budget cap (if P x then f x else x)) rs) < sum_list (map (run_budget cap) rs)"
    if "set rs \<subseteq> set (t_runs d)" "r \<in> set rs" for rs
    using that
  proof (induction rs)
    case (Cons x rs)
    have le: "run_budget cap (if P y then f y else y) \<le> run_budget cap y" if "y \<in> set (x # rs)" for y
      using assms(1) [of y] Cons.prems(1) that by auto
    have rest: "sum_list (map (\<lambda>x. run_budget cap (if P x then f x else x)) rs) \<le> sum_list (map (run_budget cap) rs)"
      by (rule sum_list_mono) (use le in auto)
    show ?case
    proof (cases "r = x")
      case True
      then show ?thesis using assms(3,4) rest by simp
    next
      case False
      then have "sum_list (map (\<lambda>x. run_budget cap (if P x then f x else x)) rs) < sum_list (map (run_budget cap) rs)"
        using Cons.IH Cons.prems by simp
      then show ?thesis using le [of x] by simp
    qed
  qed simp
  then show ?thesis using assms(2) by (simp add: queue_budget_def update_where_def o_def)
qed

lemma settle_run_budget: "queue_budget cap (fst (settle_run now i inp d)) \<le> queue_budget cap d"
proof -
  have "run_budget cap (settle_patch now inp r) \<le> run_budget cap r" for r
    by (simp add: run_budget_def settle_run_status_def split: settle_status.splits)
  then show ?thesis by (auto simp: settle_run_def Let_def intro!: budget_update_le split: option.splits)
qed

lemma requeue_budget:
  assumes "\<And>r. r \<in> set (t_runs d) \<Longrightarrow> r_id r = i \<Longrightarrow> r_infra_attempts r < cap"
  shows "queue_budget cap (fst (requeue_for_rebind i dev d)) \<le> queue_budget cap d"
proof -
  have jobs: "queue_budget cap (update_jobs P f e) = queue_budget cap e" for P f e by (simp add: queue_budget_def)
  have step: "Suc (2 * nat (cap - (a + 1))) \<le> 2 * nat (cap - a)" if "a < cap" for a
    using that by arith
  show ?thesis
    using assms by (auto simp: requeue_for_rebind_def Let_def jobs run_budget_def intro!: budget_update_le step split: option.splits)
qed

lemma claim_budget:
  assumes wf: "tables_wf d" and c: "claim_next nowS ttl exclude d = (d', Some cj)"
  shows "queue_budget cap d' < queue_budget cap d"
proof -
  obtain r where r: "r \<in> set (t_runs d)" "claimable nowS exclude d r"
    "d' = update_runs (\<lambda>x. r_id x = r_id r) (mark_claimed nowS ttl) d"
    using claim_next_Some [OF wf c] by metis
  have q: "queued r" using claimable_facts(1) [OF r(2)] .
  have same: "x = r" if "x \<in> set (t_runs d)" "r_id x = r_id r" for x
    using tables_wf_runs_inj [OF wf that(1) r(1) that(2)] .
  have less: "run_budget cap (mark_claimed nowS ttl r) < run_budget cap r"
    using q by (simp add: run_budget_def mark_claimed_def)
  show ?thesis
    unfolding r(3)
  proof (rule budget_update_less [where r = r])
    fix x assume "x \<in> set (t_runs d)" "r_id x = r_id r"
    then have "x = r" by (rule same)
    then show "run_budget cap (mark_claimed nowS ttl x) \<le> run_budget cap x" using less by simp
  qed (use less r(1) in simp_all)
qed

lemma host_start_db:
  assumes "\<And>x. x \<in> set (t_runs (h_db h)) \<Longrightarrow> r_id x = r_id run \<Longrightarrow> r_infra_attempts x = r_infra_attempts run"
  shows "queue_budget (hc_max_rebinds cfg) (h_db (host_start cfg now job run h)) \<le> queue_budget (hc_max_rebinds cfg) (h_db h)"
proof (cases "j_kind job \<noteq> JkWorkflow \<and> \<not> (truthy_str (j_script_id job) \<and> hc_known cfg job)")
  case False
  then have "h_db (host_start cfg now job run h) = h_db h" by (auto simp: host_start_def)
  then show ?thesis by simp
next
  case True
  define data where "data = no_data\<lparr>sd_error := Some (''unknown_script: '' @ (case j_script_id job of Some s \<Rightarrow> s | None \<Rightarrow> ''script'')),
    sd_code := Some ''unknown_script''\<rparr>"
  have "h_db (host_start cfg now job run h) = h_db (host_settle cfg now job run StFailed data h)"
    using True by (simp add: host_start_def data_def)
  then show ?thesis
    using settle_run_budget requeue_budget assms
    by (auto simp: host_settle_db rebinds_def intro!: requeue_budget settle_run_budget)
qed

lemma host_settle_wf: "tables_wf (h_db h) \<Longrightarrow> tables_wf (h_db (host_settle cfg now job run status data h))"
  by (auto simp: host_settle_db settle_run_def requeue_for_rebind_def Let_def update_runs_wf update_jobs_wf
      split: option.splits)

lemma host_start_wf: "tables_wf (h_db h) \<Longrightarrow> tables_wf (h_db (host_start cfg now job run h))"
  by (auto simp: host_start_def host_settle_wf)

lemma claimed_step_db:
  assumes wf: "tables_wf (h_db (s_host s))" and c: "claim_next (to_sec now) ttl exclude (h_db (s_host s)) = (d, Some cj)"
  shows "tables_wf (h_db (s_host (claimed_step cfg names now d cj s)))"
    and "queue_budget (hc_max_rebinds cfg) (h_db (s_host (claimed_step cfg names now d cj s)))
       < queue_budget (hc_max_rebinds cfg) (h_db (s_host s))"
proof -
  obtain r j where r: "r \<in> set (t_runs (h_db (s_host s)))"
    "cj = \<lparr>cl_job = j, cl_run = mark_claimed (to_sec now) ttl r, cl_device_id = r_device_id r\<rparr>"
    "d = update_runs (\<lambda>x. r_id x = r_id r) (mark_claimed (to_sec now) ttl) (h_db (s_host s))"
    using claim_next_Some [OF wf c] by metis
  have d: "tables_wf d" using wf by (simp add: r(3) update_runs_wf)
  let ?h = "(s_host s)\<lparr>h_db := d, h_registry := fst (start_activity now (cl_device_id cj) (start_marker names cj) (h_registry (s_host s)))\<rparr>"
  have host: "s_host (claimed_step cfg names now d cj s) = host_start cfg now (cl_job cj) (cl_run cj) ?h"
    by (simp add: claimed_step_def Let_def)
  show "tables_wf (h_db (s_host (claimed_step cfg names now d cj s)))"
    unfolding host using d by (simp add: host_start_wf)
  have "r_infra_attempts x = r_infra_attempts (cl_run cj)" if "x \<in> set (t_runs (h_db ?h))" "r_id x = r_id (cl_run cj)" for x
  proof -
    from that(1) obtain x0 where x0: "x0 \<in> set (t_runs (h_db (s_host s)))"
      "x = (if r_id x0 = r_id r then mark_claimed (to_sec now) ttl x0 else x0)"
      by (auto simp: r(3) in_update_where)
    have "r_id x0 = r_id r" using that(2) x0(2) r(2) by (auto split: if_splits)
    then have "x0 = r" using tables_wf_runs_inj [OF wf x0(1) r(1)] by simp
    then show ?thesis using x0(2) r(2) by (simp add: mark_claimed_def)
  qed
  then have "queue_budget (hc_max_rebinds cfg) (h_db (s_host (claimed_step cfg names now d cj s))) \<le> queue_budget (hc_max_rebinds cfg) d"
    unfolding host using host_start_db [of ?h "cl_run cj" cfg now "cl_job cj"] by simp
  then show "queue_budget (hc_max_rebinds cfg) (h_db (s_host (claimed_step cfg names now d cj s)))
       < queue_budget (hc_max_rebinds cfg) (h_db (s_host s))"
    using claim_budget [OF wf c, of "hc_max_rebinds cfg"] by simp
qed

text \<open>The inner loop ends within the budget and leaves nothing claimable behind.\<close>

lemma claim_loop_ends:
  assumes "tables_wf (h_db (s_host s))" "queue_budget (hc_max_rebinds cfg) (h_db (s_host s)) < n"
  shows "\<exists>s'. claim_loop n cfg names now exclude s = Some s'
    \<and> tables_wf (h_db (s_host s'))
    \<and> (\<forall>r \<in> set (t_runs (h_db (s_host s'))). \<not> claimable (to_sec now) exclude (h_db (s_host s')) r)
    \<and> (s' = s \<or> queue_budget (hc_max_rebinds cfg) (h_db (s_host s')) < queue_budget (hc_max_rebinds cfg) (h_db (s_host s)))"
  using assms
proof (induction n arbitrary: s)
  case (Suc n)
  obtain d c where e: "claim_next (to_sec now) (hc_ttl cfg) exclude (h_db (s_host s)) = (d, c)"
    by (cases "claim_next (to_sec now) (hc_ttl cfg) exclude (h_db (s_host s))") auto
  show ?case
  proof (cases c)
    case None
    have "d = h_db (s_host s)" "\<And>r. r \<in> set (t_runs (h_db (s_host s))) \<Longrightarrow> \<not> claimable (to_sec now) exclude (h_db (s_host s)) r"
      using claim_next_None [OF Suc.prems(1)] e None by auto
    then show ?thesis using e None Suc.prems(1) by simp
  next
    case (Some cj)
    let ?s = "claimed_step cfg names now d cj s"
    note step = claimed_step_db [OF Suc.prems(1) e [unfolded Some], of cfg names]
    have "queue_budget (hc_max_rebinds cfg) (h_db (s_host ?s)) < n" using step(2) Suc.prems(2) by simp
    from Suc.IH [OF step(1) this] step(2) show ?thesis using e Some by fastforce
  qed
qed simp

lemma broadcast_waiting_host [simp]: "s_host (broadcast_waiting b s) = s_host s" "s_dirty (broadcast_waiting b s) = s_dirty s"
  by (simp_all add: broadcast_waiting_def s_emit_def Let_def)

lemma pass_loop_ends:
  assumes "tables_wf (h_db (s_host s))" "queue_budget (hc_max_rebinds cfg) (h_db (s_host s)) < n"
    and "queue_budget (hc_max_rebinds cfg) (h_db (s_host s)) < m"
  shows "\<exists>s' exclude. pass_loop n m cfg names now s = Some s' \<and> tables_wf (h_db (s_host s'))
    \<and> \<not> s_dirty s'
    \<and> (\<forall>r \<in> set (t_runs (h_db (s_host s'))). \<not> claimable (to_sec now) exclude (h_db (s_host s')) r)"
  using assms
proof (induction n arbitrary: s)
  case (Suc n)
  let ?s0 = "s\<lparr>s_dirty := False\<rparr>"
  let ?ex = "compute_install_blocked ?s0"
  let ?s1 = "broadcast_waiting (compute_paced_blocked (to_sec now) (h_db (s_host ?s0))) ?s0"
  have host: "s_host ?s1 = s_host s" "\<not> s_dirty ?s1" by simp_all
  have "tables_wf (h_db (s_host ?s1))" "queue_budget (hc_max_rebinds cfg) (h_db (s_host ?s1)) < m"
    using Suc.prems by (simp_all add: host)
  from claim_loop_ends [OF this, of names now ?ex] obtain s2 where s2: "claim_loop m cfg names now ?ex ?s1 = Some s2"
    "tables_wf (h_db (s_host s2))"
    "\<forall>r \<in> set (t_runs (h_db (s_host s2))). \<not> claimable (to_sec now) ?ex (h_db (s_host s2)) r"
    "s2 = ?s1 \<or> queue_budget (hc_max_rebinds cfg) (h_db (s_host s2)) < queue_budget (hc_max_rebinds cfg) (h_db (s_host ?s1))"
    by blast
  show ?case
  proof (cases "s_dirty s2")
    case False
    then show ?thesis using s2 by (auto simp: Let_def)
  next
    case True
    then have less: "queue_budget (hc_max_rebinds cfg) (h_db (s_host s2)) < queue_budget (hc_max_rebinds cfg) (h_db (s_host s))"
      using s2(4) host by auto
    then have "queue_budget (hc_max_rebinds cfg) (h_db (s_host s2)) < n" "queue_budget (hc_max_rebinds cfg) (h_db (s_host s2)) < m"
      using Suc.prems(2,3) by auto
    from Suc.IH [OF s2(2) this] show ?thesis using s2(1) True by (simp add: Let_def)
  qed
qed simp

section \<open>Properties\<close>


definition demo_scheduler :: scheduler where
  "demo_scheduler = \<lparr>s_host = demo_host, s_looping = False, s_dirty = False, s_previously_waiting = [],
     s_timer = False, s_events = []\<rparr>"


lemma expire_queued_rows:
  "t_runs (fst (expire_queued nowS d)) =
     map (\<lambda>r. if queue_expired nowS r then r\<lparr>r_status := RExpired, r_finished_at := Some nowS\<rparr> else r) (t_runs d)"
  by (simp add: expire_queued_def Let_def update_where_def)

text \<open>
  One expiry sweep turns exactly the queued runs whose time is up into expired ones, leaves every
  other row alone, leaves no overdue queued run behind, and hands over exactly the running runs whose
  heartbeat has passed.
\<close>

theorem expiry_sweep_exact:
  assumes "expiry_sweep nowS d = (d', events, expired)"
  shows "t_runs d' = map (\<lambda>r. if queue_expired nowS r then r\<lparr>r_status := RExpired, r_finished_at := Some nowS\<rparr> else r) (t_runs d)
    \<and> t_jobs d' = t_jobs d
    \<and> (\<forall>r \<in> set (t_runs d'). \<not> queue_expired nowS r)
    \<and> (\<forall>i. XHeartbeatExpired i \<in> set events \<longleftrightarrow>
         (\<exists>r \<in> set (t_runs d). r_id r = i \<and> running r \<and> (\<exists>t. r_heartbeat_expires_at r = Some t \<and> t < nowS)))"
proof -
  have d': "d' = fst (expire_queued nowS d)" using assms by (auto simp: expiry_sweep_def Let_def split_def)
  have rows: "t_runs d' = map (\<lambda>r. if queue_expired nowS r then r\<lparr>r_status := RExpired, r_finished_at := Some nowS\<rparr> else r) (t_runs d)"
    unfolding d' by (rule expire_queued_rows)
  have jobs: "t_jobs d' = t_jobs d" by (simp add: d' expire_queued_def Let_def)
  have none: "\<forall>r \<in> set (t_runs d'). \<not> queue_expired nowS r" by (auto simp: rows queue_expired_def)
  have lost: "XHeartbeatExpired i \<in> set events \<longleftrightarrow> i \<in> r_id ` set (expired_running nowS d')" for i
    using assms d' by (auto simp: expiry_sweep_def Let_def split_def split: option.splits if_splits)
  have old: "i \<in> r_id ` set (expired_running nowS d') \<longleftrightarrow>
      (\<exists>r \<in> set (t_runs d). r_id r = i \<and> running r \<and> (\<exists>t. r_heartbeat_expires_at r = Some t \<and> t < nowS))" for i
  proof -
    let ?f = "\<lambda>r. if queue_expired nowS r then r\<lparr>r_status := RExpired, r_finished_at := Some nowS\<rparr> else r"
    let ?Q = "\<lambda>r. running r \<and> (case r_heartbeat_expires_at r of None \<Rightarrow> False | Some t \<Rightarrow> t < nowS)"
    have "filter ?Q (map ?f rs) = filter ?Q rs" for rs
      by (induction rs) (simp_all add: queue_expired_def)
    then have eq: "expired_running nowS d' = filter ?Q (t_runs d)" by (simp add: expired_running_def rows)
    have Q: "(case h of None \<Rightarrow> False | Some t \<Rightarrow> t < nowS) \<longleftrightarrow> (\<exists>t. h = Some t \<and> t < nowS)" for h
      by (cases h) simp_all
    show ?thesis unfolding eq Q set_filter image_iff by blast
  qed
  show ?thesis using rows jobs none lost [unfolded old] by blast
qed

theorem expiry_sweep_exact_witness:
  "\<exists>d' events expired. expiry_sweep 41 (h_db (fst demo_first)) = (d', events, expired)
     \<and> XHeartbeatExpired ''rphone'' \<in> set events"
proof -
  obtain d' events expired where e: "expiry_sweep 41 (h_db (fst demo_first)) = (d', events, expired)"
    by (cases "expiry_sweep 41 (h_db (fst demo_first))") auto
  have "map (\<lambda>r. (r_id r, r_status r, r_heartbeat_expires_at r)) (t_runs (h_db (fst demo_first))) = [(''rphone'', RRunning, Some 40)]"
    by code_simp
  then obtain r where r: "t_runs (h_db (fst demo_first)) = [r]" "r_id r = ''rphone''" "running r" "r_heartbeat_expires_at r = Some 40"
    by auto
  show ?thesis using expiry_sweep_exact [OF e] e r by auto
qed

lemma fold_settle_waiter:
  "jm_get (w_results (fold (settle_waiter res) ws s)) w =
     (if w \<in> set ws \<and> jm_get (w_results s) w = Some Pending then Some res else jm_get (w_results s) w)"
proof (induction ws arbitrary: s)
  case (Cons v vs)
  have "jm_get (w_results (settle_waiter res v s)) u =
      (if u = v \<and> jm_get (w_results s) u = Some Pending then Some res else jm_get (w_results s) u)" for u
    by (auto simp: settle_waiter_def)
  then show ?case by (simp add: Cons.IH) (auto simp: settle_waiter_def)
qed simp

text \<open>
  Announcing a terminal run resolves every waiter subscribed to that run that is still pending,
  with its status, and no other waiter; announcing a run that is not terminal changes nothing.
\<close>

theorem watcher_notify_exact:
  "jm_get (w_results (watcher_notify run s)) w =
     (if terminal_status (r_status run) \<and> w \<in> set (coalesce (jm_get (w_waiters s) (r_id run)) [])
         \<and> jm_get (w_results s) w = Some Pending
      then Some (Resolved (r_status run)) else jm_get (w_results s) w)
   \<and> (terminal_status (r_status run) \<longrightarrow> jm_get (w_waiters (watcher_notify run s)) (r_id run) = None)"
proof -
  have waiters: "w_waiters (fold (settle_waiter res) ws t) = w_waiters t" for res ws t
    by (induction ws arbitrary: t) (auto simp: settle_waiter_def)
  show ?thesis
    by (auto simp: watcher_notify_def fold_settle_waiter waiters split: option.splits)
qed

theorem watcher_notify_exact_witness:
  "jm_get (w_waiters (watcher_notify (demo_member_run ''phone'' 0 RSuccess False)
      (wait_for_terminal (h_db demo_host) 4 ''rphone'' False \<lparr>w_waiters = [], w_results = []\<rparr>))) ''rphone'' = None
   \<and> jm_get (w_results (watcher_notify (demo_member_run ''phone'' 0 RSuccess False)
      (wait_for_terminal (h_db demo_host) 4 ''rphone'' False \<lparr>w_waiters = [], w_results = []\<rparr>))) 4 = Some (Resolved RSuccess)"
proof -
  have s: "jm_get (w_results (wait_for_terminal (h_db demo_host) 4 ''rphone'' False \<lparr>w_waiters = [], w_results = []\<rparr>)) 4 = Some Pending"
    "jm_get (w_waiters (wait_for_terminal (h_db demo_host) 4 ''rphone'' False \<lparr>w_waiters = [], w_results = []\<rparr>)) ''rphone'' = Some [4]"
    by code_simp+
  have r: "r_id (demo_member_run ''phone'' 0 RSuccess False) = ''rphone''"
    "r_status (demo_member_run ''phone'' 0 RSuccess False) = RSuccess" by (simp_all add: demo_member_run_def)
  show ?thesis
    using watcher_notify_exact [of "demo_member_run ''phone'' 0 RSuccess False"
        "wait_for_terminal (h_db demo_host) 4 ''rphone'' False \<lparr>w_waiters = [], w_results = []\<rparr>" 4]
    unfolding r using s by (simp add: terminal_status_def)
qed

end
