(* ===== verification/Bytes.thy ===== *)
theory Bytes
  imports Prelude "HOL-Library.Word"
begin

text \<open>
  Bytes and byte streams: the integer reads of a \<open>DataView\<close>, the platform's lossy UTF-8 decoder
  (\<open>TextDecoder.decode\<close>, as a list of code points), and the contract of an incremental parser.
  A parser that takes complete units off the front of what it has buffered gives the same result
  however its input was cut into chunks; the locale \<open>unit_parser\<close> proves it once.
\<close>

section \<open>Reading integers\<close>

type_synonym byte = "8 word"

fun le_value :: "byte list \<Rightarrow> nat" where
  "le_value [] = 0"
| "le_value (b # bs) = unat b + 256 * le_value bs"

definition be_value :: "byte list \<Rightarrow> nat" where
  "be_value bs = le_value (rev bs)"

text \<open>The \<open>n\<close> bytes at an offset; the callers' guards keep the offset in range.\<close>

definition bytes_at :: "nat \<Rightarrow> nat \<Rightarrow> 'b list \<Rightarrow> 'b list" where
  "bytes_at off n bs = take n (drop off bs)"

lemma bytes_at_append [simp]:
  "off + n \<le> length bs \<Longrightarrow> bytes_at off n (bs @ cs) = bytes_at off n bs"
  by (simp add: bytes_at_def)

lemma unat_byte_less: "unat (b :: byte) < 256"
  using unsigned_less [of b, where ?'a = nat] by simp

lemma le_value_append: "le_value (xs @ ys) = le_value xs + 256 ^ length xs * le_value ys"
  by (induction xs) (auto simp: algebra_simps)

lemma le_value_less: "le_value bs < 256 ^ length bs"
proof (induction bs)
  case (Cons b bs)
  from Cons unat_byte_less [of b] show ?case by simp
qed simp

lemma be_value_less: "be_value bs < 256 ^ length bs"
  using le_value_less [of "rev bs"] by (simp add: be_value_def)

text \<open>The bytes of a number, least significant first.\<close>

fun le_bytes :: "nat \<Rightarrow> nat \<Rightarrow> byte list" where
  "le_bytes 0 n = []"
| "le_bytes (Suc k) n = word_of_nat (n mod 256) # le_bytes k (n div 256)"

lemma le_bytes_numeral [simp]:
  "le_bytes (numeral k) n = word_of_nat (n mod 256) # le_bytes (pred_numeral k) (n div 256)"
  by (simp only: numeral_eq_Suc [of k] le_bytes.simps)

definition be_bytes :: "nat \<Rightarrow> nat \<Rightarrow> byte list" where
  "be_bytes k n = rev (le_bytes k n)"

lemma length_le_bytes [simp]: "length (le_bytes k n) = k"
  by (induction k arbitrary: n) auto

lemma length_be_bytes [simp]: "length (be_bytes k n) = k"
  by (simp add: be_bytes_def)

lemma unat_low_byte: "unat (word_of_nat (n mod 256) :: byte) = n mod 256"
  by (simp add: unat_of_nat)

lemma le_value_bytes: "n < 256 ^ k \<Longrightarrow> le_value (le_bytes k n) = n"
proof (induction k arbitrary: n)
  case (Suc k)
  then have "n div 256 < 256 ^ k" by (simp add: less_mult_imp_div_less mult.commute)
  with Suc.IH [of "n div 256"] show ?case by (simp add: unat_low_byte)
qed simp

lemma be_value_bytes: "n < 256 ^ k \<Longrightarrow> be_value (be_bytes k n) = n"
  by (simp add: be_value_def be_bytes_def le_value_bytes)

section \<open>UTF-8\<close>

text \<open>
  The decoder of the encoding standard: at each byte it knows the code point so far, how many
  continuation bytes it still needs and the range the next one must lie in. A broken sequence
  yields one U+FFFD and the offending byte is looked at again; a leading U+FEFF is dropped.
\<close>

record utf8_state =
  u_point :: nat
  u_needed :: nat
  u_lower :: nat
  u_upper :: nat

definition utf8_start :: utf8_state where
  "utf8_start = \<lparr>u_point = 0, u_needed = 0, u_lower = 128, u_upper = 191\<rparr>"

definition REPLACEMENT :: nat where
  "REPLACEMENT = 65533"

definition utf8_lead :: "nat \<Rightarrow> utf8_state \<times> nat list" where
  "utf8_lead b =
     (if b < 128 then (utf8_start, [b])
      else if 194 \<le> b \<and> b \<le> 223 then (utf8_start\<lparr>u_point := b - 192, u_needed := 1\<rparr>, [])
      else if 224 \<le> b \<and> b \<le> 239
        then (\<lparr>u_point = b - 224, u_needed = 2, u_lower = (if b = 224 then 160 else 128),
               u_upper = (if b = 237 then 159 else 191)\<rparr>, [])
      else if 240 \<le> b \<and> b \<le> 244
        then (\<lparr>u_point = b - 240, u_needed = 3, u_lower = (if b = 240 then 144 else 128),
               u_upper = (if b = 244 then 143 else 191)\<rparr>, [])
      else (utf8_start, [REPLACEMENT]))"

definition utf8_byte :: "utf8_state \<Rightarrow> nat \<Rightarrow> utf8_state \<times> nat list" where
  "utf8_byte s b =
     (if u_needed s = 0 then utf8_lead b
      else if b < u_lower s \<or> u_upper s < b
        then (let (s', out) = utf8_lead b in (s', REPLACEMENT # out))
      else let p = 64 * u_point s + (b - 128) in
        if u_needed s = 1 then (utf8_start, [p])
        else (\<lparr>u_point = p, u_needed = u_needed s - 1, u_lower = 128, u_upper = 191\<rparr>, []))"

fun utf8_run :: "utf8_state \<Rightarrow> byte list \<Rightarrow> nat list" where
  "utf8_run s [] = (if u_needed s = 0 then [] else [REPLACEMENT])"
| "utf8_run s (b # bs) = (let (s', out) = utf8_byte s (unat b) in out @ utf8_run s' bs)"

definition utf8_decode :: "byte list \<Rightarrow> nat list" where
  "utf8_decode bs = (case utf8_run utf8_start bs of [] \<Rightarrow> [] | c # cs \<Rightarrow> if c = 65279 then cs else c # cs)"

text \<open>Plain ASCII decodes to itself.\<close>

lemma utf8_run_ascii: "list_all (\<lambda>b. unat b < 128) bs \<Longrightarrow> utf8_run utf8_start bs = map unat bs"
  by (induction bs) (auto simp: utf8_byte_def utf8_lead_def utf8_start_def)

lemma utf8_decode_ascii: "list_all (\<lambda>b. unat b < 128) bs \<Longrightarrow> utf8_decode bs = map unat bs"
  unfolding utf8_decode_def utf8_run_ascii by (cases bs) auto

section \<open>Incremental parsers\<close>

text \<open>
  \<open>next_unit\<close> takes one complete unit off the buffered bytes, or says that more are needed;
  \<open>drain\<close> does so while it can. Bytes that arrive later do not change a unit that is complete.
\<close>

locale unit_parser =
  fixes next_unit :: "'s \<Rightarrow> 'b list \<Rightarrow> ('s \<times> 'b list) option"
    and drain :: "'s \<Rightarrow> 'b list \<Rightarrow> 's \<times> 'b list"
    and weight :: "'s \<Rightarrow> nat"
  assumes drain_unfold: "drain s b = (case next_unit s b of None \<Rightarrow> (s, b) | Some (s', r) \<Rightarrow> drain s' r)"
    and progress: "next_unit s b = Some (s', r) \<Longrightarrow> weight s' + length r < weight s + length b"
    and extend: "next_unit s b = Some (s', r) \<Longrightarrow> next_unit s (b @ c) = Some (s', r @ c)"
begin

lemma drain_append: "drain s (a @ b) = (case drain s a of (s', r) \<Rightarrow> drain s' (r @ b))"
proof (induction "weight s + length a" arbitrary: s a rule: less_induct)
  case less
  show ?case
  proof (cases "next_unit s a")
    case None
    then have "drain s a = (s, a)" by (subst drain_unfold) simp
    then show ?thesis by simp
  next
    case (Some p)
    obtain s' r where p: "p = (s', r)" by (cases p)
    from Some p have n: "next_unit s a = Some (s', r)" by simp
    have "drain s (a @ b) = drain s' (r @ b)" using extend [OF n, of b] by (subst drain_unfold) simp
    moreover have "drain s a = drain s' r" using n by (subst drain_unfold) simp
    ultimately show ?thesis using less [of s' r] progress [OF n] by simp
  qed
qed

lemma drain_stops: "drain s b = (s', r) \<Longrightarrow> next_unit s' r = None"
proof (induction "weight s + length b" arbitrary: s b rule: less_induct)
  case less
  show ?case
  proof (cases "next_unit s b")
    case None
    then have "drain s b = (s, b)" by (subst drain_unfold) simp
    with less.prems None show ?thesis by simp
  next
    case (Some p)
    obtain s1 r1 where n: "next_unit s b = Some (s1, r1)" using Some by (cases p) simp
    have "drain s b = drain s1 r1" using n by (subst drain_unfold) simp
    with less.prems less.hyps [of s1 r1] progress [OF n] show ?thesis by simp
  qed
qed

text \<open>Feeding chunks one at a time is feeding them at once.\<close>

lemma feed_chunks:
  "foldl (\<lambda>(s, r) c. drain s (r @ c)) (drain s []) cs = drain s (concat cs)"
proof (induction cs rule: rev_induct)
  case (snoc c cs)
  then show ?case using drain_append [of s "concat cs" c] by (simp add: split_def)
qed simp

lemma feed_chunks_from:
  "foldl (\<lambda>(s, r) c. drain s (r @ c)) (drain s b) cs = drain s (b @ concat cs)"
proof (induction cs rule: rev_induct)
  case (snoc c cs)
  then show ?case using drain_append [of s "b @ concat cs" c] by (simp add: split_def)
qed simp

end

end
