(* ===== verification/ShellFrames.thy ===== *)
theory ShellFrames
  imports Bytes
begin

text \<open>
  The adb shell protocol (\<open>packages/adb/src/shell-frames.ts\<close>): packets of one id byte, a little-endian
  32-bit length and a payload, parsed incrementally from chunks that TCP cuts anywhere; and the
  quoting of a word for the shell on the device (\<open>shell-quote.ts\<close>).
\<close>

section \<open>The packet parser\<close>

definition ID_STDOUT :: nat where "ID_STDOUT = 1"
definition ID_STDERR :: nat where "ID_STDERR = 2"
definition ID_EXIT :: nat where "ID_EXIT = 3"
definition HEADER_LEN :: nat where "HEADER_LEN = 5"

lemmas frame_constants = ID_STDOUT_def ID_STDERR_def ID_EXIT_def HEADER_LEN_def

record shell_output =
  so_stdout :: "byte list list"
  so_stderr :: "byte list list"
  so_exit :: "nat option"

record shell_parser =
  sp_pending :: "byte list"
  sp_output :: shell_output

record shell_result =
  sr_stdout :: "nat list"
  sr_stderr :: "nat list"
  sr_exit :: "nat option"

definition new_parser :: shell_parser where
  "new_parser = \<lparr>sp_pending = [], sp_output = \<lparr>so_stdout = [], so_stderr = [], so_exit = None\<rparr>\<rparr>"

text \<open>The \<open>switch\<close> on the packet id.\<close>

definition take_packet :: "nat \<Rightarrow> byte list \<Rightarrow> shell_output \<Rightarrow> shell_output" where
  "take_packet i payload out =
     (if i = ID_STDOUT then out\<lparr>so_stdout := so_stdout out @ [payload]\<rparr>
      else if i = ID_STDERR then out\<lparr>so_stderr := so_stderr out @ [payload]\<rparr>
      else if i = ID_EXIT then out\<lparr>so_exit := (case payload of [] \<Rightarrow> None | b # _ \<Rightarrow> Some (unat b))\<rparr>
      else out)"

text \<open>One turn of the loop on the bytes from \<open>offset\<close> on.\<close>

definition next_packet :: "shell_output \<Rightarrow> byte list \<Rightarrow> (shell_output \<times> byte list) option" where
  "next_packet out pending =
     (if length pending < HEADER_LEN then None
      else let i = unat (pending ! 0); len = le_value (bytes_at 1 4 pending); total = HEADER_LEN + len in
           if length pending < total then None
           else Some (take_packet i (bytes_at HEADER_LEN len pending) out, drop total pending))"

lemma next_packet_shorter: "next_packet out p = Some (out', r) \<Longrightarrow> length r < length p"
  by (auto simp: next_packet_def Let_def frame_constants split: if_splits)

function shell_drain :: "shell_output \<Rightarrow> byte list \<Rightarrow> shell_output \<times> byte list" where
  "shell_drain out pending =
     (case next_packet out pending of None \<Rightarrow> (out, pending) | Some (out', rest) \<Rightarrow> shell_drain out' rest)"
  by auto
termination
  by (relation "measure (length \<circ> snd)") (auto dest: next_packet_shorter)

declare shell_drain.simps [simp del]

definition shell_push :: "byte list \<Rightarrow> shell_parser \<Rightarrow> shell_parser" where
  "shell_push chunk p =
     (if chunk = [] then p
      else let (out, rest) = shell_drain (sp_output p) (sp_pending p @ chunk)
           in \<lparr>sp_pending = rest, sp_output = out\<rparr>)"

definition parser_result :: "shell_parser \<Rightarrow> shell_result" where
  "parser_result p = \<lparr>sr_stdout = utf8_decode (concat (so_stdout (sp_output p))),
     sr_stderr = utf8_decode (concat (so_stderr (sp_output p))), sr_exit = so_exit (sp_output p)\<rparr>"

lemma next_packet_append:
  assumes "next_packet out p = Some (out', r)"
  shows "next_packet out (p @ c) = Some (out', r @ c)"
  using assms by (auto simp: next_packet_def Let_def frame_constants nth_append split: if_splits)

interpretation frames: unit_parser next_packet shell_drain "\<lambda>_. 0"
proof
  show "shell_drain s b = (case next_packet s b of None \<Rightarrow> (s, b) | Some (s', r) \<Rightarrow> shell_drain s' r)" for s b
    by (rule shell_drain.simps)
qed (auto dest: next_packet_shorter next_packet_append)

definition shell_feed :: "byte list list \<Rightarrow> shell_parser" where
  "shell_feed chunks = foldl (\<lambda>p c. shell_push c p) new_parser chunks"

text \<open>Every parser state is drained: nothing complete is left in \<open>pending\<close>.\<close>

definition parser_state :: "shell_parser \<Rightarrow> shell_output \<times> byte list" where
  "parser_state p = (sp_output p, sp_pending p)"

lemma feed_state:
  "parser_state (shell_feed cs) = shell_drain (sp_output new_parser) (concat cs)"
proof (induction cs rule: rev_induct)
  case Nil
  show ?case by (subst shell_drain.simps) (simp add: shell_feed_def parser_state_def new_parser_def next_packet_def frame_constants)
next
  case (snoc c cs)
  show ?case
  proof (cases "c = []")
    case True
    with snoc show ?thesis by (simp add: shell_feed_def shell_push_def)
  next
    case False
    have "shell_drain (sp_output new_parser) (concat cs @ c)
        = shell_drain (sp_output (shell_feed cs)) (sp_pending (shell_feed cs) @ c)"
      using frames.drain_append [of "sp_output new_parser" "concat cs" c] snoc [symmetric]
      by (simp add: parser_state_def)
    with False show ?thesis by (simp add: shell_feed_def shell_push_def parser_state_def split_def Let_def)
  qed
qed

lemma parser_state_inject: "parser_state p = parser_state q \<Longrightarrow> p = q"
  by (simp add: parser_state_def)

section \<open>The wire format\<close>

text \<open>A packet as the device writes it.\<close>

definition packet_bytes :: "nat \<times> byte list \<Rightarrow> byte list" where
  "packet_bytes p = word_of_nat (fst p) # le_bytes 4 (length (snd p)) @ snd p"

definition sendable :: "nat \<times> byte list \<Rightarrow> bool" where
  "sendable p \<longleftrightarrow> fst p < 256 \<and> length (snd p) < 2 ^ 32"

lemma next_packet_bytes:
  assumes "sendable p"
  shows "next_packet out (packet_bytes p @ rest) = Some (take_packet (fst p) (snd p) out, rest)"
proof -
  have len: "le_value (le_bytes 4 (length (snd p))) = length (snd p)"
    using assms by (intro le_value_bytes) (simp add: sendable_def)
  have i: "unat (word_of_nat (fst p) :: byte) = fst p" using assms by (simp add: sendable_def unat_of_nat)
  have at: "bytes_at (Suc 0) 4 (packet_bytes p @ rest) = le_bytes 4 (length (snd p))"
    by (simp add: bytes_at_def packet_bytes_def)
  have "length (packet_bytes p) = 5 + length (snd p)" by (simp add: packet_bytes_def)
  then have "drop (5 + length (snd p)) (packet_bytes p @ rest) = rest" by (metis append_eq_conv_conj)
  moreover have "bytes_at 5 (length (snd p)) (packet_bytes p @ rest) = snd p"
    by (simp add: bytes_at_def packet_bytes_def)
  ultimately show ?thesis using len i at by (simp add: next_packet_def Let_def frame_constants) (simp add: packet_bytes_def)
qed

lemma drain_packets:
  "list_all sendable ps \<Longrightarrow>
   shell_drain out (concat (map packet_bytes ps)) = (fold (\<lambda>p. take_packet (fst p) (snd p)) ps out, [])"
proof (induction ps arbitrary: out)
  case Nil
  show ?case by (subst shell_drain.simps) (simp add: next_packet_def frame_constants)
next
  case (Cons p ps)
  then show ?case by (subst shell_drain.simps) (simp add: next_packet_bytes)
qed

lemma fold_take_packet:
  "concat (so_stdout (fold (\<lambda>p. take_packet (fst p) (snd p)) ps out))
     = concat (so_stdout out) @ concat (map snd (filter (\<lambda>p. fst p = ID_STDOUT) ps))"
  "concat (so_stderr (fold (\<lambda>p. take_packet (fst p) (snd p)) ps out))
     = concat (so_stderr out) @ concat (map snd (filter (\<lambda>p. fst p = ID_STDERR) ps))"
  by (induction ps arbitrary: out) (auto simp: take_packet_def frame_constants)

lemma fold_take_packet_exit:
  "list_all (\<lambda>p. fst p \<noteq> ID_EXIT) ps \<Longrightarrow> so_exit (fold (\<lambda>p. take_packet (fst p) (snd p)) ps out) = so_exit out"
  by (induction ps arbitrary: out) (auto simp: take_packet_def frame_constants)

text \<open>
  C26: Whatever packets the device writes and however TCP cuts the byte stream, the parser ends with
  nothing pending and with exactly the bytes of the stdout packets, of the stderr packets, and the
  exit code of the exit packet, each in the order written.
\<close>

theorem shell_stream_roundtrip:
  assumes "list_all sendable (ps @ [(3, [code])])" "list_all (\<lambda>p. fst p \<noteq> ID_EXIT) ps"
    and "concat chunks = concat (map packet_bytes (ps @ [(3, [code])]))"
  shows "sp_pending (shell_feed chunks) = []
    \<and> parser_result (shell_feed chunks) =
       \<lparr>sr_stdout = utf8_decode (concat (map snd (filter (\<lambda>p. fst p = ID_STDOUT) ps))),
        sr_stderr = utf8_decode (concat (map snd (filter (\<lambda>p. fst p = ID_STDERR) ps))),
        sr_exit = Some (unat code)\<rparr>"
proof -
  let ?out = "fold (\<lambda>p. take_packet (fst p) (snd p)) (ps @ [(3, [code])]) (sp_output new_parser)"
  have "parser_state (shell_feed chunks) = (?out, [])"
    unfolding feed_state assms(3) using assms(1) by (rule drain_packets)
  then have "sp_output (shell_feed chunks) = ?out" "sp_pending (shell_feed chunks) = []"
    by (simp_all add: parser_state_def)
  moreover have "so_exit ?out = Some (unat code)" by (simp add: take_packet_def frame_constants)
  ultimately show ?thesis
    by (simp only: parser_result_def fold_take_packet) (simp add: new_parser_def frame_constants)
qed

definition demo_packets :: "(nat \<times> byte list) list" where
  "demo_packets = [(1, [104, 105]), (2, [33]), (1, [10])]"

theorem shell_stream_roundtrip_witness:
  "parser_result (shell_feed [[1, 2, 0], [0, 0, 104, 105, 2, 1, 0, 0, 0, 33, 1, 1], [0, 0, 0, 10, 3, 1, 0, 0, 0, 7]])
   = \<lparr>sr_stdout = [104, 105, 10], sr_stderr = [33], sr_exit = Some 7\<rparr>"
proof -
  have ok: "list_all sendable (demo_packets @ [(3, [7])])" "list_all (\<lambda>p. fst p \<noteq> ID_EXIT) demo_packets"
    by (simp_all add: demo_packets_def sendable_def frame_constants)
  have bytes: "concat [[1, 2, 0], [0, 0, 104, 105, 2, 1, 0, 0, 0, 33, 1, 1], [0, 0, 0, 10, 3, 1, 0, 0, 0, 7]]
      = concat (map packet_bytes (demo_packets @ [(3, [7])]))"
    by (simp add: demo_packets_def packet_bytes_def)
  show ?thesis
    using shell_stream_roundtrip [OF ok bytes]
    by (simp add: demo_packets_def frame_constants utf8_decode_ascii)
qed

text \<open>
  The parser is independent of chunk boundaries: feeding any chunks, empty ones included, is
  feeding their concatenation in one piece, and what stays pending never holds a complete packet.
\<close>

theorem shell_chunks_irrelevant:
  "shell_feed chunks = shell_feed [concat chunks]
   \<and> next_packet (sp_output (shell_feed chunks)) (sp_pending (shell_feed chunks)) = None"
proof
  show "shell_feed chunks = shell_feed [concat chunks]"
    by (rule parser_state_inject) (simp add: feed_state)
  have "shell_drain (sp_output new_parser) (concat chunks) = (sp_output (shell_feed chunks), sp_pending (shell_feed chunks))"
    using feed_state [of chunks] by (simp add: parser_state_def)
  then show "next_packet (sp_output (shell_feed chunks)) (sp_pending (shell_feed chunks)) = None"
    by (rule frames.drain_stops)
qed

section \<open>Quoting\<close>

abbreviation QUOTE :: char where "QUOTE \<equiv> CHR 0x27"
abbreviation BACKSLASH :: char where "BACKSLASH \<equiv> CHR 0x5C"

definition shell_quote :: "string \<Rightarrow> string" where
  "shell_quote value =
     [QUOTE] @ concat (map (\<lambda>c. if c = QUOTE then [QUOTE, BACKSLASH, QUOTE, QUOTE] else [c]) value) @ [QUOTE]"

text \<open>
  One word of the POSIX shell language, read as the shell reads it: literal between single quotes,
  a backslash quotes the next character, and any unquoted character outside the portable file-name set ends
  the word or has a meaning of its own, which is reported as no word.
\<close>

definition plain_char :: "char \<Rightarrow> bool" where
  "plain_char c \<longleftrightarrow> c \<in> set ''abcdefghijklmnopqrstuvwxyzABCDEFGHIJKLMNOPQRSTUVWXYZ0123456789._-/:@%+,''"

fun shell_word :: "bool \<Rightarrow> string \<Rightarrow> string option" where
  "shell_word True [] = None"
| "shell_word True (c # cs) = (if c = QUOTE then shell_word False cs else map_option ((#) c) (shell_word True cs))"
| "shell_word False [] = Some []"
| "shell_word False (c # cs) =
     (if c = QUOTE then shell_word True cs
      else if c = BACKSLASH then (case cs of [] \<Rightarrow> None | d # ds \<Rightarrow> map_option ((#) d) (shell_word False ds))
      else if plain_char c then map_option ((#) c) (shell_word False cs) else None)"

text \<open>
  C27: A quoted value is read back by the shell as one word equal to the value, whatever characters
  it holds: no character of the value can end the word or be given a meaning.
\<close>

theorem shell_quote_roundtrip: "shell_word False (shell_quote value) = Some value"
proof -
  have "shell_word True (concat (map (\<lambda>c. if c = QUOTE then [QUOTE, BACKSLASH, QUOTE, QUOTE] else [c]) value) @ [QUOTE])
      = Some value"
    by (induction "value") auto
  then show ?thesis by (simp add: shell_quote_def)
qed

end
