(* ===== verification/ByteRing.thy ===== *)
theory ByteRing
  imports Bytes
begin

text \<open>
  The byte window of the video parser (\<open>packages/scrcpy/src/byte-ring.ts\<close>): one backing array with a
  head and a tail, compacted when a push would overrun its end and doubled only when the pending
  bytes and the chunk do not fit. A push that has to grow an array of capacity 0 never returns.
\<close>

section \<open>The window\<close>

record ring_stats =
  rs_capacity :: nat
  rs_pending :: nat
  rs_pushed :: nat
  rs_push_copied :: nat
  rs_compaction_copied :: nat
  rs_compactions :: nat
  rs_grows :: nat

record ring =
  rg_buf :: "byte list"
  rg_head :: nat
  rg_tail :: nat
  rg_stat :: ring_stats

datatype range_error = RangeError nat nat

definition new_ring :: "nat \<Rightarrow> ring" where
  "new_ring cap = \<lparr>rg_buf = replicate cap 0, rg_head = 0, rg_tail = 0,
     rg_stat = \<lparr>rs_capacity = cap, rs_pending = 0, rs_pushed = 0, rs_push_copied = 0, rs_compaction_copied = 0,
                rs_compactions = 0, rs_grows = 0\<rparr>\<rparr>"

definition ring_length :: "ring \<Rightarrow> nat" where
  "ring_length r = rg_tail r - rg_head r"

text \<open>The pending bytes, what \<open>view\<close> exposes.\<close>

definition ring_view :: "ring \<Rightarrow> byte list" where
  "ring_view r = bytes_at (rg_head r) (ring_length r) (rg_buf r)"

text \<open>\<open>while (cap < need) cap *= 2\<close>; doubling zero never gets there.\<close>

partial_function (option) grow_cap :: "nat \<Rightarrow> nat \<Rightarrow> nat option" where
  "grow_cap need cap = (if cap < need then grow_cap need (cap * 2) else Some cap)"

text \<open>Room for the chunk behind \<open>tail\<close>: grow, or compact, or leave the window where it is.\<close>

definition make_room :: "nat \<Rightarrow> ring \<Rightarrow> ring option" where
  "make_room n r =
     (let pending = rg_tail r - rg_head r; cap0 = length (rg_buf r) in
      if rg_tail r + n > cap0 then
        (if pending + n > cap0 then
           (case grow_cap (pending + n) cap0 of
              None \<Rightarrow> None
            | Some cap \<Rightarrow> Some (r\<lparr>rg_buf := ring_view r @ replicate (cap - pending) 0, rg_head := 0, rg_tail := pending,
                rg_stat := (rg_stat r)\<lparr>rs_grows := rs_grows (rg_stat r) + 1, rs_capacity := cap,
                  rs_compaction_copied := rs_compaction_copied (rg_stat r) + pending\<rparr>\<rparr>))
         else Some (r\<lparr>rg_buf := ring_view r @ drop pending (rg_buf r), rg_head := 0, rg_tail := pending,
                rg_stat := (rg_stat r)\<lparr>rs_compactions := rs_compactions (rg_stat r) + 1,
                  rs_compaction_copied := rs_compaction_copied (rg_stat r) + pending\<rparr>\<rparr>))
      else Some r)"

definition ring_push :: "byte list \<Rightarrow> ring \<Rightarrow> ring option" where
  "ring_push chunk r =
     map_option (\<lambda>r1. r1\<lparr>rg_buf := take (rg_tail r1) (rg_buf r1) @ chunk @ drop (rg_tail r1 + length chunk) (rg_buf r1),
         rg_tail := rg_tail r1 + length chunk,
         rg_stat := (rg_stat r1)\<lparr>rs_pushed := rs_pushed (rg_stat r1) + length chunk,
           rs_push_copied := rs_push_copied (rg_stat r1) + length chunk\<rparr>\<rparr>) (make_room (length chunk) r)"

definition ring_skip :: "nat \<Rightarrow> ring \<Rightarrow> range_error + ring" where
  "ring_skip n r =
     (if ring_length r < n then Inl (RangeError n (ring_length r))
      else let h = rg_head r + n in
           Inr (if h = rg_tail r then r\<lparr>rg_head := 0, rg_tail := 0\<rparr> else r\<lparr>rg_head := h\<rparr>))"

definition ring_read :: "nat \<Rightarrow> ring \<Rightarrow> range_error + byte list \<times> ring" where
  "ring_read n r =
     (if ring_length r < n then Inl (RangeError n (ring_length r))
      else case ring_skip n r of
             Inl e \<Rightarrow> Inl e
           | Inr r' \<Rightarrow> Inr (bytes_at (rg_head r) n (rg_buf r), r'))"

definition ring_stats_of :: "ring \<Rightarrow> ring_stats" where
  "ring_stats_of r = (rg_stat r)\<lparr>rs_pending := ring_length r\<rparr>"

section \<open>The invariant\<close>

definition ring_ok :: "ring \<Rightarrow> bool" where
  "ring_ok r \<longleftrightarrow> rg_head r \<le> rg_tail r \<and> rg_tail r \<le> length (rg_buf r) \<and> 0 < length (rg_buf r)
     \<and> rs_capacity (rg_stat r) = length (rg_buf r) \<and> rs_push_copied (rg_stat r) = rs_pushed (rg_stat r)"

lemma new_ring_ok: "0 < cap \<Longrightarrow> ring_ok (new_ring cap)"
  by (simp add: ring_ok_def new_ring_def)

lemma ring_view_new [simp]: "ring_view (new_ring cap) = []"
  by (simp add: ring_view_def new_ring_def ring_length_def bytes_at_def)

lemma length_ring_view [simp]: "ring_ok r \<Longrightarrow> length (ring_view r) = ring_length r"
  by (auto simp: ring_view_def ring_ok_def ring_length_def bytes_at_def min_def)

lemma ring_view_moved [simp]:
  "length v = p \<Longrightarrow> ring_view (r\<lparr>rg_buf := v @ rest, rg_head := 0, rg_tail := p, rg_stat := st\<rparr>) = v"
  by (simp add: ring_view_def ring_length_def bytes_at_def)

text \<open>Doubling a positive capacity ends, with less than twice what was asked for.\<close>

lemma grow_cap_returns:
  assumes "0 < cap"
  shows "\<exists>c. grow_cap need cap = Some c \<and> need \<le> c \<and> cap \<le> c \<and> (c = cap \<or> c < 2 * need)"
  using assms
proof (induction "need - cap" arbitrary: cap rule: less_induct)
  case less
  show ?case
  proof (cases "cap < need")
    case True
    with less.prems less.hyps [of "cap * 2"] obtain c where
      "grow_cap need (cap * 2) = Some c" "need \<le> c" "cap * 2 \<le> c" "c = cap * 2 \<or> c < 2 * need" by fastforce
    with True show ?thesis by (subst grow_cap.simps) auto
  qed (subst grow_cap.simps, simp)
qed

lemma grow_cap_zero: "0 < need \<Longrightarrow> grow_cap need 0 = None"
proof (rule ccontr)
  assume "0 < need" "grow_cap need 0 \<noteq> None"
  then obtain y where "grow_cap need 0 = Some y" by blast
  then have "0 < need \<longrightarrow> (0::nat) \<noteq> 0"
    by (rule grow_cap.raw_induct [where P = "\<lambda>n c _. 0 < n \<longrightarrow> c \<noteq> 0", rotated]) (fastforce split: if_splits)
  with \<open>0 < need\<close> show False by simp
qed

lemma make_room_ok:
  assumes "ring_ok r"
  shows "\<exists>r'. make_room n r = Some r' \<and> ring_ok r' \<and> ring_view r' = ring_view r \<and> rg_tail r' + n \<le> length (rg_buf r')
    \<and> length (rg_buf r') \<le> max (length (rg_buf r)) (2 * (ring_length r + n))
    \<and> rs_pushed (rg_stat r') = rs_pushed (rg_stat r)"
proof -
  let ?p = "rg_tail r - rg_head r"
  have len: "length (ring_view r) = ?p" using assms by (simp add: ring_length_def)
  consider "rg_tail r + n \<le> length (rg_buf r)" | "length (rg_buf r) < rg_tail r + n" "?p + n \<le> length (rg_buf r)"
    | "length (rg_buf r) < rg_tail r + n" "length (rg_buf r) < ?p + n" by linarith
  then show ?thesis
  proof cases
    case 1
    with assms show ?thesis by (simp add: make_room_def)
  next
    case 2
    with assms len show ?thesis
      by (auto simp: make_room_def ring_ok_def Let_def ring_length_def)
  next
    case 3
    from assms have "0 < length (rg_buf r)" by (simp add: ring_ok_def)
    from grow_cap_returns [OF this, of "?p + n"] 3 obtain c where
      c: "grow_cap (?p + n) (length (rg_buf r)) = Some c" "?p + n \<le> c" "length (rg_buf r) \<le> c" "c < 2 * (?p + n)" by auto
    with 3 assms len show ?thesis
      by (auto simp: make_room_def ring_ok_def Let_def ring_length_def)
  qed
qed

lemma window_after_write:
  assumes "h \<le> t" "t \<le> length b"
  shows "take (t + length c - h) (drop h (take t b @ c @ rest)) = take (t - h) (drop h b) @ c"
proof -
  have "drop h (take t b @ c @ rest) = drop h (take t b) @ c @ rest" using assms by simp
  moreover have "length (drop h (take t b)) = t - h" using assms by simp
  moreover have "t + length c - h = (t - h) + length c" using assms by simp
  ultimately show ?thesis by (simp add: drop_take)
qed

lemma ring_push_ok:
  assumes "ring_ok r"
  shows "\<exists>r'. ring_push c r = Some r' \<and> ring_ok r' \<and> ring_view r' = ring_view r @ c
    \<and> length (rg_buf r') \<le> max (length (rg_buf r)) (2 * (ring_length r + length c))
    \<and> rs_pushed (rg_stat r') = rs_pushed (rg_stat r) + length c"
proof -
  from make_room_ok [OF assms, of "length c"] obtain r1 where
    r1: "make_room (length c) r = Some r1" "ring_ok r1" "ring_view r1 = ring_view r"
      "rg_tail r1 + length c \<le> length (rg_buf r1)"
      "length (rg_buf r1) \<le> max (length (rg_buf r)) (2 * (ring_length r + length c))"
      "rs_pushed (rg_stat r1) = rs_pushed (rg_stat r)" by blast
  let ?r = "r1\<lparr>rg_buf := take (rg_tail r1) (rg_buf r1) @ c @ drop (rg_tail r1 + length c) (rg_buf r1),
      rg_tail := rg_tail r1 + length c,
      rg_stat := (rg_stat r1)\<lparr>rs_pushed := rs_pushed (rg_stat r1) + length c,
        rs_push_copied := rs_push_copied (rg_stat r1) + length c\<rparr>\<rparr>"
  have p: "ring_push c r = Some ?r" using r1(1) by (simp add: ring_push_def)
  have "rg_head r1 \<le> rg_tail r1" "rg_tail r1 \<le> length (rg_buf r1)" using r1(2) by (simp_all add: ring_ok_def)
  then have v: "ring_view ?r = ring_view r1 @ c"
    by (simp add: ring_view_def ring_length_def bytes_at_def window_after_write drop_take)
  have k: "ring_ok ?r" "length (rg_buf ?r) = length (rg_buf r1)" using r1(2,4) by (auto simp: ring_ok_def)
  show ?thesis using p v k r1(3,5,6) by (intro exI [of _ ?r]) simp
qed

lemma ring_skip_ok:
  assumes "ring_ok r" "n \<le> ring_length r"
  shows "\<exists>r'. ring_skip n r = Inr r' \<and> ring_ok r' \<and> ring_view r' = drop n (ring_view r) \<and> rg_buf r' = rg_buf r
    \<and> ring_length r' = ring_length r - n"
  using assms
  by (auto simp: ring_skip_def ring_ok_def ring_view_def ring_length_def bytes_at_def Let_def drop_take add.commute)

lemma ring_read_ok:
  assumes "ring_ok r" "n \<le> ring_length r"
  shows "\<exists>r'. ring_read n r = Inr (take n (ring_view r), r') \<and> ring_ok r' \<and> ring_view r' = drop n (ring_view r)"
proof -
  from ring_skip_ok [OF assms] obtain r' where "ring_skip n r = Inr r'" "ring_ok r'" "ring_view r' = drop n (ring_view r)"
    by blast
  with assms(2) show ?thesis by (simp add: ring_read_def ring_view_def bytes_at_def min_absorb1)
qed

lemma ring_skip_shorter: "ring_skip n r = Inr r' \<Longrightarrow> 0 < n \<Longrightarrow> ring_length r' < ring_length r"
  by (auto simp: ring_skip_def ring_length_def Let_def split: if_splits)

lemma ring_skip_le: "ring_skip n r = Inr r' \<Longrightarrow> ring_length r' \<le> ring_length r"
  by (auto simp: ring_skip_def ring_length_def Let_def split: if_splits)

lemma ring_read_le: "ring_read n r = Inr (b, r') \<Longrightarrow> ring_length r' \<le> ring_length r"
  by (auto simp: ring_read_def dest: ring_skip_le split: if_splits sum.splits)

section \<open>The contract of a byte queue\<close>

datatype 'b fifo_op = Push "'b list" | Read nat

text \<open>A client's traffic: what is read, in order, and the queue it leaves; a failed read ends it.\<close>

fun fifo_run :: "('b list \<Rightarrow> 'r \<Rightarrow> 'r option) \<Rightarrow> (nat \<Rightarrow> 'r \<Rightarrow> 'e + 'b list \<times> 'r) \<Rightarrow> 'b fifo_op list \<Rightarrow> 'r
    \<Rightarrow> ('b list \<times> 'r) option" where
  "fifo_run push rd [] r = Some ([], r)"
| "fifo_run push rd (Push c # ops) r = (case push c r of None \<Rightarrow> None | Some r' \<Rightarrow> fifo_run push rd ops r')"
| "fifo_run push rd (Read n # ops) r = (case rd n r of Inl _ \<Rightarrow> None
     | Inr (out, r') \<Rightarrow> map_option (\<lambda>(rest, r''). (out @ rest, r'')) (fifo_run push rd ops r'))"

fun pushed :: "'b fifo_op list \<Rightarrow> 'b list" where
  "pushed [] = []"
| "pushed (Push c # ops) = c @ pushed ops"
| "pushed (Read n # ops) = pushed ops"

fun affordable :: "nat \<Rightarrow> 'b fifo_op list \<Rightarrow> bool" where
  "affordable k [] = True"
| "affordable k (Push c # ops) = affordable (k + length c) ops"
| "affordable k (Read n # ops) = (n \<le> k \<and> affordable (k - n) ops)"

locale byte_fifo =
  fixes contents :: "'r \<Rightarrow> 'b list"
    and ok :: "'r \<Rightarrow> bool"
    and push :: "'b list \<Rightarrow> 'r \<Rightarrow> 'r option"
    and rd :: "nat \<Rightarrow> 'r \<Rightarrow> 'e + 'b list \<times> 'r"
  assumes push_contents: "ok r \<Longrightarrow> \<exists>r'. push c r = Some r' \<and> ok r' \<and> contents r' = contents r @ c"
    and read_contents: "ok r \<Longrightarrow> n \<le> length (contents r) \<Longrightarrow>
        \<exists>r'. rd n r = Inr (take n (contents r), r') \<and> ok r' \<and> contents r' = drop n (contents r)"
begin

text \<open>Nothing is lost, repeated or reordered, and no affordable operation fails.\<close>

lemma in_order:
  "ok r \<Longrightarrow> affordable (length (contents r)) ops \<Longrightarrow>
   \<exists>out r'. fifo_run push rd ops r = Some (out, r') \<and> ok r' \<and> out @ contents r' = contents r @ pushed ops"
proof (induction ops arbitrary: r)
  case (Cons x ops)
  show ?case
  proof (cases x)
    case (Push c)
    from push_contents [OF Cons.prems(1), of c] obtain r1 where
      r1: "push c r = Some r1" "ok r1" "contents r1 = contents r @ c" by blast
    with Cons.prems Push have "affordable (length (contents r1)) ops" by simp
    from Cons.IH [OF r1(2) this] r1 Push show ?thesis by auto
  next
    case (Read n)
    with Cons.prems have n: "n \<le> length (contents r)" by simp
    from read_contents [OF Cons.prems(1) n] obtain r1 where
      r1: "rd n r = Inr (take n (contents r), r1)" "ok r1" "contents r1 = drop n (contents r)" by blast
    with Cons.prems Read have "affordable (length (contents r1)) ops" by simp
    from Cons.IH [OF r1(2) this] obtain out r' where
      rest: "fifo_run push rd ops r1 = Some (out, r')" "ok r'" "out @ contents r' = contents r1 @ pushed ops" by blast
    have "(take n (contents r) @ out) @ contents r' = take n (contents r) @ (drop n (contents r) @ pushed ops)"
      using rest(3) r1(3) by simp
    also have "\<dots> = contents r @ pushed (x # ops)" using Read by (simp flip: append_assoc)
    finally have "(take n (contents r) @ out) @ contents r' = contents r @ pushed (x # ops)" .
    moreover have "fifo_run push rd (x # ops) r = Some (take n (contents r) @ out, r')"
      using Read r1(1) rest(1) by simp
    ultimately show ?thesis using rest(2) by blast
  qed
qed simp

end

interpretation window: byte_fifo ring_view ring_ok ring_push ring_read
proof
  show "\<exists>r'. ring_push c r = Some r' \<and> ring_ok r' \<and> ring_view r' = ring_view r @ c" if "ring_ok r" for r c
    using ring_push_ok [OF that, of c] by blast
  show "\<exists>r'. ring_read n r = Inr (take n (ring_view r), r') \<and> ring_ok r' \<and> ring_view r' = drop n (ring_view r)"
    if "ring_ok r" "n \<le> length (ring_view r)" for r n
    using ring_read_ok [OF that(1)] that by simp
qed

text \<open>
  C25: The byte window is a queue: through any sequence of pushes and of reads of at most what is
  pending, compacting and growing as it goes, no operation fails, the bytes read are the bytes pushed
  in order, and what is left pending is the rest.
\<close>

theorem ring_is_a_queue:
  assumes "0 < cap" "affordable 0 ops"
  shows "\<exists>out r. fifo_run ring_push ring_read ops (new_ring cap) = Some (out, r) \<and> out @ ring_view r = pushed ops"
  using window.in_order [OF new_ring_ok [OF assms(1)], of ops] assms(2) by auto

theorem ring_is_a_queue_witness:
  "\<exists>out r. fifo_run ring_push ring_read [Push [1, 2, 3], Read 2, Push [4, 5, 6], Read 3] (new_ring 4) = Some (out, r)
     \<and> out @ ring_view r = [1, 2, 3, 4, 5, 6]"
  using ring_is_a_queue [of 4 "[Push [1, 2, 3], Read 2, Push [4, 5, 6], Read 3]"] by simp

text \<open>
  A push on a window of positive capacity returns, and its backing array stays below twice the
  largest amount ever pending; on a window of capacity zero a push of any byte never returns.
\<close>

theorem ring_push_returns:
  "(ring_ok r \<longrightarrow> (\<exists>r'. ring_push c r = Some r' \<and> ring_ok r'
       \<and> length (rg_buf r') \<le> max (length (rg_buf r)) (2 * (ring_length r + length c))))
   \<and> (ring_push c (new_ring 0) = None \<longleftrightarrow> c \<noteq> [])"
proof (intro conjI impI)
  assume "ring_ok r"
  then show "\<exists>r'. ring_push c r = Some r' \<and> ring_ok r'
       \<and> length (rg_buf r') \<le> max (length (rg_buf r)) (2 * (ring_length r + length c))"
    using ring_push_ok [of r c] by blast
next
  show "ring_push c (new_ring 0) = None \<longleftrightarrow> c \<noteq> []"
    by (auto simp: ring_push_def make_room_def new_ring_def grow_cap_zero)
qed

theorem ring_push_returns_witness:
  "(\<exists>r'. ring_push [7] (new_ring 1) = Some r' \<and> ring_ok r' \<and> length (rg_buf r') \<le> 2) \<and> ring_push [7] (new_ring 0) = None"
proof -
  have "length (rg_buf (new_ring 1)) = 1" "ring_length (new_ring 1) = 0" by (simp_all add: new_ring_def ring_length_def)
  with ring_push_returns [of "new_ring 1" "[7]"] new_ring_ok [of 1] show ?thesis by auto
qed

end
