(* ===== verification/Demuxer.thy ===== *)
theory Demuxer
  imports ByteRing
begin

text \<open>
  The video demuxer (\<open>packages/scrcpy/src/demuxer.ts\<close>): an optional dummy byte, a 64-byte device
  name, the codec header, then frames of a 12-byte header and a payload, parsed from the byte
  window. A header that declares more than 16 MiB stops the demuxer for good. Callbacks are events.
\<close>

section \<open>Data\<close>

datatype video_codec = H264 | H265 | AV1

record video_meta =
  vm_device_name :: "nat list"
  vm_codec :: video_codec
  vm_width :: nat
  vm_height :: nat

datatype packet_kind = PkConfig | PkKeyframe | PkFrame

record scrcpy_packet =
  pk_kind :: packet_kind
  pk_pts_us :: "nat option"
  pk_received_at :: millis
  pk_data :: "byte list"

datatype demux_error = FrameTooLarge nat | BadRange range_error

datatype demux_event = OnMeta video_meta | OnPacket scrcpy_packet | OnError demux_error

datatype stage = Dummy | Name | Meta | Frames

record demux_core =
  dc_stopped :: bool
  dc_stage :: stage
  dc_meta :: "video_meta option"
  dc_events :: "demux_event list"

record demuxer =
  dm_core :: demux_core
  dm_ring :: ring

definition PTS_FLAG_CONFIG :: "64 word" where "PTS_FLAG_CONFIG = push_bit 63 1"
definition PTS_FLAG_KEYFRAME :: "64 word" where "PTS_FLAG_KEYFRAME = push_bit 62 1"
definition PTS_MASK :: "64 word" where "PTS_MASK = push_bit 62 1 - 1"
definition MAX_PACKET_BYTES :: nat where "MAX_PACKET_BYTES = 16 * 1024 * 1024"
definition INITIAL_CAPACITY :: nat where "INITIAL_CAPACITY = 256 * 1024"

definition codec_name :: "nat \<Rightarrow> video_codec" where
  "codec_name i = (if i = 0x68323635 then H265 else if i = 0x00617631 then AV1 else H264)"

definition new_core :: "bool \<Rightarrow> demux_core" where
  "new_core expect_dummy = \<lparr>dc_stopped = False, dc_stage = (if expect_dummy then Dummy else Name), dc_meta = None, dc_events = []\<rparr>"

definition new_demuxer :: "bool \<Rightarrow> demuxer" where
  "new_demuxer expect_dummy = \<lparr>dm_core = new_core expect_dummy, dm_ring = new_ring INITIAL_CAPACITY\<rparr>"

section \<open>Parsing units\<close>

text \<open>\<open>raw.indexOf(0)\<close> and the decoded prefix.\<close>

definition device_name :: "byte list \<Rightarrow> nat list" where
  "device_name raw = utf8_decode (takeWhile (\<lambda>b. b \<noteq> 0) raw)"

definition set_name :: "byte list \<Rightarrow> demux_core \<Rightarrow> demux_core" where
  "set_name raw c = c\<lparr>dc_meta := Some \<lparr>vm_device_name = device_name raw, vm_codec = H264, vm_width = 0, vm_height = 0\<rparr>,
     dc_stage := Meta\<rparr>"

definition set_meta :: "byte list \<Rightarrow> demux_core \<Rightarrow> demux_core" where
  "set_meta dv c =
     (let m = \<lparr>vm_device_name = (case dc_meta c of None \<Rightarrow> [] | Some m \<Rightarrow> vm_device_name m),
               vm_codec = codec_name (be_value (bytes_at 0 4 dv)),
               vm_width = be_value (bytes_at 4 4 dv), vm_height = be_value (bytes_at 8 4 dv)\<rparr>
      in c\<lparr>dc_meta := Some m, dc_events := dc_events c @ [OnMeta m], dc_stage := Frames\<rparr>)"

definition frame_packet :: "64 word \<Rightarrow> millis \<Rightarrow> byte list \<Rightarrow> scrcpy_packet" where
  "frame_packet flags at data =
     (if and flags PTS_FLAG_CONFIG \<noteq> 0
      then \<lparr>pk_kind = PkConfig, pk_pts_us = None, pk_received_at = at, pk_data = data\<rparr>
      else \<lparr>pk_kind = (if and flags PTS_FLAG_KEYFRAME \<noteq> 0 then PkKeyframe else PkFrame),
            pk_pts_us = Some (unat (and flags PTS_MASK)), pk_received_at = at, pk_data = data\<rparr>)"

definition frame_flags :: "byte list \<Rightarrow> 64 word" where
  "frame_flags header = word_of_nat (be_value (bytes_at 0 8 header))"

definition frame_size :: "byte list \<Rightarrow> nat" where
  "frame_size header = be_value (bytes_at 8 4 header)"

definition emit_packet :: "scrcpy_packet \<Rightarrow> demux_core \<Rightarrow> demux_core" where
  "emit_packet p c = c\<lparr>dc_events := dc_events c @ [OnPacket p]\<rparr>"

text \<open>One turn of the endless loop: return, go on, or throw.\<close>

datatype turn = Return | Continue demuxer | Throw demux_error

definition after_skip :: "range_error + ring \<Rightarrow> demux_core \<Rightarrow> turn" where
  "after_skip res c = (case res of Inl e \<Rightarrow> Throw (BadRange e) | Inr r \<Rightarrow> Continue \<lparr>dm_core = c, dm_ring = r\<rparr>)"

definition drain_turn :: "millis \<Rightarrow> demuxer \<Rightarrow> turn" where
  "drain_turn at d =
     (let c = dm_core d; r = dm_ring d in
      case dc_stage c of
        Dummy \<Rightarrow> if ring_length r < 1 then Return else after_skip (ring_skip 1 r) (c\<lparr>dc_stage := Name\<rparr>)
      | Name \<Rightarrow> if ring_length r < 64 then Return
          else (case ring_read 64 r of Inl e \<Rightarrow> Throw (BadRange e)
                | Inr (raw, r') \<Rightarrow> Continue \<lparr>dm_core = set_name raw c, dm_ring = r'\<rparr>)
      | Meta \<Rightarrow> if ring_length r < 12 then Return else after_skip (ring_skip 12 r) (set_meta (ring_view r) c)
      | Frames \<Rightarrow> if ring_length r < 12 then Return
          else let header = ring_view r; size = frame_size header in
            if size > MAX_PACKET_BYTES then Throw (FrameTooLarge size)
            else if ring_length r < 12 + size then Return
            else (case ring_skip 12 r of Inl e \<Rightarrow> Throw (BadRange e)
                  | Inr r1 \<Rightarrow> (case ring_read size r1 of Inl e \<Rightarrow> Throw (BadRange e)
                      | Inr (payload, r2) \<Rightarrow> Continue \<lparr>dm_core = emit_packet (frame_packet (frame_flags header) at payload) c, dm_ring = r2\<rparr>)))"

lemma drain_turn_shorter: "drain_turn at d = Continue d' \<Longrightarrow> ring_length (dm_ring d') < ring_length (dm_ring d)"
proof -
  have rd: "ring_read 64 r = Inr (b, r') \<Longrightarrow> ring_length r' < ring_length r" for r b r'
    by (auto simp: ring_read_def dest: ring_skip_shorter split: if_splits sum.splits)
  show "drain_turn at d = Continue d' \<Longrightarrow> ring_length (dm_ring d') < ring_length (dm_ring d)"
    by (auto simp: drain_turn_def after_skip_def Let_def split: stage.splits if_splits sum.splits
        dest: ring_skip_shorter rd ring_read_le)
       (meson le_less_trans ring_read_le ring_skip_shorter zero_less_numeral)+
qed

function dm_drain :: "millis \<Rightarrow> demuxer \<Rightarrow> demuxer \<times> demux_error option" where
  "dm_drain at d =
     (case drain_turn at d of Return \<Rightarrow> (d, None) | Throw e \<Rightarrow> (d, Some e) | Continue d' \<Rightarrow> dm_drain at d')"
  by auto
termination
  by (relation "measure (\<lambda>(_, d). ring_length (dm_ring d))") (auto dest: drain_turn_shorter)

declare dm_drain.simps [simp del]

definition stop_core :: "demux_error \<Rightarrow> demux_core \<Rightarrow> demux_core" where
  "stop_core e c = c\<lparr>dc_stopped := True, dc_events := dc_events c @ [OnError e]\<rparr>"

definition dm_push :: "millis \<Rightarrow> byte list \<Rightarrow> demuxer \<Rightarrow> demuxer option" where
  "dm_push now chunk d =
     (if dc_stopped (dm_core d) then Some d
      else map_option (\<lambda>r.
        case dm_drain now (d\<lparr>dm_ring := r\<rparr>) of
          (d', None) \<Rightarrow> d'
        | (d', Some e) \<Rightarrow> d'\<lparr>dm_core := stop_core e (dm_core d')\<rparr>) (ring_push chunk (dm_ring d)))"

fun dm_feed :: "(millis \<times> byte list) list \<Rightarrow> demuxer \<Rightarrow> demuxer option" where
  "dm_feed [] d = Some d"
| "dm_feed ((t, c) # cs) d = (case dm_push t c d of None \<Rightarrow> None | Some d' \<Rightarrow> dm_feed cs d')"

section \<open>The format, on plain byte lists\<close>

text \<open>
  The abstract parser: what one unit of the stream does to the parser's state, over the list of
  pending bytes and without arrival times. A stopped parser takes nothing more.
\<close>

definition demux_unit :: "demux_core \<Rightarrow> byte list \<Rightarrow> (demux_core \<times> byte list) option" where
  "demux_unit c b =
     (if dc_stopped c then None
      else case dc_stage c of
        Dummy \<Rightarrow> if length b < 1 then None else Some (c\<lparr>dc_stage := Name\<rparr>, drop 1 b)
      | Name \<Rightarrow> if length b < 64 then None else Some (set_name (take 64 b) c, drop 64 b)
      | Meta \<Rightarrow> if length b < 12 then None else Some (set_meta b c, drop 12 b)
      | Frames \<Rightarrow> if length b < 12 then None
          else if frame_size b > MAX_PACKET_BYTES then Some (stop_core (FrameTooLarge (frame_size b)) c, b)
          else if length b < 12 + frame_size b then None
          else Some (emit_packet (frame_packet (frame_flags b) 0 (bytes_at 12 (frame_size b) b)) c, drop (12 + frame_size b) b))"

definition core_weight :: "demux_core \<Rightarrow> nat" where
  "core_weight c = (if dc_stopped c then 0 else 1)"

lemma core_weight_simps [simp]:
  "core_weight (c\<lparr>dc_stage := s\<rparr>) = core_weight c" "core_weight (set_name raw c) = core_weight c"
  "core_weight (set_meta dv c) = core_weight c" "core_weight (emit_packet p c) = core_weight c"
  "core_weight (stop_core e c) = 0" "dc_stopped c \<Longrightarrow> core_weight c = 0" "\<not> dc_stopped c \<Longrightarrow> core_weight c = 1"
  by (simp_all add: core_weight_def set_name_def set_meta_def emit_packet_def stop_core_def Let_def)

lemma demux_unit_progress:
  "demux_unit c b = Some (c', r) \<Longrightarrow> core_weight c' + length r < core_weight c + length b"
  by (auto simp: demux_unit_def split: if_splits stage.splits)

lemma demux_unit_extend:
  "demux_unit c b = Some (c', r) \<Longrightarrow> demux_unit c (b @ x) = Some (c', r @ x)"
  by (auto simp: demux_unit_def frame_size_def frame_flags_def set_meta_def Suc_le_eq neq_Nil_conv split: if_splits stage.splits)

function demux_all :: "demux_core \<Rightarrow> byte list \<Rightarrow> demux_core \<times> byte list" where
  "demux_all c b = (case demux_unit c b of None \<Rightarrow> (c, b) | Some (c', r) \<Rightarrow> demux_all c' r)"
  by auto
termination
  by (relation "measure (\<lambda>(c, b). core_weight c + length b)") (auto dest: demux_unit_progress)

declare demux_all.simps [simp del]

interpretation video: unit_parser demux_unit demux_all core_weight
proof
  show "demux_all s b = (case demux_unit s b of None \<Rightarrow> (s, b) | Some (s', r) \<Rightarrow> demux_all s' r)" for s b
    by (rule demux_all.simps)
qed (auto dest: demux_unit_progress demux_unit_extend)

section \<open>The demuxer implements the format\<close>

text \<open>Forget when packets arrived.\<close>

fun unstamp :: "demux_event \<Rightarrow> demux_event" where
  "unstamp (OnPacket p) = OnPacket (p\<lparr>pk_received_at := 0\<rparr>)"
| "unstamp e = e"

definition erase :: "demux_core \<Rightarrow> demux_core" where
  "erase c = c\<lparr>dc_events := map unstamp (dc_events c)\<rparr>"

lemma unstamp_frame [simp]: "(frame_packet f t b)\<lparr>pk_received_at := 0\<rparr> = frame_packet f 0 b"
  by (simp add: frame_packet_def)

lemma erase_simps [simp]:
  "dc_stopped (erase c) = dc_stopped c" "dc_stage (erase c) = dc_stage c" "dc_meta (erase c) = dc_meta c"
  "erase (c\<lparr>dc_stage := s\<rparr>) = (erase c)\<lparr>dc_stage := s\<rparr>"
  "erase (set_name raw c) = set_name raw (erase c)" "erase (set_meta dv c) = set_meta dv (erase c)"
  "erase (emit_packet (frame_packet f t b) c) = emit_packet (frame_packet f 0 b) (erase c)"
  "erase (stop_core e c) = stop_core e (erase c)" "erase (new_core x) = new_core x"
  by (simp_all add: erase_def set_name_def set_meta_def emit_packet_def stop_core_def new_core_def Let_def)

lemma stopped_simps [simp]:
  "dc_stopped (set_name raw c) = dc_stopped c" "dc_stopped (set_meta dv c) = dc_stopped c"
  "dc_stopped (emit_packet p c) = dc_stopped c" "dc_stopped (stop_core e c)" "\<not> dc_stopped (new_core x)"
  by (simp_all add: set_name_def set_meta_def emit_packet_def stop_core_def new_core_def Let_def)

definition turn_refines :: "demuxer \<Rightarrow> turn \<Rightarrow> bool" where
  "turn_refines d t = (case t of
       Return \<Rightarrow> demux_unit (erase (dm_core d)) (ring_view (dm_ring d)) = None
     | Continue d' \<Rightarrow> ring_ok (dm_ring d') \<and> \<not> dc_stopped (dm_core d') \<and>
         demux_unit (erase (dm_core d)) (ring_view (dm_ring d)) = Some (erase (dm_core d'), ring_view (dm_ring d'))
     | Throw e \<Rightarrow> demux_unit (erase (dm_core d)) (ring_view (dm_ring d))
         = Some (erase (stop_core e (dm_core d)), ring_view (dm_ring d)))"

lemma drain_turn_refines:
  assumes "ring_ok (dm_ring d)" "\<not> dc_stopped (dm_core d)"
  shows "turn_refines d (drain_turn at d)"
proof -
  let ?r = "dm_ring d" and ?c = "dm_core d"
  have len: "length (ring_view ?r) = ring_length ?r" using assms(1) by simp
  show ?thesis
  proof (cases "dc_stage ?c")
    case Dummy
    show ?thesis
    proof (cases "ring_length ?r < 1")
      case False
      with ring_skip_ok [OF assms(1), of 1] Dummy assms(2) len show ?thesis
        by (auto simp: turn_refines_def drain_turn_def after_skip_def demux_unit_def Let_def)
    qed (use Dummy assms(2) len in \<open>simp add: turn_refines_def drain_turn_def demux_unit_def Let_def\<close>)
  next
    case Name
    show ?thesis
    proof (cases "ring_length ?r < 64")
      case False
      with ring_read_ok [OF assms(1), of 64] Name assms(2) len show ?thesis
        by (auto simp: turn_refines_def drain_turn_def demux_unit_def Let_def)
    qed (use Name assms(2) len in \<open>simp add: turn_refines_def drain_turn_def demux_unit_def Let_def\<close>)
  next
    case Meta
    show ?thesis
    proof (cases "ring_length ?r < 12")
      case False
      with ring_skip_ok [OF assms(1), of 12] Meta assms(2) len show ?thesis
        by (auto simp: turn_refines_def drain_turn_def after_skip_def demux_unit_def Let_def)
    qed (use Meta assms(2) len in \<open>simp add: turn_refines_def drain_turn_def demux_unit_def Let_def\<close>)
  next
    case Frames
    let ?n = "frame_size (ring_view ?r)"
    show ?thesis
    proof (cases "ring_length ?r < 12 \<or> ?n > MAX_PACKET_BYTES \<or> ring_length ?r < 12 + ?n")
      case True
      with Frames assms(2) len show ?thesis
        by (auto simp: turn_refines_def drain_turn_def demux_unit_def Let_def)
    next
      case False
      then have "12 \<le> ring_length ?r" by simp
      from ring_skip_ok [OF assms(1) this] obtain r1 where
        r1: "ring_skip 12 ?r = Inr r1" "ring_ok r1" "ring_view r1 = drop 12 (ring_view ?r)" "ring_length r1 = ring_length ?r - 12"
        by blast
      from False r1(4) have "?n \<le> ring_length r1" by linarith
      from ring_read_ok [OF r1(2) this] obtain r2 where
        r2: "ring_read ?n r1 = Inr (take ?n (ring_view r1), r2)" "ring_ok r2" "ring_view r2 = drop ?n (ring_view r1)" by blast
      from False Frames assms(2) len r1 r2 show ?thesis
        by (simp add: turn_refines_def drain_turn_def demux_unit_def Let_def bytes_at_def add.commute)
    qed
  qed
qed

definition final_core :: "demuxer \<Rightarrow> demux_error option \<Rightarrow> demux_core" where
  "final_core d e = (case e of None \<Rightarrow> dm_core d | Some x \<Rightarrow> stop_core x (dm_core d))"

lemma dm_drain_refines:
  assumes "ring_ok (dm_ring d)" "\<not> dc_stopped (dm_core d)" "dm_drain at d = (d', e)"
  shows "ring_ok (dm_ring d') \<and> \<not> dc_stopped (dm_core d') \<and>
    demux_all (erase (dm_core d)) (ring_view (dm_ring d)) = (erase (final_core d' e), ring_view (dm_ring d'))"
  using assms
proof (induction at d rule: dm_drain.induct)
  case (1 at d)
  note t = drain_turn_refines [OF 1(2,3), of at]
  show ?case
  proof (cases "drain_turn at d")
    case Return
    with 1 t show ?thesis
      by (subst demux_all.simps) (simp add: dm_drain.simps [of at d] turn_refines_def final_core_def)
  next
    case (Throw x)
    have stop: "demux_all (stop_core x c) b = (stop_core x c, b)" for c b
      by (subst demux_all.simps) (simp add: demux_unit_def)
    from Throw 1 t stop show ?thesis
      by (subst demux_all.simps) (auto simp add: dm_drain.simps [of at d] turn_refines_def final_core_def)
  next
    case (Continue d1)
    from Continue t have d1: "ring_ok (dm_ring d1)" "\<not> dc_stopped (dm_core d1)"
      and u: "demux_unit (erase (dm_core d)) (ring_view (dm_ring d)) = Some (erase (dm_core d1), ring_view (dm_ring d1))"
      by (simp_all add: turn_refines_def)
    from 1(4) Continue have "dm_drain at d1 = (d', e)" by (simp add: dm_drain.simps [of at d])
    from 1(1) [OF Continue d1 this] u show ?thesis by (subst demux_all.simps) simp
  qed
qed

text \<open>The demuxer has seen exactly these bytes.\<close>

definition demux_related :: "bool \<Rightarrow> byte list \<Rightarrow> demuxer \<Rightarrow> bool" where
  "demux_related dummy bs d \<longleftrightarrow> ring_ok (dm_ring d)
     \<and> fst (demux_all (new_core dummy) bs) = erase (dm_core d)
     \<and> (\<not> dc_stopped (dm_core d) \<longrightarrow> snd (demux_all (new_core dummy) bs) = ring_view (dm_ring d))"

lemma demux_related_start: "demux_related dummy [] (new_demuxer dummy)"
proof -
  have "demux_unit (new_core dummy) [] = None" by (simp add: demux_unit_def new_core_def)
  then have "demux_all (new_core dummy) [] = (new_core dummy, [])" by (subst demux_all.simps) simp
  then show ?thesis by (simp add: demux_related_def new_demuxer_def new_ring_ok INITIAL_CAPACITY_def)
qed

lemma demux_related_push:
  assumes "demux_related dummy bs d"
  shows "\<exists>d'. dm_push now c d = Some d' \<and> demux_related dummy (bs @ c) d'"
proof -
  obtain s r where all: "demux_all (new_core dummy) bs = (s, r)" by (cases "demux_all (new_core dummy) bs")
  have more: "demux_all (new_core dummy) (bs @ c) = demux_all s (r @ c)"
    using video.drain_append [of "new_core dummy" bs c] all by simp
  from assms all have s: "s = erase (dm_core d)" and ok: "ring_ok (dm_ring d)" by (simp_all add: demux_related_def)
  show ?thesis
  proof (cases "dc_stopped (dm_core d)")
    case True
    have "demux_unit s (r @ c) = None" using True s by (simp add: demux_unit_def)
    then have "demux_all s (r @ c) = (s, r @ c)" by (subst demux_all.simps) simp
    with True more s ok show ?thesis by (simp add: dm_push_def demux_related_def)
  next
    case False
    from assms all False have r: "r = ring_view (dm_ring d)" by (simp add: demux_related_def)
    from ring_push_ok [OF ok, of c] obtain r1 where
      r1: "ring_push c (dm_ring d) = Some r1" "ring_ok r1" "ring_view r1 = ring_view (dm_ring d) @ c" by blast
    obtain d' e where drain: "dm_drain now (d\<lparr>dm_ring := r1\<rparr>) = (d', e)" by (cases "dm_drain now (d\<lparr>dm_ring := r1\<rparr>)")
    from dm_drain_refines [OF _ _ drain] r1 False have
      d': "ring_ok (dm_ring d')" "\<not> dc_stopped (dm_core d')"
        "demux_all (erase (dm_core d)) (ring_view (dm_ring d) @ c) = (erase (final_core d' e), ring_view (dm_ring d'))" by simp_all
    show ?thesis
    proof (cases e)
      case None
      with False r1 drain d' more s r show ?thesis by (simp add: dm_push_def demux_related_def final_core_def)
    next
      case (Some x)
      with False r1 drain d' more s r show ?thesis by (simp add: dm_push_def demux_related_def final_core_def)
    qed
  qed
qed

lemma demux_related_feed:
  assumes "demux_related dummy bs d"
  shows "\<exists>d'. dm_feed cs d = Some d' \<and> demux_related dummy (bs @ concat (map snd cs)) d'"
  using assms
proof (induction cs arbitrary: bs d)
  case (Cons x cs)
  obtain t c where x: "x = (t, c)" by (cases x)
  from demux_related_push [OF Cons.prems, of t c] obtain d1 where
    d1: "dm_push t c d = Some d1" "demux_related dummy (bs @ c) d1" by blast
  from Cons.IH [OF d1(2)] d1(1) x show ?case by simp
qed simp

text \<open>
  C7: The incremental demuxer over the byte window implements the stream format: whatever the
  chunks and their arrival times, no push hangs or fails, and apart from the arrival times its state
  and the callbacks it made are those of parsing all the bytes received so far at once; until it has
  stopped, what the window holds is exactly the unparsed rest.
\<close>

theorem demuxer_refines_format:
  "\<exists>d. dm_feed cs (new_demuxer dummy) = Some d \<and> ring_ok (dm_ring d)
     \<and> fst (demux_all (new_core dummy) (concat (map snd cs))) = erase (dm_core d)
     \<and> (dc_stopped (dm_core d) \<or> snd (demux_all (new_core dummy) (concat (map snd cs))) = ring_view (dm_ring d))"
  using demux_related_feed [OF demux_related_start, of cs dummy] by (auto simp: demux_related_def)

section \<open>The stream as the server writes it\<close>

definition name_field :: "byte list \<Rightarrow> byte list" where
  "name_field n = n @ replicate (64 - length n) 0"

definition meta_bytes :: "nat \<Rightarrow> nat \<Rightarrow> nat \<Rightarrow> byte list" where
  "meta_bytes codec w h = be_bytes 4 codec @ be_bytes 4 w @ be_bytes 4 h"

definition frame_bytes :: "64 word \<times> byte list \<Rightarrow> byte list" where
  "frame_bytes f = be_bytes 8 (unat (fst f)) @ be_bytes 4 (length (snd f)) @ snd f"

definition video_stream :: "byte list \<Rightarrow> nat \<Rightarrow> nat \<Rightarrow> nat \<Rightarrow> (64 word \<times> byte list) list \<Rightarrow> byte list" where
  "video_stream n codec w h fs = 0 # name_field n @ meta_bytes codec w h @ concat (map frame_bytes fs)"

lemma frame_header:
  assumes "length (snd f) \<le> MAX_PACKET_BYTES"
  shows "frame_size (frame_bytes f @ rest) = length (snd f)" "frame_flags (frame_bytes f @ rest) = fst f"
    "bytes_at 12 (length (snd f)) (frame_bytes f @ rest) = snd f" "drop (12 + length (snd f)) (frame_bytes f @ rest) = rest"
    "length (frame_bytes f @ rest) = 12 + length (snd f) + length rest"
proof -
  have "be_value (be_bytes 4 (length (snd f))) = length (snd f)"
    using assms by (intro be_value_bytes) (simp add: MAX_PACKET_BYTES_def)
  then show "frame_size (frame_bytes f @ rest) = length (snd f)" by (simp add: frame_size_def frame_bytes_def bytes_at_def)
  have "unat (fst f) < 256 ^ 8" using unsigned_less [of "fst f", where ?'a = nat] by simp
  then show "frame_flags (frame_bytes f @ rest) = fst f"
    by (simp add: frame_flags_def frame_bytes_def bytes_at_def be_value_bytes)
  show "bytes_at 12 (length (snd f)) (frame_bytes f @ rest) = snd f" by (simp add: frame_bytes_def bytes_at_def)
  have "length (frame_bytes f) = 12 + length (snd f)" by (simp add: frame_bytes_def)
  then show "drop (12 + length (snd f)) (frame_bytes f @ rest) = rest"
    "length (frame_bytes f @ rest) = 12 + length (snd f) + length rest" by (metis append_eq_conv_conj, simp)
qed

lemma demux_frames:
  assumes "\<not> dc_stopped c" "dc_stage c = Frames" "list_all (\<lambda>f. length (snd f) \<le> MAX_PACKET_BYTES) fs"
  shows "demux_all c (concat (map frame_bytes fs))
    = (c\<lparr>dc_events := dc_events c @ map (\<lambda>f. OnPacket (frame_packet (fst f) 0 (snd f))) fs\<rparr>, [])"
  using assms
proof (induction fs arbitrary: c)
  case Nil
  then show ?case by (subst demux_all.simps) (simp add: demux_unit_def)
next
  case (Cons f fs)
  then have len: "length (snd f) \<le> MAX_PACKET_BYTES" by simp
  note hd = frame_header [OF len, of "concat (map frame_bytes fs)"]
  have u: "demux_unit c (frame_bytes f @ concat (map frame_bytes fs))
      = Some (emit_packet (frame_packet (fst f) 0 (snd f)) c, concat (map frame_bytes fs))"
    using Cons.prems hd len by (simp add: demux_unit_def)
  have "dc_stage (emit_packet p c) = Frames" for p using Cons.prems by (simp add: emit_packet_def)
  with Cons.IH [of "emit_packet (frame_packet (fst f) 0 (snd f)) c"] Cons.prems u show ?case
    by (subst demux_all.simps) (simp add: emit_packet_def)
qed

lemma takeWhile_name: "0 \<notin> set n \<Longrightarrow> takeWhile (\<lambda>b. b \<noteq> (0 :: byte)) (n @ replicate k 0) = n"
  by (induction n) (auto simp: takeWhile_eq_Nil_iff)

lemma demux_head:
  assumes "0 \<notin> set n" "length n \<le> 64" "codec < 2 ^ 32" "w < 2 ^ 32" "h < 2 ^ 32"
  shows "demux_all (new_core True) (0 # name_field n @ meta_bytes codec w h @ rest)
    = demux_all (set_meta (meta_bytes codec w h) (set_name (name_field n) ((new_core True)\<lparr>dc_stage := Name\<rparr>))) rest"
proof -
  have nf: "length (name_field n) = 64" using assms(2) by (simp add: name_field_def)
  have mb: "length (meta_bytes codec w h) = 12" by (simp add: meta_bytes_def)
  let ?c1 = "(new_core True)\<lparr>dc_stage := Name\<rparr>"
  let ?c2 = "set_name (name_field n) ?c1"
  have u1: "demux_unit (new_core True) (0 # name_field n @ meta_bytes codec w h @ rest)
      = Some (?c1, name_field n @ meta_bytes codec w h @ rest)" by (simp add: demux_unit_def new_core_def)
  have u2: "demux_unit ?c1 (name_field n @ meta_bytes codec w h @ rest) = Some (?c2, meta_bytes codec w h @ rest)"
    using nf by (simp add: demux_unit_def)
  have st: "dc_stage ?c2 = Meta" "\<not> dc_stopped ?c2" by (simp_all add: set_name_def new_core_def)
  have "set_meta (meta_bytes codec w h @ rest) ?c2 = set_meta (meta_bytes codec w h) ?c2"
    using mb by (simp add: set_meta_def)
  then have u3: "demux_unit ?c2 (meta_bytes codec w h @ rest) = Some (set_meta (meta_bytes codec w h) ?c2, rest)"
    using mb st by (simp add: demux_unit_def)
  show ?thesis
    by (simp only: demux_all.simps [of "new_core True"] u1 option.case prod.case)
       (simp only: demux_all.simps [of ?c1] u2 option.case prod.case, simp only: demux_all.simps [of ?c2] u3 option.case prod.case)
qed


definition demo_video :: "byte list" where
  "demo_video = video_stream [104] 0x68323635 1080 1920 [(PTS_FLAG_CONFIG, [1, 2]), (7, [3])]"


text \<open>
  A frame header that declares more than 16 MiB stops the demuxer: the error is reported once,
  and from then on every chunk is ignored and nothing is ever reported again.
\<close>

theorem corrupt_stream_stops:
  assumes "ring_ok (dm_ring d)" "\<not> dc_stopped (dm_core d)" "dc_stage (dm_core d) = Frames"
    and "12 \<le> length (ring_view (dm_ring d) @ chunk)" "MAX_PACKET_BYTES < frame_size (ring_view (dm_ring d) @ chunk)"
  shows "\<exists>d'. dm_push now chunk d = Some d'
     \<and> dc_events (dm_core d') = dc_events (dm_core d) @ [OnError (FrameTooLarge (frame_size (ring_view (dm_ring d) @ chunk)))]
     \<and> (\<forall>cs. dm_feed cs d' = Some d')"
proof -
  from ring_push_ok [OF assms(1), of chunk] obtain r where
    r: "ring_push chunk (dm_ring d) = Some r" "ring_ok r" "ring_view r = ring_view (dm_ring d) @ chunk" by blast
  have len: "12 \<le> ring_length r" using assms(4) r(2,3) length_ring_view [OF r(2)] by simp
  have "dm_drain now (d\<lparr>dm_ring := r\<rparr>) = (d\<lparr>dm_ring := r\<rparr>, Some (FrameTooLarge (frame_size (ring_view r))))"
    using assms(3,5) r(3) len by (subst dm_drain.simps) (simp add: drain_turn_def Let_def)
  then have push: "dm_push now chunk d = Some (d\<lparr>dm_ring := r, dm_core := stop_core (FrameTooLarge (frame_size (ring_view r))) (dm_core d)\<rparr>)"
    using r(1) assms(2) by (simp add: dm_push_def)
  have stay: "dc_stopped (dm_core x) \<Longrightarrow> dm_feed cs x = Some x" for cs x
    by (induction cs) (auto simp: dm_push_def)
  show ?thesis using push r(3) stay by (simp add: stop_core_def)
qed

theorem corrupt_stream_stops_witness:
  "\<exists>d'. dm_push 5 (replicate 12 255)
        \<lparr>dm_core = (new_core False)\<lparr>dc_stage := Frames\<rparr>, dm_ring = new_ring 64\<rparr> = Some d'
     \<and> dc_events (dm_core d') = [OnError (FrameTooLarge 4294967295)] \<and> dm_push 6 [1] d' = Some d'"
proof -
  let ?d = "\<lparr>dm_core = (new_core False)\<lparr>dc_stage := Frames\<rparr>, dm_ring = new_ring 64\<rparr>"
  have all_ones: "Suc (le_value (replicate n 255)) = 256 ^ n" for n by (induction n) auto
  have size: "frame_size (replicate 12 255) = 4294967295"
    using all_ones [of 4] by (simp add: frame_size_def bytes_at_def be_value_def)
  from corrupt_stream_stops [of ?d "replicate 12 255" 5] size obtain d' where
    d': "dm_push 5 (replicate 12 255) ?d = Some d'" "dc_events (dm_core d') = [OnError (FrameTooLarge 4294967295)]"
      "\<forall>cs. dm_feed cs d' = Some d'"
    by (auto simp: new_ring_ok MAX_PACKET_BYTES_def new_core_def)
  from d'(3) have "dm_feed [(6, [1])] d' = Some d'" by blast
  then have "dm_push 6 [1] d' = Some d'" by (simp split: option.splits)
  with d' show ?thesis by blast
qed

end
