(* ===== verification/Semaphore.thy ===== *)
theory Semaphore
  imports Prelude
begin

text \<open>
  The counting semaphore in front of adb (\<open>packages/adb/src/queue.ts\<close>, class \<open>Semaphore\<close>). A waiter
  woken by a release or a resize takes its slot only in its own continuation, a later microtask, so
  waking and taking are two steps and other callers can run in between. Callers carry a number;
  \<open>sm_woken\<close> and \<open>sm_holders\<close> record whose continuation is due and whose releaser is unused.
\<close>

section \<open>The operations\<close>

type_synonym caller = nat

record semaphore =
  sm_in_flight :: int
  sm_max :: int
  sm_waiters :: "caller list"
  sm_woken :: "caller list"
  sm_holders :: "caller list"

definition new_semaphore :: "int \<Rightarrow> semaphore option" where
  "new_semaphore m = (if m < 1 then None
     else Some \<lparr>sm_in_flight = 0, sm_max = m, sm_waiters = [], sm_woken = [], sm_holders = []\<rparr>)"

definition take_slot :: "caller \<Rightarrow> semaphore \<Rightarrow> semaphore" where
  "take_slot i s = s\<lparr>sm_in_flight := sm_in_flight s + 1, sm_holders := sm_holders s @ [i]\<rparr>"

text \<open>The synchronous part of \<open>acquire\<close>, and the continuation of a woken waiter.\<close>

definition sem_acquire :: "caller \<Rightarrow> semaphore \<Rightarrow> semaphore" where
  "sem_acquire i s = (if sm_in_flight s < sm_max s then take_slot i s else s\<lparr>sm_waiters := sm_waiters s @ [i]\<rparr>)"

definition sem_continue :: "caller \<Rightarrow> semaphore \<Rightarrow> semaphore" where
  "sem_continue i s = (if i \<in> set (sm_woken s) then take_slot i (s\<lparr>sm_woken := remove1 i (sm_woken s)\<rparr>) else s)"

definition wake_next :: "semaphore \<Rightarrow> semaphore" where
  "wake_next s = (case sm_waiters s of [] \<Rightarrow> s
     | w # ws \<Rightarrow> s\<lparr>sm_waiters := ws, sm_woken := sm_woken s @ [w]\<rparr>)"

text \<open>The releaser runs once; a second call does nothing.\<close>

definition sem_release :: "caller \<Rightarrow> semaphore \<Rightarrow> semaphore" where
  "sem_release i s = (if i \<in> set (sm_holders s)
     then wake_next (s\<lparr>sm_in_flight := sm_in_flight s - 1, sm_holders := remove1 i (sm_holders s)\<rparr>) else s)"

fun wake_up_to :: "int \<Rightarrow> caller list \<Rightarrow> int \<Rightarrow> caller list \<times> caller list" where
  "wake_up_to projected [] m = ([], [])"
| "wake_up_to projected (w # ws) m =
     (if projected < m then (case wake_up_to (projected + 1) ws m of (a, b) \<Rightarrow> (w # a, b)) else ([], w # ws))"

definition sem_resize :: "int \<Rightarrow> semaphore \<Rightarrow> semaphore option" where
  "sem_resize m s = (if m < 1 then None
     else case wake_up_to (sm_in_flight s) (sm_waiters s) m of
       (woken, waiting) \<Rightarrow> Some (s\<lparr>sm_max := m, sm_waiters := waiting, sm_woken := sm_woken s @ woken\<rparr>))"

section \<open>Reachable states\<close>

definition sem_members :: "semaphore \<Rightarrow> caller list" where
  "sem_members s = sm_waiters s @ sm_woken s @ sm_holders s"

inductive sem_step :: "semaphore \<Rightarrow> semaphore \<Rightarrow> bool" where
  acquire: "i \<notin> set (sem_members s) \<Longrightarrow> sem_step s (sem_acquire i s)"
| continue: "sem_step s (sem_continue i s)"
| release: "sem_step s (sem_release i s)"
| resize: "sem_resize m s = Some s' \<Longrightarrow> sem_step s s'"

inductive sem_reachable :: "semaphore \<Rightarrow> bool" where
  start: "new_semaphore m = Some s \<Longrightarrow> sem_reachable s"
| step: "sem_reachable s \<Longrightarrow> sem_step s s' \<Longrightarrow> sem_reachable s'"

inductive_cases sem_stepE: "sem_step s s'"

lemma wake_up_to_split: "wake_up_to p ws m = (a, b) \<Longrightarrow> ws = a @ b"
  by (induction p ws m arbitrary: a b rule: wake_up_to.induct) (auto split: if_splits prod.splits)

lemma wake_up_to_enough: "wake_up_to p ws m = (a, b) \<Longrightarrow> b = [] \<or> m \<le> p + int (length a)"
  by (induction p ws m arbitrary: a b rule: wake_up_to.induct) (force split: if_splits prod.splits)+

text \<open>
  The counter counts the holders, everybody is in one place, and nobody waits while there is room:
  whenever somebody is parked, the holders and the woken ones together fill the cap.
\<close>

definition sem_ok :: "semaphore \<Rightarrow> bool" where
  "sem_ok s \<longleftrightarrow> sm_in_flight s = int (length (sm_holders s)) \<and> distinct (sem_members s) \<and> 1 \<le> sm_max s
     \<and> (sm_waiters s = [] \<or> sm_max s \<le> sm_in_flight s + int (length (sm_woken s)))"

lemma sem_ok_acquire: "sem_ok s \<Longrightarrow> i \<notin> set (sem_members s) \<Longrightarrow> sem_ok (sem_acquire i s)"
  by (auto simp: sem_ok_def sem_acquire_def take_slot_def sem_members_def)

lemma length_remove1_in: "i \<in> set xs \<Longrightarrow> int (length (remove1 i xs)) = int (length xs) - 1"
  by (induction xs) auto

lemma sem_ok_continue: "sem_ok s \<Longrightarrow> sem_ok (sem_continue i s)"
  by (auto simp: sem_ok_def sem_continue_def take_slot_def sem_members_def length_remove1_in)

lemma sem_ok_release: "sem_ok s \<Longrightarrow> sem_ok (sem_release i s)"
  by (cases "sm_waiters s")
     (auto simp: sem_ok_def sem_release_def wake_next_def sem_members_def length_remove1_in)

lemma sem_ok_resize:
  assumes "sem_ok s" "sem_resize m s = Some s'"
  shows "sem_ok s'"
proof -
  obtain a b where w: "wake_up_to (sm_in_flight s) (sm_waiters s) m = (a, b)"
    by (cases "wake_up_to (sm_in_flight s) (sm_waiters s) m")
  note split = wake_up_to_split [OF w] and enough = wake_up_to_enough [OF w]
  from assms(2) w have m: "1 \<le> m" and s': "s' = s\<lparr>sm_max := m, sm_waiters := b, sm_woken := sm_woken s @ a\<rparr>"
    by (auto simp: sem_resize_def split: if_splits)
  have "b = [] \<or> m \<le> sm_in_flight s + int (length (sm_woken s @ a))" using enough by auto
  with assms(1) m s' split show ?thesis by (auto simp: sem_ok_def sem_members_def)
qed

lemma sem_reachable_ok: "sem_reachable s \<Longrightarrow> sem_ok s"
proof (induction rule: sem_reachable.induct)
  case (start m s)
  then show ?case by (auto simp: new_semaphore_def sem_ok_def sem_members_def split: if_splits)
next
  case (step s s')
  from step.hyps(2) step.IH show ?case
    by (elim sem_stepE) (auto intro: sem_ok_acquire sem_ok_continue sem_ok_release sem_ok_resize)
qed

section \<open>What the semaphore guarantees, and what it does not\<close>

text \<open>
  No waiter is forgotten. In every reachable state the counter is the number of slots held, and
  somebody is parked only while the holders and the waiters already woken fill the cap, so there is
  always a release or a continuation left that brings the queue forward; a releaser frees its slot once.
\<close>

theorem semaphore_wakes_everyone:
  assumes "sem_reachable s"
  shows "sm_in_flight s = int (length (sm_holders s))
    \<and> (sm_waiters s \<noteq> [] \<longrightarrow> sm_holders s \<noteq> [] \<or> sm_woken s \<noteq> [])
    \<and> (sm_waiters s \<noteq> [] \<longrightarrow> sm_max s \<le> int (length (sm_holders s) + length (sm_woken s)))
    \<and> sem_release i (sem_release i s) = sem_release i s"
proof -
  note ok = sem_reachable_ok [OF assms]
  then have "sem_release i (sem_release i s) = sem_release i s"
    by (auto simp: sem_ok_def sem_members_def sem_release_def wake_next_def split: list.splits)
  with ok show ?thesis by (auto simp: sem_ok_def)
qed

definition demo_full :: semaphore where
  "demo_full = sem_acquire 2 (sem_acquire 1 \<lparr>sm_in_flight = 0, sm_max = 1, sm_waiters = [], sm_woken = [], sm_holders = []\<rparr>)"

lemma demo_full_reachable: "sem_reachable demo_full"
proof -
  let ?s0 = "\<lparr>sm_in_flight = 0, sm_max = 1, sm_waiters = [], sm_woken = [], sm_holders = []\<rparr> :: semaphore"
  have "sem_reachable ?s0" by (rule sem_reachable.start [of 1]) (simp add: new_semaphore_def)
  moreover have "sem_step ?s0 (sem_acquire 1 ?s0)" by (rule sem_step.acquire) (simp add: sem_members_def)
  moreover have "sem_step (sem_acquire 1 ?s0) (sem_acquire 2 (sem_acquire 1 ?s0))"
    by (rule sem_step.acquire) (simp add: sem_members_def sem_acquire_def take_slot_def)
  ultimately show ?thesis unfolding demo_full_def by (blast intro: sem_reachable.step)
qed

theorem semaphore_wakes_everyone_witness:
  "sm_waiters demo_full = [2] \<and> sm_holders demo_full \<noteq> []"
proof -
  have "sm_waiters demo_full = [2]" "sm_woken demo_full = []" by code_simp+
  with semaphore_wakes_everyone [OF demo_full_reachable, of 1] show ?thesis by simp
qed

text \<open>
  The cap can be exceeded. When the slots are all held and somebody waits, a release lets the
  counter drop before the woken waiter takes its slot; a caller that arrives in between is let in, and
  when the waiter continues one more than the cap is in flight.
\<close>

theorem semaphore_overshoots:
  assumes "sem_reachable s" "sm_in_flight s = sm_max s" "i \<in> set (sm_holders s)" "sm_waiters s = w # ws"
    and "j \<notin> set (sem_members s)"
  shows "sem_reachable (sem_continue w (sem_acquire j (sem_release i s)))
    \<and> int (length (sm_holders (sem_continue w (sem_acquire j (sem_release i s))))) = sm_max s + 1
    \<and> sm_max (sem_continue w (sem_acquire j (sem_release i s))) = sm_max s"
proof -
  let ?s = "sem_continue w (sem_acquire j (sem_release i s))"
  note ok = sem_reachable_ok [OF assms(1)]
  have rel: "sem_release i s = s\<lparr>sm_in_flight := sm_in_flight s - 1, sm_holders := remove1 i (sm_holders s),
      sm_waiters := ws, sm_woken := sm_woken s @ [w]\<rparr>"
    using assms(3,4) by (simp add: sem_release_def wake_next_def)
  then have fresh: "j \<notin> set (sem_members (sem_release i s))"
    using assms(4,5) set_remove1_subset [of i "sm_holders s"] by (auto simp: sem_members_def)
  have "sem_reachable ?s"
    by (rule sem_reachable.step [OF sem_reachable.step [OF sem_reachable.step [OF assms(1) sem_step.release]
          sem_step.acquire [OF fresh]] sem_step.continue])
  moreover have "sm_in_flight ?s = sm_max s + 1" "sm_max ?s = sm_max s"
    using assms(2) rel by (simp_all add: sem_continue_def sem_acquire_def take_slot_def)
  ultimately show ?thesis using sem_reachable_ok [of ?s] ok by (simp add: sem_ok_def)
qed

theorem semaphore_overshoots_witness:
  "length (sm_holders (sem_continue 2 (sem_acquire 3 (sem_release 1 demo_full)))) = 2 \<and> sm_max demo_full = 1"
proof -
  have d: "sm_in_flight demo_full = sm_max demo_full" "1 \<in> set (sm_holders demo_full)" "sm_waiters demo_full = 2 # []"
    "3 \<notin> set (sem_members demo_full)" "sm_max demo_full = 1" by code_simp+
  from semaphore_overshoots [OF demo_full_reachable d(1-4)] d(5) show ?thesis by simp
qed

text \<open>
  Lowering the cap does not take effect while callers keep coming: above the cap every released
  slot is handed to the next waiter without looking at the cap, so as long as somebody waits the number in
  flight never falls.
\<close>

theorem lowered_cap_is_not_enforced:
  assumes "sem_reachable s" "sm_max s < sm_in_flight s" "i \<in> set (sm_holders s)" "sm_waiters s = w # ws"
    and "w \<noteq> i"
  shows "sm_in_flight (sem_continue w (sem_release i s)) = sm_in_flight s
    \<and> sm_max (sem_continue w (sem_release i s)) < sm_in_flight (sem_continue w (sem_release i s))
    \<and> sm_waiters (sem_continue w (sem_release i s)) = ws"
  using assms by (simp add: sem_release_def wake_next_def sem_continue_def take_slot_def)

definition demo_lowered :: semaphore where
  "demo_lowered = sem_acquire 3 (the (sem_resize 1 (sem_acquire 2 (sem_acquire 1
     \<lparr>sm_in_flight = 0, sm_max = 2, sm_waiters = [], sm_woken = [], sm_holders = []\<rparr>))))"

lemma demo_lowered_reachable: "sem_reachable demo_lowered"
proof -
  let ?s0 = "\<lparr>sm_in_flight = 0, sm_max = 2, sm_waiters = [], sm_woken = [], sm_holders = []\<rparr> :: semaphore"
  let ?s2 = "sem_acquire 2 (sem_acquire 1 ?s0)"
  let ?s3 = "?s2\<lparr>sm_max := 1\<rparr>"
  have "sem_reachable ?s0" by (rule sem_reachable.start [of 2]) (simp add: new_semaphore_def)
  moreover have "sem_step ?s0 (sem_acquire 1 ?s0)" by (rule sem_step.acquire) (simp add: sem_members_def)
  moreover have "sem_step (sem_acquire 1 ?s0) ?s2"
    by (rule sem_step.acquire) (simp add: sem_members_def sem_acquire_def take_slot_def)
  moreover have resize: "sem_resize 1 ?s2 = Some ?s3" by code_simp
  moreover have "sem_step ?s2 ?s3" by (rule sem_step.resize [OF resize])
  moreover have "sem_step ?s3 (sem_acquire 3 ?s3)"
    by (rule sem_step.acquire) (simp add: sem_members_def sem_acquire_def take_slot_def)
  ultimately show ?thesis unfolding demo_lowered_def by (simp add: resize) (blast intro: sem_reachable.step)
qed

theorem lowered_cap_is_not_enforced_witness:
  "sm_in_flight (sem_continue 3 (sem_release 1 demo_lowered)) = 2 \<and> sm_max demo_lowered = 1"
proof -
  have d: "sm_max demo_lowered < sm_in_flight demo_lowered" "1 \<in> set (sm_holders demo_lowered)"
    "sm_waiters demo_lowered = 3 # []" "sm_in_flight demo_lowered = 2" "sm_max demo_lowered = 1" by code_simp+
  from lowered_cap_is_not_enforced [OF demo_lowered_reachable d(1-3)] d(4,5) show ?thesis by simp
qed

end
