(* ===== verification/AdbQueue.thy ===== *)
theory AdbQueue
  imports Semaphore
begin

text \<open>
  The per-device queue in front of adb (\<open>packages/adb/src/queue.ts\<close>, class \<open>PerDeviceQueue\<close>): one
  promise chain per serial, a pause gate, the shared semaphore, and a wait budget that can give up on
  a task before its turn. Each \<open>await\<close> of the chained function ends one step. A gate is a number:
  \<open>pause\<close> makes a new one, and a task waits at the gate it found.
\<close>

section \<open>State\<close>

datatype queue_error = E_ADB_BUSY_DEPTH | E_ADB_BUSY_TIMEOUT | E_ADB_ABORTED

datatype task_phase = Chained | AtGate nat | Acquiring | Executing | Settled

record adb_task =
  tk_id :: caller
  tk_phase :: task_phase
  tk_gave_up :: "queue_error option"

record device_queue =
  dq_chains :: "(string, adb_task list) jmap"
  dq_gate :: nat
  dq_paused :: bool
  dq_in_flight :: int
  dq_idle_waiters :: "nat list"
  dq_idle_told :: "nat list"
  dq_sem :: semaphore
  dq_rejected :: "(caller \<times> queue_error) list"

definition new_queue :: "semaphore \<Rightarrow> device_queue" where
  "new_queue s = \<lparr>dq_chains = [], dq_gate = 0, dq_paused = False, dq_in_flight = 0, dq_idle_waiters = [],
     dq_idle_told = [], dq_sem = s, dq_rejected = []\<rparr>"

definition chain_of :: "string \<Rightarrow> device_queue \<Rightarrow> adb_task list" where
  "chain_of serial q = coalesce (jm_get (dq_chains q) serial) []"

definition set_chain :: "string \<Rightarrow> adb_task list \<Rightarrow> device_queue \<Rightarrow> device_queue" where
  "set_chain serial ts q = q\<lparr>dq_chains := jm_set serial ts (dq_chains q)\<rparr>"

definition pending_tasks :: "string \<Rightarrow> device_queue \<Rightarrow> nat" where
  "pending_tasks serial q = length (chain_of serial q)"

lemma chain_of_set [simp]: "chain_of x (set_chain serial ts q) = (if x = serial then ts else chain_of x q)"
  by (simp add: chain_of_def set_chain_def)

section \<open>Operations\<close>

definition dq_pause :: "device_queue \<Rightarrow> device_queue" where
  "dq_pause q = (if dq_paused q then q else q\<lparr>dq_paused := True, dq_gate := dq_gate q + 1\<rparr>)"

definition dq_resume :: "device_queue \<Rightarrow> device_queue" where
  "dq_resume q = q\<lparr>dq_paused := False\<rparr>"

definition gate_open :: "nat \<Rightarrow> device_queue \<Rightarrow> bool" where
  "gate_open g q \<longleftrightarrow> \<not> (dq_paused q \<and> g = dq_gate q)"

text \<open>\<open>waitIdle\<close>; the timer is the caller's and only ever answers false.\<close>

definition wait_idle :: "nat \<Rightarrow> device_queue \<Rightarrow> device_queue" where
  "wait_idle w q = (if dq_in_flight q = 0 then q\<lparr>dq_idle_told := dq_idle_told q @ [w]\<rparr>
     else q\<lparr>dq_idle_waiters := dq_idle_waiters q @ [w]\<rparr>)"

text \<open>\<open>run\<close>: refuse at the depth cap, else join the chain.\<close>

definition dq_run :: "nat \<Rightarrow> string \<Rightarrow> caller \<Rightarrow> device_queue \<Rightarrow> device_queue" where
  "dq_run max_depth serial i q =
     (if max_depth \<le> pending_tasks serial q then q\<lparr>dq_rejected := dq_rejected q @ [(i, E_ADB_BUSY_DEPTH)]\<rparr>
      else set_chain serial (chain_of serial q @ [\<lparr>tk_id = i, tk_phase = Chained, tk_gave_up = None\<rparr>]) q)"

definition not_started :: "adb_task \<Rightarrow> bool" where
  "not_started t \<longleftrightarrow> (case tk_phase t of Chained \<Rightarrow> True | AtGate _ \<Rightarrow> True | _ \<Rightarrow> False)"

definition may_give_up :: "caller \<Rightarrow> adb_task \<Rightarrow> bool" where
  "may_give_up i t \<longleftrightarrow> tk_id t = i \<and> not_started t \<and> tk_gave_up t = None"

text \<open>\<open>giveUp\<close>: the wait budget or the abort signal, any time before the task starts.\<close>

definition give_up :: "string \<Rightarrow> caller \<Rightarrow> queue_error \<Rightarrow> device_queue \<Rightarrow> device_queue" where
  "give_up serial i err q =
     (let ts = chain_of serial q in
      if list_ex (may_give_up i) ts
      then (set_chain serial (map (\<lambda>t. if may_give_up i t then t\<lparr>tk_gave_up := Some err\<rparr> else t) ts) q)
             \<lparr>dq_rejected := dq_rejected q @ [(i, err)]\<rparr>
      else q)"

text \<open>The chained function reaches its \<open>await this.gate\<close>.\<close>

definition reach_gate :: "string \<Rightarrow> device_queue \<Rightarrow> device_queue" where
  "reach_gate serial q = (case chain_of serial q of
     t # ts \<Rightarrow> if tk_phase t = Chained then set_chain serial (t\<lparr>tk_phase := AtGate (dq_gate q)\<rparr> # ts) q else q
   | [] \<Rightarrow> q)"

text \<open>Past the gate: throw what it gave up with, or start and ask the semaphore for a slot.\<close>

definition pass_gate :: "string \<Rightarrow> device_queue \<Rightarrow> device_queue" where
  "pass_gate serial q = (case chain_of serial q of
     t # ts \<Rightarrow> (case tk_phase t of
        AtGate g \<Rightarrow>
          if \<not> gate_open g q then q
          else if tk_gave_up t \<noteq> None then set_chain serial (t\<lparr>tk_phase := Settled\<rparr> # ts) q
          else (set_chain serial (t\<lparr>tk_phase := Acquiring\<rparr> # ts) q)\<lparr>dq_sem := sem_acquire (tk_id t) (dq_sem q)\<rparr>
      | _ \<Rightarrow> q)
   | [] \<Rightarrow> q)"

text \<open>The slot is held (a woken waiter takes it first): the task executes.\<close>

definition begin_task :: "string \<Rightarrow> device_queue \<Rightarrow> device_queue" where
  "begin_task serial q = (case chain_of serial q of
     t # ts \<Rightarrow>
       (let s = sem_continue (tk_id t) (dq_sem q) in
        if tk_phase t = Acquiring \<and> tk_id t \<in> set (sm_holders s)
        then (set_chain serial (t\<lparr>tk_phase := Executing\<rparr> # ts) q)\<lparr>dq_sem := s, dq_in_flight := dq_in_flight q + 1\<rparr>
        else q)
   | [] \<Rightarrow> q)"

text \<open>The \<open>finally\<close> block: count down, tell the idle waiters, release.\<close>

definition tell_idle :: "device_queue \<Rightarrow> device_queue" where
  "tell_idle q = (if dq_in_flight q = 0
     then q\<lparr>dq_idle_told := dq_idle_told q @ dq_idle_waiters q, dq_idle_waiters := []\<rparr> else q)"

definition finish_task :: "string \<Rightarrow> device_queue \<Rightarrow> device_queue" where
  "finish_task serial q = (case chain_of serial q of
     t # ts \<Rightarrow>
       if tk_phase t = Executing
       then (let q1 = tell_idle ((set_chain serial (t\<lparr>tk_phase := Settled\<rparr> # ts) q)\<lparr>dq_in_flight := dq_in_flight q - 1\<rparr>)
             in q1\<lparr>dq_sem := sem_release (tk_id t) (dq_sem q1)\<rparr>)
       else q
   | [] \<Rightarrow> q)"

text \<open>The tail of the chain: one pending fewer, and an empty chain is forgotten.\<close>

definition pop_task :: "string \<Rightarrow> device_queue \<Rightarrow> device_queue" where
  "pop_task serial q = (case chain_of serial q of
     t # ts \<Rightarrow>
       if tk_phase t = Settled
       then (if ts = [] then q\<lparr>dq_chains := jm_del serial (dq_chains q)\<rparr> else set_chain serial ts q)
       else q
   | [] \<Rightarrow> q)"

section \<open>Reachable queues\<close>

inductive dq_step :: "nat \<Rightarrow> device_queue \<Rightarrow> device_queue \<Rightarrow> bool" for depth where
  pause: "dq_step depth q (dq_pause q)"
| resume: "dq_step depth q (dq_resume q)"
| idle: "dq_step depth q (wait_idle w q)"
| run: "dq_step depth q (dq_run depth serial i q)"
| give_up: "dq_step depth q (give_up serial i err q)"
| reach: "dq_step depth q (reach_gate serial q)"
| pass: "dq_step depth q (pass_gate serial q)"
| begins: "dq_step depth q (begin_task serial q)"
| finish: "dq_step depth q (finish_task serial q)"
| pop: "dq_step depth q (pop_task serial q)"

inductive dq_reachable :: "nat \<Rightarrow> device_queue \<Rightarrow> bool" for depth where
  start: "dq_reachable depth (new_queue s)"
| step: "dq_reachable depth q \<Longrightarrow> dq_step depth q q' \<Longrightarrow> dq_reachable depth q'"

inductive_cases dq_stepE: "dq_step depth q q'"

text \<open>A chain: only its first task has left the queue, nobody who gave up is executing, and it is not too long.\<close>

definition chain_ok :: "nat \<Rightarrow> adb_task list \<Rightarrow> bool" where
  "chain_ok depth ts \<longleftrightarrow> length ts \<le> depth
     \<and> list_all (\<lambda>t. tk_phase t = Chained) (tl ts)
     \<and> list_all (\<lambda>t. tk_gave_up t \<noteq> None \<longrightarrow> tk_phase t \<noteq> Acquiring \<and> tk_phase t \<noteq> Executing) ts"

lemma chain_ok_Nil [simp]: "chain_ok depth []"
  by (simp add: chain_ok_def)

definition dq_ok :: "nat \<Rightarrow> device_queue \<Rightarrow> bool" where
  "dq_ok depth q \<longleftrightarrow> jm_wf (dq_chains q) \<and> (\<forall>serial. chain_ok depth (chain_of serial q))"

lemma dq_ok_set_chain: "dq_ok depth q \<Longrightarrow> chain_ok depth ts \<Longrightarrow> dq_ok depth (set_chain serial ts q)"
  by (auto simp: dq_ok_def) (simp add: set_chain_def)

lemma dq_ok_irrelevant [simp]:
  "dq_ok depth (q\<lparr>dq_sem := s\<rparr>) = dq_ok depth q" "dq_ok depth (q\<lparr>dq_in_flight := n\<rparr>) = dq_ok depth q"
  "dq_ok depth (q\<lparr>dq_idle_told := l\<rparr>) = dq_ok depth q" "dq_ok depth (q\<lparr>dq_idle_waiters := l\<rparr>) = dq_ok depth q"
  "dq_ok depth (q\<lparr>dq_rejected := r\<rparr>) = dq_ok depth q" "dq_ok depth (q\<lparr>dq_paused := p\<rparr>) = dq_ok depth q"
  "dq_ok depth (q\<lparr>dq_gate := g\<rparr>) = dq_ok depth q"
  by (simp_all add: dq_ok_def chain_of_def)

lemma dq_chain_ok: "dq_ok depth q \<Longrightarrow> chain_ok depth (chain_of serial q)"
  by (simp add: dq_ok_def)

lemma dq_ok_run: "dq_ok depth q \<Longrightarrow> dq_ok depth (dq_run depth serial i q)"
  using dq_chain_ok [of depth q serial]
  by (cases "chain_of serial q")
     (auto simp: dq_run_def pending_tasks_def chain_ok_def intro!: dq_ok_set_chain)

lemma dq_ok_give_up: "dq_ok depth q \<Longrightarrow> dq_ok depth (give_up serial i err q)"
proof -
  assume ok: "dq_ok depth q"
  let ?f = "\<lambda>t. if may_give_up i t then t\<lparr>tk_gave_up := Some err\<rparr> else t"
  have "chain_ok depth (map ?f (chain_of serial q))"
    using dq_chain_ok [OF ok, of serial]
    by (cases "chain_of serial q") (auto simp: chain_ok_def list_all_iff may_give_up_def not_started_def)
  then show ?thesis
    using ok dq_ok_set_chain [OF ok] by (auto simp: give_up_def Let_def)
qed

lemma dq_ok_head:
  assumes "dq_ok depth q" "chain_of serial q = t # ts"
    and "tk_gave_up t' = tk_gave_up t" "tk_gave_up t \<noteq> None \<longrightarrow> tk_phase t' \<noteq> Acquiring \<and> tk_phase t' \<noteq> Executing"
  shows "dq_ok depth (set_chain serial (t' # ts) q)"
  using dq_chain_ok [OF assms(1), of serial] assms by (intro dq_ok_set_chain) (auto simp: chain_ok_def)

lemma chain_ok_tail: "chain_ok depth (t # ts) \<Longrightarrow> chain_ok depth ts"
  by (cases ts) (auto simp: chain_ok_def)

lemma dq_ok_tail:
  assumes "dq_ok depth q" "chain_of serial q = t # ts"
  shows "dq_ok depth (set_chain serial ts q)"
  using dq_chain_ok [OF assms(1), of serial] assms by (auto intro: dq_ok_set_chain chain_ok_tail)

lemma dq_ok_delete: "dq_ok depth q \<Longrightarrow> dq_ok depth (q\<lparr>dq_chains := jm_del serial (dq_chains q)\<rparr>)"
  by (auto simp: dq_ok_def chain_of_def)

lemma dq_ok_reach: "dq_ok depth q \<Longrightarrow> dq_ok depth (reach_gate serial q)"
  by (cases "chain_of serial q") (auto simp: reach_gate_def intro!: dq_ok_head)

lemma dq_ok_pass: "dq_ok depth q \<Longrightarrow> dq_ok depth (pass_gate serial q)"
  by (cases "chain_of serial q")
     (auto simp: pass_gate_def intro!: dq_ok_head split: task_phase.splits)

lemma dq_ok_begin: "dq_ok depth q \<Longrightarrow> dq_ok depth (begin_task serial q)"
proof (cases "chain_of serial q")
  case (Cons t ts)
  assume ok: "dq_ok depth q"
  show ?thesis
  proof (cases "tk_phase t = Acquiring")
    case True
    with dq_chain_ok [OF ok, of serial] Cons have "tk_gave_up t = None" by (auto simp: chain_ok_def)
    with Cons ok dq_ok_head [OF ok Cons, of "t\<lparr>tk_phase := Executing\<rparr>"] show ?thesis
      by (auto simp: begin_task_def Let_def)
  qed (use Cons ok in \<open>simp add: begin_task_def Let_def\<close>)
qed (simp add: begin_task_def)

lemma dq_ok_finish: "dq_ok depth q \<Longrightarrow> dq_ok depth (finish_task serial q)"
proof (cases "chain_of serial q")
  case (Cons t ts)
  assume ok: "dq_ok depth q"
  have "dq_ok depth (set_chain serial (t\<lparr>tk_phase := Settled\<rparr> # ts) q)" by (rule dq_ok_head [OF ok Cons]) auto
  with Cons ok show ?thesis
    by (auto simp: finish_task_def Let_def tell_idle_def)
qed (simp add: finish_task_def)

lemma dq_ok_pop: "dq_ok depth q \<Longrightarrow> dq_ok depth (pop_task serial q)"
  by (cases "chain_of serial q") (auto simp: pop_task_def intro: dq_ok_tail dq_ok_delete)

lemma dq_step_ok: "dq_step depth q q' \<Longrightarrow> dq_ok depth q \<Longrightarrow> dq_ok depth q'"
  by (elim dq_stepE)
     (auto intro: dq_ok_run dq_ok_give_up dq_ok_reach dq_ok_pass dq_ok_begin dq_ok_finish dq_ok_pop
       simp: dq_pause_def dq_resume_def wait_idle_def)

lemma dq_reachable_ok: "dq_reachable depth q \<Longrightarrow> dq_ok depth q"
proof (induction rule: dq_reachable.induct)
  case (start s)
  show ?case by (simp add: new_queue_def dq_ok_def chain_of_def)
qed (rule dq_step_ok)

section \<open>Properties\<close>


definition demo_sem :: semaphore where
  "demo_sem = \<lparr>sm_in_flight = 0, sm_max = 1, sm_waiters = [], sm_woken = [], sm_holders = []\<rparr>"

text \<open>Two devices, one slot: the first executes, the second waits for the slot, the gate is closed.\<close>

definition demo_drained :: device_queue where
  "demo_drained = wait_idle 7 (dq_pause (begin_task ''a'' (pass_gate ''b'' (reach_gate ''b'' (dq_run 32 ''b'' 2
     (pass_gate ''a'' (reach_gate ''a'' (dq_run 32 ''a'' 1 (new_queue demo_sem)))))))))"

lemma demo_drained_reachable: "dq_reachable 32 demo_drained"
  unfolding demo_drained_def
  by (intro dq_reachable.step [OF _ dq_step.idle] dq_reachable.step [OF _ dq_step.pause]
      dq_reachable.step [OF _ dq_step.begins] dq_reachable.step [OF _ dq_step.pass]
      dq_reachable.step [OF _ dq_step.reach] dq_reachable.step [OF _ dq_step.run] dq_reachable.start)


text \<open>
  A drained queue is not idle. When the only executing task finishes while the gate is closed, whoever
  waits for the queue to be idle is told so before the slot is released; a task of another device that had
  passed the gate and was parked at the semaphore then takes the slot and executes, although the queue is paused.
\<close>

theorem drain_reports_idle_too_early:
  assumes "dq_paused q" "dq_in_flight q = 1" "w \<in> set (dq_idle_waiters q)" "serial \<noteq> other"
    and "chain_of serial q = t # ts" "tk_phase t = Executing" "tk_id t \<in> set (sm_holders (dq_sem q))"
    and "chain_of other q = u # us" "tk_phase u = Acquiring" "sm_waiters (dq_sem q) = tk_id u # rest"
  shows "w \<in> set (dq_idle_told (finish_task serial q))
    \<and> dq_paused (begin_task other (finish_task serial q))
    \<and> dq_in_flight (begin_task other (finish_task serial q)) = 1
    \<and> tk_phase (hd (chain_of other (begin_task other (finish_task serial q)))) = Executing"
proof -
  let ?q = "finish_task serial q"
  have sem: "dq_sem ?q = sem_release (tk_id t) (dq_sem q)"
    using assms(2,5,6) by (simp add: finish_task_def Let_def tell_idle_def set_chain_def)
  have "tk_id u \<in> set (sm_woken (dq_sem ?q))" using assms(7,10) sem by (simp add: sem_release_def wake_next_def)
  then have held: "tk_id u \<in> set (sm_holders (sem_continue (tk_id u) (dq_sem ?q)))"
    by (simp add: sem_continue_def take_slot_def)
  have chain: "chain_of other ?q = u # us"
    using assms(2,4,5,6,8) by (simp add: finish_task_def Let_def tell_idle_def chain_of_def set_chain_def)
  have rest: "dq_paused ?q" "dq_in_flight ?q = 0" "w \<in> set (dq_idle_told ?q)"
    using assms(1,2,3,5,6) by (simp_all add: finish_task_def Let_def tell_idle_def set_chain_def)
  show ?thesis
    using chain held assms(9) rest by (simp add: begin_task_def Let_def chain_of_def set_chain_def)
qed

theorem drain_reports_idle_too_early_witness:
  "dq_idle_told (finish_task ''a'' demo_drained) = [7]
   \<and> tk_phase (hd (chain_of ''b'' (begin_task ''b'' (finish_task ''a'' demo_drained)))) = Executing"
proof -
  let ?t = "\<lparr>tk_id = 1, tk_phase = Executing, tk_gave_up = None\<rparr>"
  let ?u = "\<lparr>tk_id = 2, tk_phase = Acquiring, tk_gave_up = None\<rparr>"
  have c: "dq_paused demo_drained" "dq_in_flight demo_drained = 1" "7 \<in> set (dq_idle_waiters demo_drained)"
    "''a'' \<noteq> ''b''" "chain_of ''a'' demo_drained = ?t # []" "tk_phase ?t = Executing" "tk_id ?t \<in> set (sm_holders (dq_sem demo_drained))"
    "chain_of ''b'' demo_drained = ?u # []" "tk_phase ?u = Acquiring" "sm_waiters (dq_sem demo_drained) = tk_id ?u # []"
    by code_simp+
  have "dq_idle_told (finish_task ''a'' demo_drained) = [7]" by code_simp
  with drain_reports_idle_too_early [OF c] show ?thesis by simp
qed

end
