(* ===== verification/Tracker.thy ===== *)
theory Tracker
  imports Prelude
begin

text \<open>
  The device tracker (\<open>packages/adb/src/tracker.ts\<close>): snapshots of the adb server's device list, the
  events between two snapshots, and the grace after a reconnect during which a device missing from a snapshot is
  carried forward instead of being reported as removed. The connection itself is the source of the snapshots.
\<close>

declare map_of_eq_Some_iff [simp del]

section \<open>Snapshots\<close>

text \<open>Columns of \<open>host:devices-l\<close> that a tracker snapshot never carries are left out.\<close>

record tracked_device =
  td_serial :: string
  td_state :: string

datatype tracker_event = TAdd string string | TRemove string | TChange string string

definition js_space :: "char \<Rightarrow> bool" where
  "js_space c \<longleftrightarrow> c \<in> {CHR '' '', CHR 0x09, CHR 0x0A, CHR 0x0B, CHR 0x0C, CHR 0x0D, CHR 0xA0}"

definition js_trim :: "string \<Rightarrow> string" where
  "js_trim s = rev (dropWhile js_space (rev (dropWhile js_space s)))"

fun js_split :: "char \<Rightarrow> string \<Rightarrow> string list" where
  "js_split sep [] = [[]]"
| "js_split sep (c # cs) = (if c = sep then [] # js_split sep cs
     else case js_split sep cs of [] \<Rightarrow> [[c]] | w # ws \<Rightarrow> (c # w) # ws)"

text \<open>\<open>const [serial, state] = trimmed.split('\t')\<close>.\<close>

definition parse_line :: "string \<Rightarrow> tracked_device option" where
  "parse_line line =
     (let trimmed = js_trim line in
      if trimmed = [] then None
      else case js_split (CHR 0x09) trimmed of
        serial # state # _ \<Rightarrow> if serial = [] \<or> state = [] then None else Some \<lparr>td_serial = serial, td_state = state\<rparr>
      | _ \<Rightarrow> None)"

definition parse_snapshot :: "string \<Rightarrow> tracked_device list" where
  "parse_snapshot raw = List.map_filter parse_line (js_split (CHR 0x0A) raw)"

section \<open>Differences\<close>

definition state_map :: "tracked_device list \<Rightarrow> (string, string) jmap" where
  "state_map ds = fold (\<lambda>d m. jm_set (td_serial d) (td_state d) m) ds []"

definition diff_one :: "(string, string) jmap \<Rightarrow> string \<times> string \<Rightarrow> tracker_event list" where
  "diff_one old p = (case jm_get old (fst p) of
     None \<Rightarrow> [TAdd (fst p) (snd p)]
   | Some s \<Rightarrow> if s \<noteq> snd p then [TChange (fst p) (snd p)] else [])"

definition diff_snapshots :: "tracked_device list \<Rightarrow> tracked_device list \<Rightarrow> tracker_event list" where
  "diff_snapshots prev next =
     (let old = state_map prev; new = state_map next in
      concat (map (diff_one old) new)
      @ map TRemove (filter (\<lambda>serial. jm_get new serial = None) (jm_keys old)))"

section \<open>The tracker\<close>

record tracker =
  tr_current :: "tracked_device list"
  tr_settle_until :: millis
  tr_backoff :: int
  tr_reconnecting :: bool
  tr_events :: "tracker_event list"

definition new_tracker :: tracker where
  "new_tracker = \<lparr>tr_current = [], tr_settle_until = 0, tr_backoff = 1000, tr_reconnecting = False, tr_events = []\<rparr>"

definition settling :: "millis \<Rightarrow> tracker \<Rightarrow> bool" where
  "settling now t \<longleftrightarrow> 0 < tr_settle_until t \<and> now < tr_settle_until t"

definition effective_snapshot :: "millis \<Rightarrow> tracked_device list \<Rightarrow> tracker \<Rightarrow> tracked_device list" where
  "effective_snapshot now next t =
     (if settling now t
      then next @ filter (\<lambda>d. td_serial d \<notin> td_serial ` set next) (tr_current t) else next)"

definition emit_from_snapshot :: "millis \<Rightarrow> tracked_device list \<Rightarrow> tracker \<Rightarrow> tracker" where
  "emit_from_snapshot now next t =
     (let eff = effective_snapshot now next t in
      t\<lparr>tr_current := eff, tr_events := tr_events t @ diff_snapshots (tr_current t) eff\<rparr>)"

text \<open>
  The loop: a connection arms the grace (not the first one), a status acknowledges it and resets the backoff, every
  block is a snapshot, a drop doubles the backoff up to five seconds.
\<close>

definition tracker_connect :: "millis \<Rightarrow> millis \<Rightarrow> tracker \<Rightarrow> tracker" where
  "tracker_connect grace now t =
     t\<lparr>tr_settle_until := (if tr_reconnecting t \<and> 0 < grace then now + grace else 0), tr_reconnecting := True\<rparr>"

definition tracker_ack :: "tracker \<Rightarrow> tracker" where
  "tracker_ack t = t\<lparr>tr_backoff := 1000\<rparr>"

definition tracker_block :: "millis \<Rightarrow> string \<Rightarrow> tracker \<Rightarrow> tracker" where
  "tracker_block now raw t = emit_from_snapshot now (parse_snapshot raw) t"

definition tracker_drop :: "tracker \<Rightarrow> tracker" where
  "tracker_drop t = t\<lparr>tr_backoff := min (tr_backoff t * 2) 5000\<rparr>"

inductive tracker_step :: "millis \<Rightarrow> tracker \<Rightarrow> tracker \<Rightarrow> bool" for grace where
  connect: "tracker_step grace t (tracker_connect grace now t)"
| ack: "tracker_step grace t (tracker_ack t)"
| block: "tracker_step grace t (tracker_block now raw t)"
| drop: "tracker_step grace t (tracker_drop t)"

inductive tracker_reachable :: "millis \<Rightarrow> tracker \<Rightarrow> bool" for grace where
  start: "tracker_reachable grace new_tracker"
| step: "tracker_reachable grace t \<Longrightarrow> tracker_step grace t t' \<Longrightarrow> tracker_reachable grace t'"

inductive_cases tracker_stepE: "tracker_step grace t t'"

section \<open>What a listener knows\<close>

fun apply_tracker_event :: "tracker_event \<Rightarrow> (string \<rightharpoonup> string) \<Rightarrow> (string \<rightharpoonup> string)" where
  "apply_tracker_event (TAdd s st) m = m(s \<mapsto> st)"
| "apply_tracker_event (TChange s st) m = m(s \<mapsto> st)"
| "apply_tracker_event (TRemove s) m = m(s := None)"

abbreviation replay :: "tracker_event list \<Rightarrow> (string \<rightharpoonup> string) \<Rightarrow> (string \<rightharpoonup> string)" where
  "replay es m \<equiv> fold apply_tracker_event es m"

lemma jm_wf_state_map [simp]: "jm_wf (state_map ds)"
proof -
  have "jm_wf m \<Longrightarrow> jm_wf (fold (\<lambda>d m. jm_set (td_serial d) (td_state d) m) ds m)" for m
    by (induction ds arbitrary: m) auto
  then show ?thesis by (simp add: state_map_def)
qed

text \<open>The updates of one snapshot, read off a map that already agrees with the unchanged devices.\<close>

lemma replay_updates:
  assumes "jm_wf new" "\<And>s v. s \<in> set (jm_keys new) \<Longrightarrow> jm_get old s = Some v \<Longrightarrow> m s = Some v"
  shows "replay (concat (map (diff_one old) new)) m s = (case jm_get new s of None \<Rightarrow> m s | Some v \<Rightarrow> Some v)"
  using assms
proof (induction new arbitrary: m)
  case (Cons p new)
  obtain k v where p: "p = (k, v)" by (cases p)
  have notin: "k \<notin> set (jm_keys new)" "jm_get new k = None" "jm_wf new"
    using Cons.prems(1) p by (auto simp: map_of_eq_None_iff)
  have step: "replay (diff_one old p) m = m(k \<mapsto> v)"
    using Cons.prems(2) [of k] p by (auto simp: diff_one_def split: option.splits)
  have agree: "(m(k \<mapsto> v)) x = Some w" if "x \<in> set (jm_keys new)" "jm_get old x = Some w" for x w
    using Cons.prems(2) [of x w] that notin(1) by auto
  have "replay (concat (map (diff_one old) new)) (m(k \<mapsto> v)) s
      = (case jm_get new s of None \<Rightarrow> (m(k \<mapsto> v)) s | Some v \<Rightarrow> Some v)"
    by (rule Cons.IH [OF notin(3)]) (rule agree)
  with step p notin(2) show ?case by (auto split: option.splits)
qed simp

lemma replay_removes: "replay (map TRemove ks) m s = (if s \<in> set ks then None else m s)"
  by (induction ks arbitrary: m) auto

lemma diff_replays: "replay (diff_snapshots prev next) (map_of (state_map prev)) = map_of (state_map next)"
proof
  fix s
  let ?old = "state_map prev" and ?new = "state_map next"
  have up: "replay (concat (map (diff_one ?old) ?new)) (map_of ?old) s = (case jm_get ?new s of None \<Rightarrow> jm_get ?old s | Some v \<Rightarrow> Some v)"
    by (rule replay_updates) auto
  have "s \<in> set (jm_keys ?old)" if "jm_get ?old s = Some v" for v using that by (force dest: map_of_SomeD)
  then show "replay (diff_snapshots prev next) (map_of ?old) s = map_of ?new s"
    using up by (auto simp: diff_snapshots_def Let_def replay_removes split: option.splits)
       (metis map_of_eq_None_iff option.exhaust)+
qed

lemma tracker_listener:
  assumes "tracker_reachable grace t"
  shows "replay (tr_events t) Map.empty = map_of (state_map (tr_current t)) \<and> tr_backoff t \<in> {1000, 2000, 4000, 5000}"
  using assms
proof (induction rule: tracker_reachable.induct)
  case start
  show ?case by (simp add: new_tracker_def state_map_def)
next
  case (step t t')
  from step.hyps(2) show ?case
  proof cases
    case (block now raw)
    with step.IH diff_replays [of "tr_current t" "effective_snapshot now (parse_snapshot raw) t"] show ?thesis
      by (simp add: tracker_block_def emit_from_snapshot_def Let_def)
  qed (use step.IH in \<open>auto simp: tracker_connect_def tracker_ack_def tracker_drop_def\<close>)
qed

text \<open>
  C29: A listener that replays every event it was ever given knows exactly the devices of the tracker's current snapshot
  with their states, through any number of reconnects, and the reconnect backoff is always one, two, four or five seconds.
\<close>

theorem tracker_events_complete:
  assumes "tracker_reachable grace t"
  shows "replay (tr_events t) Map.empty = map_of (state_map (tr_current t)) \<and> tr_backoff t \<in> {1000, 2000, 4000, 5000}"
  by (rule tracker_listener [OF assms])

lemma state_map_append: "map_of (state_map (a @ b)) s
    = (case jm_get (state_map b) s of None \<Rightarrow> jm_get (state_map a) s | Some v \<Rightarrow> Some v)"
proof (induction b arbitrary: a rule: rev_induct)
  case Nil
  show ?case by (simp add: state_map_def)
next
  case (snoc x b)
  have step: "state_map (c @ [x]) = jm_set (td_serial x) (td_state x) (state_map c)" for c by (simp add: state_map_def)
  show ?case using snoc [of a] step [of "a @ b"] step [of b] by (simp split: option.splits)
qed

lemma state_map_None: "jm_get (state_map ds) s = None \<longleftrightarrow> s \<notin> td_serial ` set ds"
proof (induction ds rule: rev_induct)
  case (snoc x ds)
  have "state_map (ds @ [x]) = jm_set (td_serial x) (td_state x) (state_map ds)" by (simp add: state_map_def)
  with snoc show ?case by auto
qed (simp add: state_map_def)

text \<open>
  While the tracker is settling after a reconnect no device is reported removed, whatever the snapshot
  says, and every device known before is still in the current list; outside the grace a device is reported removed exactly when the
  snapshot no longer lists it.
\<close>

theorem no_removal_while_settling:
  "(settling now t \<longrightarrow> (\<forall>s. TRemove s \<notin> set (diff_snapshots (tr_current t) (effective_snapshot now next t)))
      \<and> td_serial ` set (tr_current t) \<subseteq> td_serial ` set (tr_current (emit_from_snapshot now next t)))
   \<and> (\<not> settling now t \<longrightarrow>
      (TRemove s \<in> set (diff_snapshots (tr_current t) (effective_snapshot now next t)) \<longleftrightarrow>
         s \<in> td_serial ` set (tr_current t) \<and> s \<notin> td_serial ` set next))"
proof -
  have removed: "TRemove s \<in> set (diff_snapshots prev nxt) \<longleftrightarrow> s \<in> td_serial ` set prev \<and> s \<notin> td_serial ` set nxt" for s prev nxt
  proof -
    have "TRemove s \<notin> set (diff_one old p)" for old p by (simp add: diff_one_def split: option.splits)
    moreover have "s \<in> set (jm_keys (state_map prev)) \<longleftrightarrow> s \<in> td_serial ` set prev"
      using state_map_None [of prev s] by (simp add: map_of_eq_None_iff)
    ultimately show ?thesis by (auto simp: diff_snapshots_def Let_def state_map_None)
  qed
  show ?thesis by (auto simp: removed effective_snapshot_def emit_from_snapshot_def Let_def)
qed

definition demo_tracker :: tracker where
  "demo_tracker = \<lparr>tr_current = [\<lparr>td_serial = ''p1'', td_state = ''device''\<rparr>], tr_settle_until = 100,
     tr_backoff = 1000, tr_reconnecting = True, tr_events = []\<rparr>"

theorem no_removal_while_settling_witness:
  "td_serial ` set (tr_current (emit_from_snapshot 50 [] demo_tracker)) \<supseteq> {''p1''}
   \<and> TRemove ''p1'' \<in> set (diff_snapshots (tr_current demo_tracker) (effective_snapshot 150 [] demo_tracker))"
proof -
  have "settling 50 demo_tracker" "\<not> settling 150 demo_tracker" "td_serial ` set (tr_current demo_tracker) = {''p1''}"
    by (simp_all add: settling_def demo_tracker_def)
  with no_removal_while_settling [of 50 demo_tracker "[]"] no_removal_while_settling [of 150 demo_tracker "[]" "''p1''"]
  show ?thesis by simp
qed

definition demo_tracked :: tracker where
  "demo_tracked = tracker_block 5 (''p1'' @ [CHR 0x09] @ ''device'' @ [CHR 0x0A]) (tracker_ack (tracker_connect 30000 0 new_tracker))"

theorem tracker_events_complete_witness:
  "replay (tr_events demo_tracked) Map.empty ''p1'' = Some ''device''"
proof -
  have "tracker_reachable 30000 demo_tracked" unfolding demo_tracked_def
    by (intro tracker_reachable.step [OF _ tracker_step.block] tracker_reachable.step [OF _ tracker_step.ack]
        tracker_reachable.step [OF _ tracker_step.connect] tracker_reachable.start)
  from tracker_events_complete [OF this] have "replay (tr_events demo_tracked) Map.empty = map_of (state_map (tr_current demo_tracked))"
    by blast
  moreover have "jm_get (state_map (tr_current demo_tracked)) ''p1'' = Some ''device''" by code_simp
  ultimately show ?thesis by simp
qed

end
