(* ===== verification/AdbWire.thy ===== *)
theory AdbWire
  imports Bytes Tracker "HOL-Library.Sublist"
begin

text \<open>
  The smart-socket framing of the adb server (\<open>packages/adb/src/socket.ts\<close>): requests and blocks
  with a four-digit hexadecimal length, and the accumulating byte queue every read works against. A promise is a token:
  its resolution or rejection, and what a streaming consumer is handed, are recorded in order.
\<close>

section \<open>Hexadecimal lengths\<close>

text \<open>\<open>Number.prototype.toString(16)\<close> and \<open>padStart(4, '0')\<close>.\<close>

definition hex_char :: "nat \<Rightarrow> nat" where
  "hex_char d = (if d < 10 then 48 + d else 87 + d)"

fun hex_digits :: "nat \<Rightarrow> nat list" where
  "hex_digits n = (if n < 16 then [hex_char n] else hex_digits (n div 16) @ [hex_char (n mod 16)])"

declare hex_digits.simps [simp del]

definition pad_start4 :: "nat list \<Rightarrow> nat list" where
  "pad_start4 s = replicate (4 - length s) 48 @ s"

text \<open>\<open>out.set(prefix, 0); out.set(body, 4)\<close>: a longer prefix is overwritten from offset 4 on.\<close>

definition encode_request :: "byte list \<Rightarrow> byte list" where
  "encode_request body =
     (let prefix = map word_of_nat (pad_start4 (hex_digits (length body))) in take 4 prefix @ body)"

text \<open>\<open>Number.parseInt(s, 16)\<close> on decoded text; \<open>None\<close> is NaN.\<close>

definition hex_value :: "nat \<Rightarrow> nat option" where
  "hex_value c = (if 48 \<le> c \<and> c \<le> 57 then Some (c - 48) else if 97 \<le> c \<and> c \<le> 102 then Some (c - 87)
     else if 65 \<le> c \<and> c \<le> 70 then Some (c - 55) else None)"

fun hex_prefix :: "nat list \<Rightarrow> nat list" where
  "hex_prefix [] = []"
| "hex_prefix (c # cs) = (case hex_value c of None \<Rightarrow> [] | Some v \<Rightarrow> v # hex_prefix cs)"

definition strip_0x :: "nat list \<Rightarrow> nat list" where
  "strip_0x s = (case s of a # b # cs \<Rightarrow> if a = 48 \<and> (b = 120 \<or> b = 88) then cs else s | _ \<Rightarrow> s)"

definition code_space :: "nat \<Rightarrow> bool" where
  "code_space c \<longleftrightarrow> c \<in> {9, 10, 11, 12, 13, 32, 160, 5760, 8232, 8233, 8239, 8287, 12288, 65279} \<or> 8192 \<le> c \<and> c \<le> 8202"

definition parse_int16 :: "nat list \<Rightarrow> int option" where
  "parse_int16 s =
     (let t = dropWhile code_space s;
          neg = (t \<noteq> [] \<and> hd t = 45);
          u = (if t \<noteq> [] \<and> (hd t = 45 \<or> hd t = 43) then tl t else t);
          ds = hex_prefix (strip_0x u);
          v = int (foldl (\<lambda>a d. 16 * a + d) 0 ds)
      in if ds = [] then None else Some (if neg then - v else v))"

text \<open>\<open>readBlock\<close> after the four length bytes: a bad length, an empty block, or how many bytes to take.\<close>

datatype block_head = BadLength | EmptyBlock | TakeBody int

definition block_head_of :: "byte list \<Rightarrow> block_head" where
  "block_head_of four = (case parse_int16 (utf8_decode four) of
     None \<Rightarrow> BadLength | Some n \<Rightarrow> if n = 0 then EmptyBlock else TakeBody n)"

datatype adb_status = Okay | Fail | UnexpectedStatus "nat list"

definition status_of :: "byte list \<Rightarrow> adb_status" where
  "status_of four = (let s = utf8_decode four in
     if s = [79, 75, 65, 89] then Okay else if s = [70, 65, 73, 76] then Fail else UnexpectedStatus s)"

section \<open>The byte queue\<close>

datatype wire_error = OutputLimit | ConcurrentRead | ClosedWhileWaiting int nat | Given string

datatype wire_event =
    ReadOk nat "byte list"
  | ReadErr nat "wire_error option"
  | StreamData "byte list"
  | StreamEnd "wire_error option"

record byte_queue =
  bq_chunks :: "byte list list"
  bq_length :: nat
  bq_waiter :: "(int \<times> nat) option"
  bq_ended :: bool
  bq_ended_error :: "wire_error option"
  bq_aborted :: bool
  bq_streaming :: bool
  bq_streamed_bytes :: nat
  bq_max_bytes :: nat
  bq_events :: "wire_event list"

definition new_byte_queue :: "nat \<Rightarrow> byte_queue" where
  "new_byte_queue m = \<lparr>bq_chunks = [], bq_length = 0, bq_waiter = None, bq_ended = False, bq_ended_error = None,
     bq_aborted = False, bq_streaming = False, bq_streamed_bytes = 0, bq_max_bytes = m, bq_events = []\<rparr>"

definition log_wire :: "wire_event list \<Rightarrow> byte_queue \<Rightarrow> byte_queue" where
  "log_wire es q = q\<lparr>bq_events := bq_events q @ es\<rparr>"

definition bq_concat_all :: "byte_queue \<Rightarrow> byte list \<times> byte_queue" where
  "bq_concat_all q = (concat (bq_chunks q), q\<lparr>bq_chunks := [], bq_length := 0\<rparr>)"

text \<open>\<open>all.subarray(0, n)\<close> and \<open>all.subarray(n)\<close>; a negative index counts from the end.\<close>

definition sub_index :: "int \<Rightarrow> 'b list \<Rightarrow> nat" where
  "sub_index n all = (if n < 0 then nat (int (length all) + n) else nat n)"

definition bq_flush :: "byte_queue \<Rightarrow> byte_queue" where
  "bq_flush q = (case bq_waiter q of
     None \<Rightarrow> q
   | Some (need, tok) \<Rightarrow>
      if need = -1 then
        (if \<not> bq_ended q then q
         else let q1 = q\<lparr>bq_waiter := None\<rparr> in
           case bq_ended_error q of
             Some e \<Rightarrow> log_wire [ReadErr tok (Some e)] q1
           | None \<Rightarrow> (case bq_concat_all q1 of (all, q2) \<Rightarrow> log_wire [ReadOk tok all] q2))
      else if need \<le> int (bq_length q) then
        (case bq_concat_all q of (all, q1) \<Rightarrow>
          let k = sub_index need all; rest = drop k all;
              q2 = (if rest \<noteq> [] then q1\<lparr>bq_chunks := bq_chunks q1 @ [rest], bq_length := length rest\<rparr> else q1)
          in log_wire [ReadOk tok (take k all)] (q2\<lparr>bq_waiter := None\<rparr>))
      else if bq_ended q then
        log_wire [ReadErr tok (Some (coalesce (bq_ended_error q) (ClosedWhileWaiting need (bq_length q))))] (q\<lparr>bq_waiter := None\<rparr>)
      else q)"

definition bq_abort :: "wire_error \<Rightarrow> byte_queue \<Rightarrow> byte_queue" where
  "bq_abort err q =
     (if bq_aborted q then q
      else log_wire ((case bq_waiter q of None \<Rightarrow> [] | Some (_, tok) \<Rightarrow> [ReadErr tok (Some err)])
             @ (if bq_streaming q then [StreamEnd (Some err)] else []))
        (q\<lparr>bq_aborted := True, bq_ended := True, bq_ended_error := Some err, bq_chunks := [], bq_length := 0,
            bq_waiter := None, bq_streaming := False\<rparr>))"

definition bq_push :: "byte list \<Rightarrow> byte_queue \<Rightarrow> byte_queue" where
  "bq_push chunk q =
     (if bq_aborted q then q
      else if bq_streaming q then
        (let q1 = q\<lparr>bq_streamed_bytes := bq_streamed_bytes q + length chunk\<rparr> in
         if bq_max_bytes q < bq_streamed_bytes q1 then bq_abort OutputLimit q1
         else if chunk \<noteq> [] then log_wire [StreamData chunk] q1 else q1)
      else
        (let q1 = q\<lparr>bq_chunks := bq_chunks q @ [chunk], bq_length := bq_length q + length chunk\<rparr> in
         if bq_max_bytes q < bq_length q1 then bq_abort OutputLimit q1 else bq_flush q1))"

definition bq_end :: "wire_error option \<Rightarrow> byte_queue \<Rightarrow> byte_queue" where
  "bq_end err q =
     (if bq_aborted q then q
      else let q1 = q\<lparr>bq_ended := True, bq_ended_error := err\<rparr> in
        if bq_streaming q then log_wire [StreamEnd err] (q1\<lparr>bq_streaming := False\<rparr>) else bq_flush q1)"

text \<open>\<open>take(n)\<close> and \<open>takeUntilEnd()\<close>; a second pending read throws.\<close>

definition bq_await :: "int \<Rightarrow> nat \<Rightarrow> byte_queue \<Rightarrow> wire_error + byte_queue" where
  "bq_await need tok q =
     (if bq_aborted q then Inr (log_wire [ReadErr tok (bq_ended_error q)] q)
      else if bq_waiter q \<noteq> None then Inl ConcurrentRead
      else Inr (bq_flush (q\<lparr>bq_waiter := Some (need, tok)\<rparr>)))"

definition bq_take :: "int \<Rightarrow> nat \<Rightarrow> byte_queue \<Rightarrow> wire_error + byte_queue" where
  "bq_take n tok q = bq_await n tok q"

definition bq_take_until_end :: "nat \<Rightarrow> byte_queue \<Rightarrow> wire_error + byte_queue" where
  "bq_take_until_end tok q = bq_await (-1) tok q"

definition bq_drain :: "byte_queue \<Rightarrow> wire_error + byte_queue" where
  "bq_drain q =
     (if bq_waiter q \<noteq> None then Inl ConcurrentRead
      else if bq_aborted q then Inr (log_wire [StreamEnd (bq_ended_error q)] q)
      else let q1 = (if 0 < bq_length q
                 then (case bq_concat_all q of (buffered, q') \<Rightarrow>
                   log_wire [StreamData buffered] (q'\<lparr>bq_streamed_bytes := bq_streamed_bytes q' + length buffered\<rparr>)) else q)
           in Inr (if bq_ended q then log_wire [StreamEnd (bq_ended_error q)] q1 else q1\<lparr>bq_streaming := True\<rparr>))"

section \<open>Reachable queues\<close>

text \<open>A run of the queue, with the bytes pushed so far; nobody reads from a queue that is being streamed.\<close>

inductive bq_reachable :: "byte_queue \<Rightarrow> byte list \<Rightarrow> bool" where
  start: "bq_reachable (new_byte_queue m) []"
| push: "bq_reachable q bs \<Longrightarrow> bq_reachable (bq_push c q) (bs @ c)"
| finish: "bq_reachable q bs \<Longrightarrow> bq_reachable (bq_end err q) bs"
| abort: "bq_reachable q bs \<Longrightarrow> bq_reachable (bq_abort err q) bs"
| await: "bq_reachable q bs \<Longrightarrow> \<not> bq_streaming q \<Longrightarrow> bq_await n tok q = Inr q' \<Longrightarrow> bq_reachable q' bs"
| drain: "bq_reachable q bs \<Longrightarrow> bq_drain q = Inr q' \<Longrightarrow> bq_reachable q' bs"

fun delivered_of :: "wire_event \<Rightarrow> byte list" where
  "delivered_of (ReadOk _ b) = b"
| "delivered_of (StreamData b) = b"
| "delivered_of _ = []"

definition delivered :: "byte_queue \<Rightarrow> byte list" where
  "delivered q = concat (map delivered_of (bq_events q))"

text \<open>
  While it is not aborted, what was delivered and what is buffered is what was pushed; the length column is
  true and within the limit; a pending read really lacks bytes, and an ended queue has none pending.
\<close>

definition bq_live :: "byte_queue \<Rightarrow> byte list \<Rightarrow> bool" where
  "bq_live q bs \<longleftrightarrow> \<not> bq_aborted q \<and> delivered q @ concat (bq_chunks q) = bs \<and> bq_length q = length (concat (bq_chunks q))
     \<and> bq_length q \<le> bq_max_bytes q
     \<and> (bq_streaming q \<longrightarrow> \<not> bq_ended q \<and> bq_waiter q = None \<and> concat (bq_chunks q) = [])"

definition read_waits :: "byte_queue \<Rightarrow> bool" where
  "read_waits q \<longleftrightarrow> (case bq_waiter q of None \<Rightarrow> True
     | Some (need, _) \<Rightarrow> \<not> bq_ended q \<and> (need = -1 \<or> int (bq_length q) < need))"

definition bq_dead :: "byte_queue \<Rightarrow> byte list \<Rightarrow> bool" where
  "bq_dead q bs \<longleftrightarrow> bq_aborted q \<and> bq_waiter q = None \<and> \<not> bq_streaming q \<and> prefix (delivered q) bs"

definition bq_ok :: "byte_queue \<Rightarrow> byte list \<Rightarrow> bool" where
  "bq_ok q bs \<longleftrightarrow> bq_dead q bs \<or> bq_live q bs \<and> read_waits q"

lemma delivered_log: "delivered (log_wire es q) = delivered q @ concat (map delivered_of es)"
  by (simp add: delivered_def log_wire_def)

lemma log_wire_simps [simp]:
  "bq_chunks (log_wire es q) = bq_chunks q" "bq_length (log_wire es q) = bq_length q" "bq_waiter (log_wire es q) = bq_waiter q"
  "bq_ended (log_wire es q) = bq_ended q" "bq_ended_error (log_wire es q) = bq_ended_error q"
  "bq_aborted (log_wire es q) = bq_aborted q" "bq_streaming (log_wire es q) = bq_streaming q"
  "bq_max_bytes (log_wire es q) = bq_max_bytes q" "bq_streamed_bytes (log_wire es q) = bq_streamed_bytes q"
  by (simp_all add: log_wire_def)

lemma delivered_same [simp]:
  "delivered (q\<lparr>bq_chunks := c\<rparr>) = delivered q" "delivered (q\<lparr>bq_length := n\<rparr>) = delivered q"
  "delivered (q\<lparr>bq_waiter := w\<rparr>) = delivered q" "delivered (q\<lparr>bq_ended := b\<rparr>) = delivered q"
  "delivered (q\<lparr>bq_ended_error := e\<rparr>) = delivered q" "delivered (q\<lparr>bq_aborted := b\<rparr>) = delivered q"
  "delivered (q\<lparr>bq_streaming := b\<rparr>) = delivered q" "delivered (q\<lparr>bq_streamed_bytes := n\<rparr>) = delivered q"
  by (simp_all add: delivered_def)

lemma flush_ok:
  assumes "bq_live q bs"
  shows "bq_ok (bq_flush q) bs"
proof (cases "bq_waiter q")
  case None
  with assms show ?thesis by (simp add: bq_ok_def bq_flush_def read_waits_def)
next
  case (Some w)
  obtain need tok where w: "bq_waiter q = Some (need, tok)" using Some by (cases w) simp
  have ns: "\<not> bq_streaming q" using assms w by (auto simp: bq_live_def)
  show ?thesis
  proof (cases "need = -1")
    case True
    with w ns assms show ?thesis
      by (cases "bq_ended_error q")
         (auto simp: bq_ok_def bq_flush_def bq_live_def read_waits_def bq_concat_all_def delivered_log)
  next
    case other: False
    show ?thesis
    proof (cases "need \<le> int (bq_length q)")
      case True
      let ?all = "concat (bq_chunks q)"
      let ?k = "sub_index need ?all"
      have "length (drop ?k ?all) \<le> bq_max_bytes q" using assms by (auto simp: bq_live_def)
      with True other w ns assms show ?thesis
        by (auto simp: bq_ok_def bq_flush_def bq_live_def read_waits_def bq_concat_all_def delivered_log Let_def)
    next
      case False
      with other w ns assms show ?thesis
        by (auto simp: bq_ok_def bq_flush_def bq_live_def read_waits_def delivered_log)
    qed
  qed
qed

lemma abort_ok: "bq_ok q bs \<Longrightarrow> bq_ok (bq_abort err q) bs"
  by (auto simp: bq_ok_def bq_abort_def bq_dead_def bq_live_def delivered_log split: option.splits)

lemma abort_live: "bq_live q bs \<or> \<not> bq_aborted q \<and> prefix (delivered q) bs \<Longrightarrow> bq_dead (bq_abort err q) bs"
  by (auto simp: bq_abort_def bq_dead_def bq_live_def delivered_log split: option.splits)

lemma push_ok:
  assumes "bq_ok q bs"
  shows "bq_ok (bq_push c q) (bs @ c)"
proof (cases "bq_aborted q")
  case True
  with assms show ?thesis by (auto simp: bq_ok_def bq_push_def bq_dead_def bq_live_def)
next
  case False
  with assms have live: "bq_live q bs" by (auto simp: bq_ok_def bq_dead_def)
  show ?thesis
  proof (cases "bq_streaming q")
    case True
    have "prefix (delivered q) (bs @ c)" using live by (auto simp: bq_live_def)
    then have dead: "bq_dead (bq_abort OutputLimit (q\<lparr>bq_streamed_bytes := n\<rparr>)) (bs @ c)" for n
      using False by (intro abort_live) simp
    have w: "bq_waiter q = None" using live True by (simp add: bq_live_def)
    have data: "bq_ok (log_wire [StreamData c] (q\<lparr>bq_streamed_bytes := n\<rparr>)) (bs @ c)" for n
      using live True w by (auto simp: bq_ok_def bq_live_def delivered_log read_waits_def)
    have none: "bq_ok q bs" using live w by (simp add: bq_ok_def read_waits_def)
    show ?thesis
    proof (cases "bq_max_bytes q < bq_streamed_bytes q + length c")
      case over: True
      with False True have "bq_push c q = bq_abort OutputLimit (q\<lparr>bq_streamed_bytes := bq_streamed_bytes q + length c\<rparr>)"
        by (simp add: bq_push_def)
      with dead show ?thesis by (simp add: bq_ok_def)
    next
      case within: False
      then show ?thesis
      proof (cases "c = []")
        case c: True
        with within False True have "bq_push c q = q"
          by (simp add: bq_push_def)
        with none c show ?thesis by simp
      next
        case c: False
        with within False True
        have "bq_push c q = log_wire [StreamData c] (q\<lparr>bq_streamed_bytes := bq_streamed_bytes q + length c\<rparr>)"
          by (simp add: bq_push_def)
        with data show ?thesis by simp
      qed
    qed
  next
    case ns: False
    let ?q = "q\<lparr>bq_chunks := bq_chunks q @ [c], bq_length := bq_length q + length c\<rparr>"
    have "prefix (delivered ?q) (bs @ c)" using live by (auto simp: bq_live_def)
    then have dead: "bq_dead (bq_abort OutputLimit ?q) (bs @ c)" using False by (intro abort_live) simp
    have "bq_live ?q (bs @ c)" if "\<not> bq_max_bytes q < bq_length ?q"
      using live ns that by (auto simp: bq_live_def)
    then show ?thesis using dead False ns flush_ok [of ?q "bs @ c"] by (auto simp: bq_push_def bq_ok_def Let_def)
  qed
qed

lemma end_ok:
  assumes "bq_ok q bs"
  shows "bq_ok (bq_end err q) bs"
proof (cases "bq_aborted q")
  case False
  with assms have live: "bq_live q bs" by (auto simp: bq_ok_def bq_dead_def)
  show ?thesis
  proof (cases "bq_streaming q")
    case True
    with live False show ?thesis by (auto simp: bq_end_def bq_ok_def bq_live_def read_waits_def delivered_log)
  next
    case ns: False
    have "bq_live (q\<lparr>bq_ended := True, bq_ended_error := err\<rparr>) bs" using live ns by (simp add: bq_live_def)
    with False ns show ?thesis by (simp add: bq_end_def flush_ok)
  qed
qed (use assms in \<open>simp add: bq_end_def\<close>)

lemma await_ok:
  assumes "bq_ok q bs" "\<not> bq_streaming q" "bq_await n tok q = Inr q'"
  shows "bq_ok q' bs"
proof (cases "bq_aborted q")
  case True
  with assms show ?thesis by (auto simp: bq_await_def bq_ok_def bq_dead_def bq_live_def delivered_log)
next
  case False
  with assms have "bq_live (q\<lparr>bq_waiter := Some (n, tok)\<rparr>) bs" by (auto simp: bq_ok_def bq_dead_def bq_live_def)
  with False assms(3) show ?thesis by (auto simp: bq_await_def flush_ok split: if_splits)
qed

lemma drain_ok:
  assumes "bq_ok q bs" "bq_drain q = Inr q'"
  shows "bq_ok q' bs"
proof (cases "bq_aborted q")
  case True
  with assms have "bq_dead q bs" "q' = log_wire [StreamEnd (bq_ended_error q)] q"
    by (auto simp: bq_ok_def bq_live_def bq_drain_def split: if_splits)
  then show ?thesis by (simp add: bq_ok_def bq_dead_def delivered_log)
next
  case False
  with assms have live: "bq_live q bs" by (auto simp: bq_ok_def bq_dead_def)
  have w: "bq_waiter q = None" using assms(2) by (simp add: bq_drain_def del: not_None_eq split: if_splits)
  let ?flushed = "log_wire [StreamData (concat (bq_chunks q))]
     (q\<lparr>bq_chunks := [], bq_length := 0, bq_streamed_bytes := bq_streamed_bytes q + length (concat (bq_chunks q))\<rparr>)"
  define q1 where "q1 = (if 0 < bq_length q then ?flushed else q)"
  have q1: "delivered q1 = bs" "concat (bq_chunks q1) = []" "bq_length q1 = 0" "\<not> bq_aborted q1" "bq_waiter q1 = None"
    "bq_ended q1 = bq_ended q" "bq_ended_error q1 = bq_ended_error q" "bq_streaming q1 = bq_streaming q"
    using live w False by (auto simp: q1_def bq_live_def delivered_log)
  have "bq_drain q = Inr (if bq_ended q then log_wire [StreamEnd (bq_ended_error q)] q1 else q1\<lparr>bq_streaming := True\<rparr>)"
    using False w by (simp add: bq_drain_def q1_def bq_concat_all_def)
  moreover have "bq_ok (log_wire [StreamEnd (bq_ended_error q)] q1) bs" if "bq_ended q"
    using that q1 live by (simp add: bq_ok_def bq_live_def read_waits_def delivered_log)
  moreover have "bq_ok (q1\<lparr>bq_streaming := True\<rparr>) bs" if "\<not> bq_ended q"
    using that q1 by (simp add: bq_ok_def bq_live_def read_waits_def)
  ultimately show ?thesis using assms(2) by (simp split: if_splits)
qed

lemma bq_reachable_ok: "bq_reachable q bs \<Longrightarrow> bq_ok q bs"
proof (induction rule: bq_reachable.induct)
  case (start m)
  show ?case by (simp add: bq_ok_def bq_live_def read_waits_def new_byte_queue_def delivered_def)
qed (auto intro: push_ok end_ok abort_ok await_ok drain_ok)

text \<open>
  C28: Bytes come out of the queue in order and none is lost. As long as it is not aborted, what the reads and the streaming
  consumer were given, followed by what is buffered, is exactly what arrived, the buffer never exceeds the limit, and a read is
  pending only while its bytes are missing and the socket is open; once it is aborted, no read is pending and what was given out is
  a prefix of what arrived.
\<close>

theorem byte_queue_in_order:
  assumes "bq_reachable q bs"
  shows "if bq_aborted q then bq_waiter q = None \<and> prefix (delivered q) bs
    else delivered q @ concat (bq_chunks q) = bs \<and> length (concat (bq_chunks q)) \<le> bq_max_bytes q
      \<and> (case bq_waiter q of None \<Rightarrow> True
         | Some (need, _) \<Rightarrow> \<not> bq_ended q \<and> (need = -1 \<or> int (length (concat (bq_chunks q))) < need))"
  using bq_reachable_ok [OF assms]
  by (auto simp: bq_ok_def bq_dead_def bq_live_def read_waits_def split: option.splits)

definition demo_wire :: byte_queue where
  "demo_wire = bq_push [75, 65, 89, 48] (bq_push [79] (bq_flush ((new_byte_queue 64)\<lparr>bq_waiter := Some (4, 1)\<rparr>)))"

lemma demo_wire_reachable: "bq_reachable demo_wire [79, 75, 65, 89, 48]"
proof -
  have "bq_reachable (bq_flush ((new_byte_queue 64)\<lparr>bq_waiter := Some (4, 1)\<rparr>)) []"
    by (rule bq_reachable.await [OF bq_reachable.start [of 64], of 4 1]) (simp_all add: bq_await_def new_byte_queue_def)
  from bq_reachable.push [OF bq_reachable.push [OF this, of "[79]"], of "[75, 65, 89, 48]"] show ?thesis
    by (simp add: demo_wire_def)
qed

theorem byte_queue_in_order_witness:
  "bq_events demo_wire = [ReadOk 1 [79, 75, 65, 89]] \<and> delivered demo_wire @ concat (bq_chunks demo_wire) = [79, 75, 65, 89, 48]"
proof -
  have e: "bq_events demo_wire = [ReadOk 1 [79, 75, 65, 89]]" "\<not> bq_aborted demo_wire"
    by (simp_all add: demo_wire_def bq_push_def bq_flush_def new_byte_queue_def Let_def bq_concat_all_def sub_index_def log_wire_def)
  with byte_queue_in_order [OF demo_wire_reachable] show ?thesis by simp
qed

text \<open>
  An error of the socket is forgotten when the close event follows it: the second \<open>end()\<close> clears the
  error, so a read until the end that starts afterwards resolves with the truncated output as if the peer had finished.
\<close>

theorem close_hides_error:
  assumes "\<not> bq_aborted q" "\<not> bq_streaming q" "bq_waiter q = None"
  shows "\<exists>q'. bq_take_until_end tok (bq_end None (bq_end (Some err) q)) = Inr q'
     \<and> bq_events q' = bq_events q @ [ReadOk tok (concat (bq_chunks q))]"
  using assms
  by (simp add: bq_end_def bq_flush_def bq_take_until_end_def bq_await_def bq_concat_all_def log_wire_def)

theorem close_hides_error_witness:
  "\<exists>q'. bq_take_until_end 2 (bq_end None (bq_end (Some (Given ''ECONNRESET'')) demo_wire)) = Inr q'
     \<and> bq_events q' = bq_events demo_wire @ [ReadOk 2 [48]]"
proof -
  have d: "\<not> bq_aborted demo_wire" "\<not> bq_streaming demo_wire" "bq_waiter demo_wire = None" "concat (bq_chunks demo_wire) = [48]"
    by (simp_all add: demo_wire_def bq_push_def bq_flush_def new_byte_queue_def Let_def bq_concat_all_def sub_index_def log_wire_def)
  from close_hides_error [OF d(1-3)] d(4) show ?thesis by simp
qed

section \<open>The socket: writes and close\<close>

text \<open>
  \<open>AdbSocket\<close> over its queue. What \<open>socket.write\<close> answers (how many bytes the kernel took, perhaps none) is an
  argument. A write that still has bytes parks until the next drain, close or error event of the socket.
\<close>

record adb_socket =
  as_queue :: byte_queue
  as_closed :: bool
  as_parked :: "(nat \<times> byte list) list"
  as_sent :: "byte list"
  as_settled :: "(nat \<times> bool) list"
  as_shut :: "bool option"

definition new_adb_socket :: "nat \<Rightarrow> adb_socket" where
  "new_adb_socket m = \<lparr>as_queue = new_byte_queue m, as_closed = False, as_parked = [], as_sent = [], as_settled = [], as_shut = None\<rparr>"

definition settle_write :: "nat \<Rightarrow> bool \<Rightarrow> adb_socket \<Rightarrow> adb_socket" where
  "settle_write tok good s = s\<lparr>as_settled := as_settled s @ [(tok, good)]\<rparr>"

definition write_turn :: "nat \<Rightarrow> int \<Rightarrow> byte list \<Rightarrow> adb_socket \<Rightarrow> adb_socket" where
  "write_turn tok written rest s =
     (if rest = [] then settle_write tok True s
      else let n = (if 0 < written then nat written else 0);
               s1 = s\<lparr>as_sent := as_sent s @ take n rest\<rparr>
           in if drop n rest = [] then settle_write tok True s1
              else if as_closed s1 then settle_write tok False s1
              else s1\<lparr>as_parked := as_parked s1 @ [(tok, drop n rest)]\<rparr>)"

definition handle_drain :: "(nat \<Rightarrow> int) \<Rightarrow> adb_socket \<Rightarrow> adb_socket" where
  "handle_drain written s = fold (\<lambda>(tok, rest). write_turn tok (written tok) rest) (as_parked s) (s\<lparr>as_parked := []\<rparr>)"

definition socket_data :: "byte list \<Rightarrow> adb_socket \<Rightarrow> adb_socket" where
  "socket_data c s = s\<lparr>as_queue := bq_push c (as_queue s)\<rparr>"

text \<open>The \<open>close\<close> event (no error) and the \<open>error\<close> event of the platform's socket.\<close>

definition socket_ends :: "wire_error option \<Rightarrow> (nat \<Rightarrow> int) \<Rightarrow> adb_socket \<Rightarrow> adb_socket" where
  "socket_ends err written s = handle_drain written (s\<lparr>as_queue := bq_end err (as_queue s)\<rparr>)"

definition as_close :: "bool \<Rightarrow> adb_socket \<Rightarrow> adb_socket" where
  "as_close force s = (if as_closed s then s else s\<lparr>as_closed := True, as_shut := Some force\<rparr>)"

definition as_abort :: "wire_error \<Rightarrow> adb_socket \<Rightarrow> adb_socket" where
  "as_abort err s = as_close True (s\<lparr>as_queue := bq_abort err (as_queue s)\<rparr>)"

definition as_idle_timeout :: "wire_error \<Rightarrow> adb_socket \<Rightarrow> adb_socket" where
  "as_idle_timeout err s = (if as_closed s then s else s\<lparr>as_closed := True, as_queue := bq_abort err (as_queue s)\<rparr>)"

text \<open>The bytes of one write are sent in order and none twice, whatever the kernel takes at each turn.\<close>

definition write_progress :: "nat \<Rightarrow> byte list \<Rightarrow> byte list \<Rightarrow> adb_socket \<Rightarrow> bool" where
  "write_progress tok before data s \<longleftrightarrow>
     (as_parked s = [] \<and> as_sent s = before @ data \<and> as_settled s = [(tok, True)])
     \<or> (\<exists>rest. rest \<noteq> [] \<and> as_parked s = [(tok, rest)] \<and> as_sent s @ rest = before @ data \<and> as_settled s = [])"

lemma write_turn_progress:
  assumes "as_parked s = []" "as_settled s = []" "\<not> as_closed s" "as_sent s @ rest = before @ data"
  shows "write_progress tok before data (write_turn tok n rest s)" "\<not> as_closed (write_turn tok n rest s)"
  using assms append_take_drop_id [of "nat n" rest]
  by (auto simp: write_turn_def write_progress_def settle_write_def Let_def)

lemma drain_progress:
  assumes "write_progress tok before data s" "\<not> as_closed s"
  shows "write_progress tok before data (handle_drain w s) \<and> \<not> as_closed (handle_drain w s)"
proof (cases "as_parked s")
  case Nil
  with assms show ?thesis by (auto simp: write_progress_def handle_drain_def)
next
  case (Cons p ps)
  with assms(1) obtain rest where p: "as_parked s = [(tok, rest)]" "as_sent s @ rest = before @ data" "as_settled s = []"
    by (auto simp: write_progress_def)
  with write_turn_progress [of "s\<lparr>as_parked := []\<rparr>" rest before data tok "w tok"] assms(2) show ?thesis
    by (simp add: handle_drain_def)
qed

text \<open>
  A write survives back pressure. However little of it the kernel takes at each turn, the bytes handed over are
  always a prefix of the data, in order, with the rest parked for the next drain event, and the write resolves exactly when all of
  them have been handed over.
\<close>

theorem write_in_order:
  assumes "as_parked s = []" "as_settled s = []" "\<not> as_closed s"
  shows "write_progress tok (as_sent s) data (fold handle_drain ws (write_turn tok n data s))"
proof -
  have "write_progress tok before data (fold handle_drain ws t) \<and> \<not> as_closed (fold handle_drain ws t)"
    if "write_progress tok before data t" "\<not> as_closed t" for before t
    using that drain_progress by (induction ws arbitrary: t) auto
  with write_turn_progress [OF assms refl] show ?thesis by blast
qed

theorem write_in_order_witness:
  "write_progress 7 [] [1, 2, 3] (fold handle_drain [\<lambda>_. 0, \<lambda>_. 1, \<lambda>_. 9] (write_turn 7 1 [1, 2, 3] (new_adb_socket 64)))
   \<and> as_settled (fold handle_drain [\<lambda>_. 0, \<lambda>_. 1, \<lambda>_. 9] (write_turn 7 1 [1, 2, 3] (new_adb_socket 64))) = [(7, True)]"
  using write_in_order [of "new_adb_socket 64" 7 "[1, 2, 3]" "[\<lambda>_. 0, \<lambda>_. 1, \<lambda>_. 9]" 1]
  by (simp add: new_adb_socket_def write_turn_def handle_drain_def settle_write_def)

text \<open>
  A write parked on a full buffer never settles once the connection is gone. The close event wakes it, but
  the flag the loop consults is set only by this side's own \<open>close()\<close>; the write gets nothing accepted and parks again, and
  an \<open>abort\<close> afterwards closes the socket without waking it.
\<close>

theorem parked_write_hangs:
  assumes "as_parked s = [(tok, rest)]" "rest \<noteq> []" "\<not> as_closed s" "w tok \<le> 0"
  shows "as_parked (socket_ends err w s) = [(tok, rest)] \<and> as_settled (socket_ends err w s) = as_settled s
    \<and> as_parked (as_abort e (socket_ends err w s)) = [(tok, rest)] \<and> as_settled (as_abort e (socket_ends err w s)) = as_settled s"
  using assms by (simp add: socket_ends_def handle_drain_def write_turn_def as_abort_def as_close_def)

theorem parked_write_hangs_witness:
  "as_parked (as_abort (Given ''deadline'') (socket_ends None (\<lambda>_. -1) (write_turn 7 1 [1, 2, 3] (new_adb_socket 64)))) = [(7, [2, 3])]"
proof -
  have "as_parked (write_turn 7 1 [1, 2, 3] (new_adb_socket 64)) = [(7, [2, 3])]"
    "\<not> as_closed (write_turn 7 1 [1, 2, 3] (new_adb_socket 64))"
    by (simp_all add: new_adb_socket_def write_turn_def)
  from parked_write_hangs [OF this(1) _ this(2), where w = "\<lambda>_. -1"] show ?thesis by simp
qed

section \<open>Lengths on the wire\<close>

lemma hex_value_char: "d < 16 \<Longrightarrow> hex_value (hex_char d) = Some d"
  by (auto simp: hex_value_def hex_char_def)

lemma hex_char_less: "d < 16 \<Longrightarrow> hex_char d < 128"
  by (auto simp: hex_char_def)

lemma hex_prefix_chars: "list_all (\<lambda>d. d < 16) ds \<Longrightarrow> hex_prefix (map hex_char ds) = ds"
  by (induction ds) (auto simp: hex_value_char)

text \<open>The four digits of a length below 65536.\<close>

definition digits4 :: "nat \<Rightarrow> nat list" where
  "digits4 n = [n div 4096 mod 16, n div 256 mod 16, n div 16 mod 16, n mod 16]"

lemma hex_digits_unfold: "hex_digits n = (if n < 16 then [hex_char n] else hex_digits (n div 16) @ [hex_char (n mod 16)])"
  by (rule hex_digits.simps)

lemma pad_hex_digits:
  assumes "n < 65536"
  shows "pad_start4 (hex_digits n) = map hex_char (digits4 n)"
proof -
  have zero: "hex_char 0 = 48" by (simp add: hex_char_def)
  have d2: "n div 16 div 16 = n div 256" "n div 256 div 16 = n div 4096" by (simp_all add: div_mult2_eq [symmetric])
  consider "n < 16" | "16 \<le> n" "n < 256" | "256 \<le> n" "n < 4096" | "4096 \<le> n" by linarith
  then show ?thesis
  proof cases
    case 1
    then show ?thesis using zero by (simp add: hex_digits_unfold [of n] pad_start4_def digits4_def numeral_3_eq_3)
  next
    case 2
    then have "n div 16 < 16" by linarith
    with 2 show ?thesis using zero
      by (simp add: hex_digits_unfold [of n] hex_digits_unfold [of "n div 16"] pad_start4_def digits4_def numeral_2_eq_2)
  next
    case 3
    then have "16 \<le> n div 16" "n div 256 < 16" by linarith+
    with 3 d2 show ?thesis using zero
      by (simp add: hex_digits_unfold [of n] hex_digits_unfold [of "n div 16"] hex_digits_unfold [of "n div 256"] pad_start4_def digits4_def)
  next
    case 4
    then have "16 \<le> n div 16" "16 \<le> n div 256" "n div 4096 < 16" using assms by linarith+
    with 4 d2 show ?thesis
      by (simp add: hex_digits_unfold [of n] hex_digits_unfold [of "n div 16"] hex_digits_unfold [of "n div 256"]
          hex_digits_unfold [of "n div 4096"] pad_start4_def digits4_def)
  qed
qed

lemma parse_digits:
  assumes "list_all (\<lambda>d. d < 16) [a, b, c, d]"
  shows "parse_int16 (map hex_char [a, b, c, d]) = Some (int (4096 * a + 256 * b + 16 * c + d))"
proof -
  have hc: "\<not> code_space (hex_char x) \<and> hex_char x \<noteq> 45 \<and> hex_char x \<noteq> 43" "hex_char x \<noteq> 120" "hex_char x \<noteq> 88" if "x < 16" for x
    using that by (auto simp: hex_char_def code_space_def)
  have "dropWhile code_space (map hex_char [a, b, c, d]) = map hex_char [a, b, c, d]"
    using assms hc(1) [of a] by simp
  moreover have "strip_0x (map hex_char [a, b, c, d]) = map hex_char [a, b, c, d]"
    using assms hc(2,3) [of b] by (simp add: strip_0x_def)
  moreover have "hex_prefix (map hex_char [a, b, c, d]) = [a, b, c, d]" using assms by (rule hex_prefix_chars)
  moreover have "hd (map hex_char [a, b, c, d]) \<noteq> 45" "hd (map hex_char [a, b, c, d]) \<noteq> 43" using assms hc(1) [of a] by auto
  ultimately show ?thesis by (simp add: parse_int16_def Let_def del: list.map)
qed

lemma digits4_value: "(n::nat) < 65536 \<Longrightarrow> 4096 * (n div 4096 mod 16) + 256 * (n div 256 mod 16) + 16 * (n div 16 mod 16) + n mod 16 = n"
proof -
  assume n: "n < 65536"
  have "n div 4096 mod 16 = n div 4096" using n by (simp add: less_mult_imp_div_less)
  moreover have "n = 16 * (n div 16) + n mod 16" "n div 16 = 16 * (n div 256) + n div 16 mod 16"
    "n div 256 = 16 * (n div 4096) + n div 256 mod 16"
    using div_mult_mod_eq [of "n div 16" 16] div_mult_mod_eq [of "n div 256" 16]
    by (simp_all add: div_mult2_eq [of n 16 16, simplified, symmetric] div_mult2_eq [of n 256 16, simplified, symmetric] del: div_mult_mod_eq)
  ultimately show ?thesis by linarith
qed

lemma utf8_of_hex: "list_all (\<lambda>d. d < 16) ds \<Longrightarrow> utf8_decode (map (word_of_nat \<circ> hex_char) ds) = map hex_char ds"
proof -
  assume a: "list_all (\<lambda>d. d < 16) ds"
  have u: "unat (word_of_nat (hex_char d) :: byte) = hex_char d" if "d < 16" for d
    using hex_char_less [OF that] by (simp add: unat_of_nat)
  have "list_all (\<lambda>b. unat b < 128) (map (word_of_nat \<circ> hex_char) ds :: byte list)"
    using a u hex_char_less by (auto simp: list_all_iff)
  then show ?thesis using a u by (simp add: utf8_decode_ascii list_all_iff)
qed

text \<open>
  A request of fewer than 65536 bytes is framed so that the length its receiver reads is the number of bytes that
  follow; an empty one reads as an empty block.
\<close>

theorem request_length_roundtrip:
  assumes "length body < 65536"
  shows "drop 4 (encode_request body) = body
    \<and> block_head_of (take 4 (encode_request body)) = (if body = [] then EmptyBlock else TakeBody (int (length body)))"
proof -
  let ?n = "length body"
  have pre: "map word_of_nat (pad_start4 (hex_digits ?n)) = (map (word_of_nat \<circ> hex_char) (digits4 ?n) :: byte list)"
    using assms by (simp add: pad_hex_digits)
  have len: "length (map (word_of_nat \<circ> hex_char) (digits4 ?n)) = 4" by (simp add: digits4_def)
  have enc: "encode_request body = map (word_of_nat \<circ> hex_char) (digits4 ?n) @ body"
    using pre len by (simp add: encode_request_def Let_def)
  have small: "list_all (\<lambda>d. d < 16) (digits4 ?n)" by (simp add: digits4_def)
  have "parse_int16 (map hex_char (digits4 ?n)) = Some (int ?n)"
    unfolding digits4_def
    by (subst parse_digits) (simp, simp only: digits4_value [OF assms])
  then have "block_head_of (map (word_of_nat \<circ> hex_char) (digits4 ?n)) = (if body = [] then EmptyBlock else TakeBody (int ?n))"
    using utf8_of_hex [OF small] by (simp add: block_head_of_def)
  with enc len show ?thesis by simp
qed

theorem request_length_roundtrip_witness:
  "block_head_of (take 4 (encode_request (replicate 300 7))) = TakeBody 300"
  using request_length_roundtrip [of "replicate 300 7"] by simp

text \<open>
  A hostile or corrupt length block can be negative. The four bytes \<open>-001\<close> parse to minus one, which is the
  queue's mark for a read until the end: such a block is not refused, its body is everything until the socket closes.
\<close>

theorem negative_length_reads_to_the_end:
  "block_head_of [45, 48, 48, 49] = TakeBody (-1) \<and> bq_take (-1) tok q = bq_take_until_end tok q"
proof
  have "utf8_decode [45, 48, 48, 49] = [45, 48, 48, 49]" by (simp add: utf8_decode_ascii)
  then show "block_head_of [45, 48, 48, 49] = TakeBody (-1)"
    by (simp add: block_head_of_def parse_int16_def strip_0x_def code_space_def hex_value_def Let_def)
qed (simp add: bq_take_def bq_take_until_end_def)

end
