(* ===== verification/Frames.thy ===== *)
theory Frames
  imports Bytes JsValue
begin

text \<open>
  The binary frames of the browser connection (\<open>packages/protocol/src/binary.ts\<close>: video frames and
  snapshots, and the test whether an H.264 chunk can start a decode) and of the node tunnel
  (\<open>packages/protocol/src/tunnel.ts\<close>). A \<open>DataView\<close> setter stores its number modulo the width of the field.
\<close>

section \<open>Numbers in fields\<close>

definition put_be :: "nat \<Rightarrow> int \<Rightarrow> byte list" where
  "put_be k i = be_bytes k (nat (i mod 256 ^ k))"

lemma length_put_be [simp]: "length (put_be k i) = k"
  by (simp add: put_be_def)

lemma be_value_put_be [simp]: "int (be_value (put_be k i)) = i mod 256 ^ k"
proof -
  have "0 \<le> i mod 256 ^ k" "i mod 256 ^ k < 256 ^ k" by simp_all
  then have "nat (i mod 256 ^ k) < 256 ^ k" by (simp add: nat_less_iff)
  then show ?thesis by (simp add: put_be_def be_value_bytes)
qed

lemma put_be_one: "put_be 1 i = [word_of_nat (nat (i mod 256))]"
proof -
  have "nat (i mod 256) mod 256 = nat (i mod 256)" by (simp add: nat_less_iff)
  then show ?thesis by (simp add: put_be_def be_bytes_def)
qed

lemma unat_put_be_one: "int (unat (word_of_nat (nat (i mod 256)) :: byte)) = i mod 256"
proof -
  have "nat (i mod 256) = nat (i mod 256) mod 256" by (simp add: nat_less_iff)
  then have "unat (word_of_nat (nat (i mod 256)) :: byte) = nat (i mod 256) mod 256" by (metis unat_low_byte)
  then show ?thesis by (simp add: nat_less_iff)
qed

section \<open>Video frames\<close>

definition CHANNEL_VIDEO :: nat where "CHANNEL_VIDEO = 1"
definition CHANNEL_SNAPSHOT :: nat where "CHANNEL_SNAPSHOT = 4"
definition VIDEO_CODEC_PNG :: nat where "VIDEO_CODEC_PNG = 1"
definition VIDEO_CODEC_H264 :: nat where "VIDEO_CODEC_H264 = 2"
definition VIDEO_FLAG_KEYFRAME :: nat where "VIDEO_FLAG_KEYFRAME = 128"
definition VIDEO_HEADER_LEN :: nat where "VIDEO_HEADER_LEN = 27"

lemmas video_constants = CHANNEL_VIDEO_def CHANNEL_SNAPSHOT_def VIDEO_CODEC_PNG_def VIDEO_CODEC_H264_def
  VIDEO_FLAG_KEYFRAME_def VIDEO_HEADER_LEN_def

datatype frame_codec = PngCodec | H264Codec

record frame_meta =
  fm_width :: int
  fm_height :: int
  fm_codec :: frame_codec
  fm_seq :: int
  fm_pts_us :: int
  fm_host_received_at :: rat
  fm_keyframe :: "bool option"

record decoded_video =
  dv_channel :: nat
  dv_stream_id :: nat
  dv_codec :: nat
  dv_width :: nat
  dv_height :: nat
  dv_seq :: nat
  dv_keyframe :: bool
  dv_pts_us :: nat
  dv_host_received_at :: jsnum
  dv_data :: "byte list"

datatype frame_error = TooShort nat | WrongChannel nat | UnknownCodec nat | NotATunnelFrame

definition meta_keyframe :: "frame_meta \<Rightarrow> bool" where
  "meta_keyframe m = coalesce (fm_keyframe m) (fm_codec m = PngCodec)"

definition codec_byte :: "frame_meta \<Rightarrow> byte" where
  "codec_byte m = or (word_of_nat (if fm_codec m = PngCodec then VIDEO_CODEC_PNG else VIDEO_CODEC_H264))
     (word_of_nat (if meta_keyframe m then VIDEO_FLAG_KEYFRAME else 0))"

definition encode_video_frame :: "int \<Rightarrow> frame_meta \<Rightarrow> byte list \<Rightarrow> byte list" where
  "encode_video_frame stream_id m data =
     [word_of_nat CHANNEL_VIDEO] @ put_be 1 stream_id @ [codec_byte m]
     @ put_be 2 (fm_width m) @ put_be 2 (fm_height m) @ put_be 4 (fm_seq m) @ put_be 8 (fm_pts_us m)
     @ put_be 8 (max 0 \<lfloor>fm_host_received_at m\<rfloor>) @ data"

definition u8_at :: "nat \<Rightarrow> byte list \<Rightarrow> nat" where
  "u8_at i b = unat (b ! i)"

definition be_at :: "nat \<Rightarrow> nat \<Rightarrow> byte list \<Rightarrow> nat" where
  "be_at off n b = be_value (bytes_at off n b)"

definition decode_video_frame :: "byte list \<Rightarrow> frame_error + decoded_video" where
  "decode_video_frame b =
     (if length b < VIDEO_HEADER_LEN then Inl (TooShort (length b))
      else if u8_at 0 b \<noteq> CHANNEL_VIDEO then Inl (WrongChannel (u8_at 0 b))
      else let byte2 = b ! 2; codec = unat (and byte2 (not (word_of_nat VIDEO_FLAG_KEYFRAME))) in
        if codec \<noteq> VIDEO_CODEC_PNG \<and> codec \<noteq> VIDEO_CODEC_H264 then Inl (UnknownCodec codec)
        else Inr \<lparr>dv_channel = u8_at 0 b, dv_stream_id = u8_at 1 b, dv_codec = codec,
          dv_width = be_at 3 2 b, dv_height = be_at 5 2 b, dv_seq = be_at 7 4 b,
          dv_keyframe = (and byte2 (word_of_nat VIDEO_FLAG_KEYFRAME) \<noteq> 0), dv_pts_us = be_at 11 8 b,
          dv_host_received_at = js_of_int (int (be_at 19 8 b)), dv_data = drop VIDEO_HEADER_LEN b\<rparr>)"

lemma bytes_at_drop_left: "length a \<le> off \<Longrightarrow> bytes_at off n (a @ b) = bytes_at (off - length a) n b"
  by (simp add: bytes_at_def)

lemma bytes_at_Cons: "0 < off \<Longrightarrow> bytes_at off n (x # b) = bytes_at (off - 1) n b"
  by (cases off) (simp_all add: bytes_at_def)

lemma bytes_at_take_all: "length a = n \<Longrightarrow> bytes_at 0 n (a @ b) = a"
  by (simp add: bytes_at_def)

lemma bytes_at_exact: "length a = n \<Longrightarrow> bytes_at 0 n a = a"
  by (simp add: bytes_at_def)

lemmas field_simps = bytes_at_exact bytes_at_drop_left bytes_at_Cons bytes_at_take_all

lemma codec_byte_cases:
  "codec_byte m = (case (fm_codec m, meta_keyframe m) of
     (PngCodec, True) \<Rightarrow> 0x81 | (PngCodec, False) \<Rightarrow> 1 | (H264Codec, True) \<Rightarrow> 0x82 | (H264Codec, False) \<Rightarrow> 2)"
  by (cases "fm_codec m"; cases "meta_keyframe m") (simp_all add: codec_byte_def video_constants)

text \<open>
  Decoding an encoded video frame gives back the frame. Every field comes back modulo its width: the stream id
  in 8 bits, the size in 16, the sequence number in 32, the presentation time in 64, and the receipt time, floored and never
  negative, in 64 bits as a number; the codec, the key-frame flag and the payload come back unchanged, and no frame
  that was encoded is refused.
\<close>

theorem video_frame_roundtrip:
  "\<exists>f. decode_video_frame (encode_video_frame sid m data) = Inr f
    \<and> dv_channel f = CHANNEL_VIDEO \<and> dv_data f = data
    \<and> int (dv_stream_id f) = sid mod 256
    \<and> dv_codec f = (if fm_codec m = PngCodec then VIDEO_CODEC_PNG else VIDEO_CODEC_H264)
    \<and> dv_keyframe f = meta_keyframe m
    \<and> int (dv_width f) = fm_width m mod 65536 \<and> int (dv_height f) = fm_height m mod 65536
    \<and> int (dv_seq f) = fm_seq m mod 2 ^ 32 \<and> int (dv_pts_us f) = fm_pts_us m mod 2 ^ 64
    \<and> dv_host_received_at f = js_of_int (max 0 \<lfloor>fm_host_received_at m\<rfloor> mod 2 ^ 64)"
proof -
  let ?s = "word_of_nat (nat (sid mod 256)) :: byte"
  let ?b = "encode_video_frame sid m data"
  have b: "?b = 1 # ?s # codec_byte m # put_be 2 (fm_width m) @ put_be 2 (fm_height m) @ put_be 4 (fm_seq m)
      @ put_be 8 (fm_pts_us m) @ put_be 8 (max 0 \<lfloor>fm_host_received_at m\<rfloor>) @ data"
    by (simp add: encode_video_frame_def video_constants put_be_one [simplified])
  have bytes: "u8_at 0 ?b = 1" "u8_at 1 ?b = unat ?s" "?b ! 2 = codec_byte m" "length ?b = 27 + length data"
    "drop 27 ?b = data" unfolding b by (simp_all add: u8_at_def)
  have fields: "be_at 3 2 ?b = be_value (put_be 2 (fm_width m))" "be_at 5 2 ?b = be_value (put_be 2 (fm_height m))"
    "be_at 7 4 ?b = be_value (put_be 4 (fm_seq m))" "be_at 11 8 ?b = be_value (put_be 8 (fm_pts_us m))"
    "be_at 19 8 ?b = be_value (put_be 8 (max 0 \<lfloor>fm_host_received_at m\<rfloor>))"
    unfolding b be_at_def by (simp_all add: field_simps)
  have codec: "unat (and (codec_byte m) (not (word_of_nat VIDEO_FLAG_KEYFRAME)))
      = (if fm_codec m = PngCodec then VIDEO_CODEC_PNG else VIDEO_CODEC_H264)"
    "(and (codec_byte m) (word_of_nat VIDEO_FLAG_KEYFRAME) \<noteq> 0) = meta_keyframe m"
    by (cases "fm_codec m"; cases "meta_keyframe m"; simp add: codec_byte_cases video_constants)+
  show ?thesis
    using bytes fields codec unat_put_be_one [of sid]
    by (simp add: decode_video_frame_def Let_def video_constants)
qed

section \<open>Where a decode can start\<close>

definition byte_is :: "nat \<Rightarrow> nat \<Rightarrow> byte list \<Rightarrow> bool" where
  "byte_is i v b \<longleftrightarrow> i < length b \<and> unat (b ! i) = v"

definition start_code3 :: "nat \<Rightarrow> byte list \<Rightarrow> bool" where
  "start_code3 i b \<longleftrightarrow> byte_is i 0 b \<and> byte_is (i + 1) 0 b \<and> byte_is (i + 2) 1 b"

definition start_code4 :: "nat \<Rightarrow> byte list \<Rightarrow> bool" where
  "start_code4 i b \<longleftrightarrow> byte_is i 0 b \<and> byte_is (i + 1) 0 b \<and> byte_is (i + 2) 0 b \<and> byte_is (i + 3) 1 b"

definition nal_type :: "nat \<Rightarrow> byte list \<Rightarrow> nat" where
  "nal_type i b = (if i < length b then unat (and (b ! i) 31) else 0)"

function keyframe_scan :: "nat \<Rightarrow> byte list \<Rightarrow> bool" where
  "keyframe_scan i b =
     (if length b \<le> i + 4 then False
      else if \<not> start_code3 i b \<and> \<not> start_code4 i b then keyframe_scan (i + 1) b
      else let n = (if start_code4 i b then 4 else 3); ty = nal_type (i + n) b in
           if ty = 5 \<or> ty = 7 then True else keyframe_scan (i + n + 1) b)"
  by auto
termination by (relation "measure (\<lambda>(i, b). length b - i)") auto

declare keyframe_scan.simps [simp del]

definition is_h264_keyframe :: "byte list \<Rightarrow> bool" where
  "is_h264_keyframe b = keyframe_scan 0 b"

text \<open>A NAL unit that starts in the buffer: its start code and its type.\<close>

definition entry_point :: "nat \<Rightarrow> byte list \<Rightarrow> bool" where
  "entry_point i b \<longleftrightarrow> i + 4 < length b \<and>
     (start_code4 i b \<and> nal_type (i + 4) b \<in> {5, 7} \<or> start_code3 i b \<and> nal_type (i + 3) b \<in> {5, 7})"

lemma start_codes_exclusive: "start_code3 i b \<Longrightarrow> \<not> start_code4 i b"
  by (auto simp: start_code3_def start_code4_def byte_is_def)

lemma entry_pointI:
  "i + 4 < length b \<Longrightarrow> start_code3 i b \<or> start_code4 i b \<Longrightarrow>
   nal_type (i + (if start_code4 i b then 4 else 3)) b \<in> {5, 7} \<Longrightarrow> entry_point i b"
  by (auto simp: entry_point_def split: if_splits)

lemma keyframe_scan_sound: "keyframe_scan i b \<Longrightarrow> \<exists>k. entry_point k b"
proof (induction i b rule: keyframe_scan.induct)
  case (1 i b)
  from 1(3) have "keyframe_scan i b" .
  then show ?case
    by (subst (asm) keyframe_scan.simps)
       (use 1(1,2) entry_pointI [of i b] in \<open>auto simp: Let_def split: if_splits\<close>)
qed

definition headers_nonzero :: "byte list \<Rightarrow> bool" where
  "headers_nonzero b \<longleftrightarrow> (\<forall>i < length b. start_code3 i b \<longrightarrow> \<not> byte_is (i + 3) 0 b)"

text \<open>The bytes the scan jumps over hold no other start code than the one just read.\<close>

lemma byte_is_unique: "byte_is i v b \<Longrightarrow> byte_is i w b \<Longrightarrow> v = w"
  by (simp add: byte_is_def)

lemma entry_after3:
  assumes "headers_nonzero b" "entry_point k b" "i \<le> k" "start_code3 i b" "nal_type (i + 3) b \<notin> {5, 7}"
  shows "i + 4 \<le> k"
proof (rule ccontr)
  assume "\<not> i + 4 \<le> k"
  with assms(3) consider "k = i" | "k = i + 1" | "k = i + 2" | "k = i + 3" by linarith
  moreover have k: "byte_is k 0 b" "byte_is (k + 1) 0 b"
    using assms(2) by (auto simp: entry_point_def start_code3_def start_code4_def)
  moreover have one: "byte_is (i + 2) 1 b" using assms(4) by (simp add: start_code3_def)
  moreover have "\<not> byte_is (i + 3) 0 b" using assms(1,4) by (auto simp: headers_nonzero_def start_code3_def byte_is_def)
  moreover have "k \<noteq> i" using assms(2,4,5) start_codes_exclusive by (auto simp: entry_point_def)
  ultimately show False by (auto dest: byte_is_unique)
qed

lemma entry_after4:
  assumes "headers_nonzero b" "entry_point k b" "i \<le> k" "start_code4 i b" "nal_type (i + 4) b \<notin> {5, 7}"
  shows "i + 5 \<le> k"
proof -
  have three: "start_code3 (i + 1) b" using assms(4) by (simp add: start_code3_def start_code4_def eval_nat_numeral)
  have "k \<noteq> i" using assms(2,4,5) start_codes_exclusive by (auto simp: entry_point_def)
  then have "i + 1 \<le> k" using assms(3) by simp
  from entry_after3 [OF assms(1,2) this three] assms(5) show ?thesis by (simp add: eval_nat_numeral)
qed

lemma entry_after:
  assumes "headers_nonzero b" "entry_point k b" "i \<le> k" "start_code3 i b \<or> start_code4 i b"
    and "nal_type (i + (if start_code4 i b then 4 else 3)) b \<notin> {5, 7}"
  shows "i + (if start_code4 i b then 4 else 3) + 1 \<le> k"
  using assms entry_after3 [OF assms(1-3)] entry_after4 [OF assms(1-3)] by (auto split: if_splits)

lemma keyframe_scan_complete:
  "headers_nonzero b \<Longrightarrow> entry_point k b \<Longrightarrow> i \<le> k \<Longrightarrow> keyframe_scan i b"
proof (induction i b rule: keyframe_scan.induct)
  case (1 i b)
  have len: "i + 4 < length b" using 1(4,5) by (simp add: entry_point_def)
  show ?case
  proof (cases "start_code3 i b \<or> start_code4 i b")
    case False
    with 1(4) have "i \<noteq> k" by (auto simp: entry_point_def)
    with 1(5) have "i + 1 \<le> k" by simp
    with 1(1) [OF _ _ 1(3,4)] len False show ?thesis by (subst keyframe_scan.simps) simp
  next
    case True
    show ?thesis
    proof (cases "nal_type (i + (if start_code4 i b then 4 else 3)) b \<in> {5, 7}")
      case True
      with len \<open>start_code3 i b \<or> start_code4 i b\<close> show ?thesis by (subst keyframe_scan.simps) (auto simp: Let_def)
    next
      case other: False
      note later = entry_after [OF 1(3,4,5) True other]
      from 1(2) [OF _ _ refl refl _ 1(3,4) later] len True other show ?thesis
        by (subst keyframe_scan.simps) (auto simp: Let_def)
    qed
  qed
qed

text \<open>
  The key-frame test finds exactly the decode entry points. As long as no NAL header byte is zero (none
  ever is in H.264 but by corruption), a chunk passes exactly when somewhere in it, with a byte after the header to
  spare, a three- or four-byte start code is followed by an IDR or an SPS unit.
\<close>

theorem keyframe_test_exact:
  assumes "headers_nonzero b"
  shows "is_h264_keyframe b \<longleftrightarrow> (\<exists>i. entry_point i b)"
  using keyframe_scan_sound [of 0 b] keyframe_scan_complete [OF assms, of _ 0] by (auto simp: is_h264_keyframe_def)

theorem keyframe_test_exact_witness:
  "is_h264_keyframe [0, 0, 1, 0x65, 7] \<and> \<not> is_h264_keyframe [0, 0, 1, 0x41, 7]"
proof -
  let ?a = "[0, 0, 1, 0x65, 7] :: byte list" and ?b = "[0, 0, 1, 0x41, 7] :: byte list"
  have ok: "headers_nonzero ?a" "headers_nonzero ?b"
    by (auto simp: headers_nonzero_def start_code3_def byte_is_def dest!: less_2_cases)
  have "entry_point 0 ?a" by (simp add: entry_point_def start_code3_def byte_is_def nal_type_def)
  moreover have "\<not> entry_point i ?b" for i
    by (auto simp: entry_point_def start_code3_def start_code4_def byte_is_def nal_type_def)
  ultimately show ?thesis using keyframe_test_exact [OF ok(1)] keyframe_test_exact [OF ok(2)] by blast
qed

section \<open>Snapshots and tunnel frames\<close>

definition encode_snapshot :: "int \<Rightarrow> byte list \<Rightarrow> byte list" where
  "encode_snapshot request_id data = [word_of_nat CHANNEL_SNAPSHOT] @ put_be 1 request_id @ data"

definition decode_snapshot :: "byte list \<Rightarrow> frame_error + nat \<times> byte list" where
  "decode_snapshot b =
     (if length b < 2 then Inl (TooShort (length b))
      else if u8_at 0 b \<noteq> CHANNEL_SNAPSHOT then Inl (WrongChannel (u8_at 0 b))
      else Inr (u8_at 1 b, drop 2 b))"

definition TUNNEL_FRAME_MARKER :: nat where "TUNNEL_FRAME_MARKER = 2"

definition encode_tunnel_frame :: "int \<Rightarrow> byte list \<Rightarrow> byte list" where
  "encode_tunnel_frame channel_id payload = [word_of_nat TUNNEL_FRAME_MARKER] @ put_be 2 channel_id @ payload"

definition decode_tunnel_frame :: "byte list \<Rightarrow> frame_error + nat \<times> byte list" where
  "decode_tunnel_frame b =
     (if length b < 3 \<or> u8_at 0 b \<noteq> TUNNEL_FRAME_MARKER then Inl NotATunnelFrame
      else Inr (be_at 1 2 b, drop 3 b))"

lemma encode_tunnel_frame_bytes: "encode_tunnel_frame i data = 2 # put_be 2 i @ data"
  by (simp add: encode_tunnel_frame_def TUNNEL_FRAME_MARKER_def)

lemma tunnel_frame_decodes:
  "\<exists>c. decode_tunnel_frame (encode_tunnel_frame i data) = Inr (c, data) \<and> int c = i mod 65536"
proof -
  have "be_at 1 2 (2 # put_be 2 i @ data) = be_value (put_be 2 i)" by (simp add: be_at_def field_simps)
  moreover have "drop 3 (2 # put_be 2 i @ data) = data" by simp
  ultimately show ?thesis
    by (simp add: decode_tunnel_frame_def encode_tunnel_frame_bytes u8_at_def TUNNEL_FRAME_MARKER_def)
qed

text \<open>
  Snapshots and tunnel frames survive the wire: the payload unchanged, the request id modulo 256, the channel id
  modulo 65536; and the three kinds of frame are told apart: none decodes as another.
\<close>

theorem small_frames_roundtrip:
  "(\<exists>r. decode_snapshot (encode_snapshot i data) = Inr (r, data) \<and> int r = i mod 256)
   \<and> (\<exists>c. decode_tunnel_frame (encode_tunnel_frame i data) = Inr (c, data) \<and> int c = i mod 65536)
   \<and> isl (decode_tunnel_frame (encode_snapshot i data)) \<and> isl (decode_snapshot (encode_tunnel_frame i data))
   \<and> isl (decode_tunnel_frame (encode_video_frame i m data)) \<and> isl (decode_video_frame (encode_tunnel_frame i data))
   \<and> isl (decode_snapshot (encode_video_frame i m data)) \<and> isl (decode_video_frame (encode_snapshot i data))"
proof -
  have one: "encode_snapshot i data = 4 # word_of_nat (nat (i mod 256)) # data"
    by (simp add: encode_snapshot_def video_constants put_be_one [simplified])
  note two = encode_tunnel_frame_bytes [of i data]
  have three: "u8_at 0 (encode_video_frame i m data) = 1" "27 \<le> length (encode_video_frame i m data)"
    by (simp_all add: encode_video_frame_def u8_at_def video_constants)
  show ?thesis
    using three unat_put_be_one [of i] tunnel_frame_decodes [of i data]
    by (auto simp: decode_snapshot_def decode_tunnel_frame_def [of "4 # _"]
        decode_tunnel_frame_def [of "encode_video_frame i m data"] decode_video_frame_def one two u8_at_def
        video_constants TUNNEL_FRAME_MARKER_def)
qed

end
