(* ===== verification/Allocators.thy ===== *)
theory Allocators
  imports Prelude
begin

text \<open>
  Two allocators of scarce numbers: the tunnel's 16-bit channel ids
  (\<open>packages/core/src/tunnel/channel-allocator.ts\<close>) and the host ports of \<open>adb forward\<close>
  (\<open>packages/session/src/port-allocator.ts\<close>), and the contract a client relies on: an id handed out is
  not handed out again before it is released.
\<close>

section \<open>The contract\<close>

datatype 'i alloc_op = Take | Give 'i

text \<open>A client's traffic: the ids it got, in order; a failed \<open>Take\<close> is \<open>None\<close> and changes nothing.\<close>

fun alloc_run :: "('s \<Rightarrow> ('i \<times> 's) option) \<Rightarrow> ('i \<Rightarrow> 's \<Rightarrow> 's) \<Rightarrow> 'i alloc_op list \<Rightarrow> 's \<Rightarrow> 'i option list \<times> 's" where
  "alloc_run tk gv [] s = ([], s)"
| "alloc_run tk gv (Take # ops) s = (case tk s of
     None \<Rightarrow> (case alloc_run tk gv ops s of (ids, t) \<Rightarrow> (None # ids, t))
   | Some (i, s') \<Rightarrow> (case alloc_run tk gv ops s' of (ids, t) \<Rightarrow> (Some i # ids, t)))"
| "alloc_run tk gv (Give i # ops) s = alloc_run tk gv ops (gv i s)"

text \<open>Replaying the answers: no id is handed out while it is outstanding.\<close>

fun no_double :: "'i set \<Rightarrow> 'i alloc_op list \<Rightarrow> 'i option list \<Rightarrow> bool" where
  "no_double out [] ids = (ids = [])"
| "no_double out (Give i # ops) ids = no_double (out - {i}) ops ids"
| "no_double out (Take # ops) [] = False"
| "no_double out (Take # ops) (None # ids) = no_double out ops ids"
| "no_double out (Take # ops) (Some i # ids) = (i \<notin> out \<and> no_double (insert i out) ops ids)"

locale id_allocator =
  fixes tk :: "'s \<Rightarrow> ('i \<times> 's) option"
    and gv :: "'i \<Rightarrow> 's \<Rightarrow> 's"
    and used :: "'s \<Rightarrow> 'i set"
    and ok :: "'s \<Rightarrow> bool"
  assumes take_fresh: "ok s \<Longrightarrow> tk s = Some (i, s') \<Longrightarrow> i \<notin> used s \<and> used s' = insert i (used s) \<and> ok s'"
    and give_frees: "ok s \<Longrightarrow> used (gv i s) = used s - {i} \<and> ok (gv i s)"
begin

lemma never_double:
  "ok s \<Longrightarrow> no_double (used s) ops (fst (alloc_run tk gv ops s)) \<and> ok (snd (alloc_run tk gv ops s))"
proof (induction ops arbitrary: s)
  case (Cons x ops)
  show ?case
  proof (cases x)
    case Take
    show ?thesis
    proof (cases "tk s")
      case None
      with Cons Take show ?thesis by (simp add: split_def)
    next
      case (Some p)
      obtain i s' where p: "tk s = Some (i, s')" using Some by (cases p) simp
      from take_fresh [OF Cons.prems p] Cons.IH [of s'] Take p show ?thesis by (simp add: split_def)
    qed
  next
    case (Give i)
    with give_frees [OF Cons.prems, of i] Cons.IH [of "gv i s"] show ?thesis by simp
  qed
qed simp

end

section \<open>Channel ids\<close>

definition MAX_CHANNEL_ID :: nat where "MAX_CHANNEL_ID = 0xFFFF"

record channel_ids =
  ci_next :: nat
  ci_free :: "nat list"
  ci_allocated :: "nat list"

definition new_channel_ids :: channel_ids where
  "new_channel_ids = \<lparr>ci_next = 0, ci_free = [], ci_allocated = []\<rparr>"

text \<open>The free list is a stack whose top is its last element; \<open>None\<close> is \<open>E_CHANNEL_EXHAUSTED\<close>.\<close>

definition ci_allocate :: "channel_ids \<Rightarrow> (nat \<times> channel_ids) option" where
  "ci_allocate s =
     (if ci_free s \<noteq> [] then Some (last (ci_free s), s\<lparr>ci_free := butlast (ci_free s),
          ci_allocated := ci_allocated s @ [last (ci_free s)]\<rparr>)
      else if MAX_CHANNEL_ID < ci_next s then None
      else Some (ci_next s, s\<lparr>ci_next := ci_next s + 1, ci_allocated := ci_allocated s @ [ci_next s]\<rparr>))"

definition ci_release :: "nat \<Rightarrow> channel_ids \<Rightarrow> channel_ids" where
  "ci_release i s =
     (if i \<in> set (ci_allocated s) then s\<lparr>ci_allocated := removeAll i (ci_allocated s), ci_free := ci_free s @ [i]\<rparr> else s)"

definition ci_size :: "channel_ids \<Rightarrow> nat" where
  "ci_size s = length (ci_allocated s)"

definition ci_ok :: "channel_ids \<Rightarrow> bool" where
  "ci_ok s \<longleftrightarrow> distinct (ci_free s @ ci_allocated s) \<and> set (ci_free s) \<union> set (ci_allocated s) = {..<ci_next s}
     \<and> ci_next s \<le> MAX_CHANNEL_ID + 1"

lemma ci_ok_new [simp]: "ci_ok new_channel_ids"
  by (simp add: ci_ok_def new_channel_ids_def)

lemma ci_allocate_ok:
  assumes "ci_ok s" "ci_allocate s = Some (i, s')"
  shows "i \<notin> set (ci_allocated s) \<and> set (ci_allocated s') = insert i (set (ci_allocated s)) \<and> ci_ok s'"
proof (cases "ci_free s = []")
  case True
  with assms(2) have i: "i = ci_next s" "ci_next s \<le> MAX_CHANNEL_ID"
    and s': "s' = s\<lparr>ci_next := ci_next s + 1, ci_allocated := ci_allocated s @ [ci_next s]\<rparr>"
    by (auto simp add: ci_allocate_def split: if_splits)
  from assms(1) True have a: "distinct (ci_allocated s)" "set (ci_allocated s) = {..<ci_next s}"
    by (simp_all add: ci_ok_def)
  with i s' True show ?thesis by (simp add: ci_ok_def lessThan_Suc)
next
  case False
  then obtain fs where f: "ci_free s = fs @ [i]" "s' = s\<lparr>ci_free := fs, ci_allocated := ci_allocated s @ [i]\<rparr>"
    using assms(2) by (cases "ci_free s" rule: rev_cases) (auto simp: ci_allocate_def)
  with assms(1) show ?thesis by (auto simp: ci_ok_def)
qed

lemma ci_release_ok: "ci_ok s \<Longrightarrow> set (ci_allocated (ci_release i s)) = set (ci_allocated s) - {i} \<and> ci_ok (ci_release i s)"
  by (auto simp: ci_release_def ci_ok_def distinct_removeAll)

interpretation channels: id_allocator ci_allocate ci_release "\<lambda>s. set (ci_allocated s)" ci_ok
proof
  show "i \<notin> set (ci_allocated s) \<and> set (ci_allocated s') = insert i (set (ci_allocated s)) \<and> ci_ok s'"
    if "ci_ok s" "ci_allocate s = Some (i, s')" for s i s' using that by (rule ci_allocate_ok)
  show "set (ci_allocated (ci_release i s)) = set (ci_allocated s) - {i} \<and> ci_ok (ci_release i s)" if "ci_ok s" for s i
    using that by (rule ci_release_ok)
qed

text \<open>
  Through any sequence of allocations and releases, double and foreign releases included, no channel
  id is handed out while it is outstanding, every id is below 65536, and an allocation fails exactly when all 65536
  ids are outstanding.
\<close>

theorem channel_ids_exclusive:
  "no_double {} ops (fst (alloc_run ci_allocate ci_release ops new_channel_ids))
   \<and> set (ci_allocated (snd (alloc_run ci_allocate ci_release ops new_channel_ids))) \<subseteq> {..<65536}
   \<and> (ci_allocate (snd (alloc_run ci_allocate ci_release ops new_channel_ids)) = None \<longleftrightarrow>
        ci_size (snd (alloc_run ci_allocate ci_release ops new_channel_ids)) = 65536)"
proof -
  let ?s = "snd (alloc_run ci_allocate ci_release ops new_channel_ids)"
  have run: "no_double {} ops (fst (alloc_run ci_allocate ci_release ops new_channel_ids))" and ok: "ci_ok ?s"
    using channels.never_double [of new_channel_ids ops] by (simp_all add: new_channel_ids_def ci_ok_def)
  have sub: "set (ci_allocated ?s) \<subseteq> {..<65536}" using ok by (auto simp: ci_ok_def MAX_CHANNEL_ID_def)
  have card: "length (ci_free ?s) + length (ci_allocated ?s) = ci_next ?s"
    using ok distinct_card [of "ci_free ?s @ ci_allocated ?s"] by (simp add: ci_ok_def)
  have top: "ci_next ?s \<le> 65536" using ok by (simp add: ci_ok_def MAX_CHANNEL_ID_def)
  then have "ci_allocate ?s = None \<longleftrightarrow> ci_free ?s = [] \<and> ci_next ?s = 65536"
    by (auto simp: ci_allocate_def MAX_CHANNEL_ID_def)
  also have "\<dots> \<longleftrightarrow> ci_size ?s = 65536"
    using card top unfolding ci_size_def by (cases "ci_free ?s") (auto simp del: One_nat_def)
  finally show ?thesis using run sub by blast
qed

section \<open>Ports\<close>

record port_allocator =
  pa_start :: int
  pa_end :: int
  pa_in_use :: "(int, ident) jmap"

text \<open>
  \<open>claim\<close> looks at the ports in order. Its loop body awaits the bind test, so it is cut there: the scan to the next
  port that is not registered, and the continuation with the test's answer.
\<close>

datatype claim_state = Awaiting int | Claimed int | Exhausted

function claim_scan :: "int \<Rightarrow> port_allocator \<Rightarrow> claim_state" where
  "claim_scan p s =
     (if pa_end s < p then Exhausted
      else if p \<in> set (jm_keys (pa_in_use s)) then claim_scan (p + 1) s
      else Awaiting p)"
  by auto
termination by (relation "measure (\<lambda>(p, s). nat (pa_end s + 1 - p))") auto

declare claim_scan.simps [simp del]

definition claim_begin :: "port_allocator \<Rightarrow> claim_state" where
  "claim_begin s = claim_scan (pa_start s) s"

definition claim_resume :: "ident \<Rightarrow> bool \<Rightarrow> claim_state \<Rightarrow> port_allocator \<Rightarrow> claim_state \<times> port_allocator" where
  "claim_resume dev is_free c s = (case c of
     Awaiting p \<Rightarrow> if is_free then (Claimed p, s\<lparr>pa_in_use := jm_set p dev (pa_in_use s)\<rparr>) else (claim_scan (p + 1) s, s)
   | _ \<Rightarrow> (c, s))"

text \<open>A claim nobody interrupts; \<open>free\<close> answers the bind tests.\<close>

lemma claim_scan_finds: "claim_scan p s = Awaiting q \<Longrightarrow> p \<le> q \<and> q \<le> pa_end s \<and> q \<notin> set (jm_keys (pa_in_use s))"
proof (induction p s rule: claim_scan.induct)
  case (1 p s)
  then show ?case
    by (cases "pa_end s < p"; cases "p \<in> set (jm_keys (pa_in_use s))") (auto simp: claim_scan.simps [of p s])
qed

function claim_loop :: "(int \<Rightarrow> bool) \<Rightarrow> ident \<Rightarrow> claim_state \<Rightarrow> port_allocator \<Rightarrow> (int \<times> port_allocator) option" where
  "claim_loop free dev c s = (case c of
     Claimed p \<Rightarrow> Some (p, s)
   | Exhausted \<Rightarrow> None
   | Awaiting p \<Rightarrow> (case claim_resume dev (free p) c s of (c', s') \<Rightarrow> claim_loop free dev c' s'))"
  by auto
termination
  by (relation "measure (\<lambda>(f, d, c, s). case c of Awaiting p \<Rightarrow> Suc (nat (pa_end s + 1 - p)) | _ \<Rightarrow> 0)")
     (auto simp: claim_resume_def dest: claim_scan_finds split: claim_state.splits if_splits)

declare claim_loop.simps [simp del]

definition pa_claim :: "(int \<Rightarrow> bool) \<Rightarrow> ident \<Rightarrow> port_allocator \<Rightarrow> (int \<times> port_allocator) option" where
  "pa_claim free dev s = claim_loop free dev (claim_begin s) s"

definition pa_release :: "int \<Rightarrow> port_allocator \<Rightarrow> port_allocator" where
  "pa_release p s = s\<lparr>pa_in_use := jm_del p (pa_in_use s)\<rparr>"

definition pa_release_device :: "ident \<Rightarrow> port_allocator \<Rightarrow> port_allocator" where
  "pa_release_device dev s = s\<lparr>pa_in_use := filter (\<lambda>(p, owner). owner \<noteq> dev) (pa_in_use s)\<rparr>"

lemma claim_scan_never_claims [simp]: "claim_scan p s \<noteq> Claimed q"
proof (induction p s rule: claim_scan.induct)
  case (1 p s)
  then show ?case by (subst claim_scan.simps) auto
qed

lemma claim_loop_scan:
  "claim_loop free dev (claim_scan p s) s = Some (r, s') \<Longrightarrow>
     p \<le> r \<and> r \<le> pa_end s \<and> r \<notin> set (jm_keys (pa_in_use s)) \<and> free r \<and> s' = s\<lparr>pa_in_use := jm_set r dev (pa_in_use s)\<rparr>"
proof (induction "nat (pa_end s + 1 - p)" arbitrary: p rule: less_induct)
  case less
  from less.prems obtain q where q: "claim_scan p s = Awaiting q"
    by (cases "claim_scan p s") (auto simp: claim_loop.simps)
  note found = claim_scan_finds [OF q]
  show ?case
  proof (cases "free q")
    case True
    with less.prems q found show ?thesis by (auto simp: claim_loop.simps claim_resume_def)
  next
    case False
    with less.prems q have rest: "claim_loop free dev (claim_scan (q + 1) s) s = Some (r, s')"
      by (subst (asm) claim_loop.simps) (simp add: claim_resume_def)
    have "nat (pa_end s + 1 - (q + 1)) < nat (pa_end s + 1 - p)" using found by simp
    from less.hyps [OF this rest] found show ?thesis by auto
  qed
qed

lemma pa_claim_finds:
  "pa_claim free dev s = Some (r, s') \<Longrightarrow> pa_start s \<le> r \<and> r \<le> pa_end s \<and> r \<notin> set (jm_keys (pa_in_use s)) \<and> free r
     \<and> s' = s\<lparr>pa_in_use := jm_set r dev (pa_in_use s)\<rparr>"
  unfolding pa_claim_def claim_begin_def by (rule claim_loop_scan)

interpretation ports: id_allocator "pa_claim free dev" pa_release "\<lambda>s. set (jm_keys (pa_in_use s))" "\<lambda>s. True" for free dev
proof
  show "i \<notin> set (jm_keys (pa_in_use s)) \<and> set (jm_keys (pa_in_use s')) = insert i (set (jm_keys (pa_in_use s))) \<and> True"
    if "True" "pa_claim free dev s = Some (i, s')" for s i s'
    using pa_claim_finds [OF that(2)] by (simp add: update_keys)
  show "set (jm_keys (pa_in_use (pa_release i s))) = set (jm_keys (pa_in_use s)) - {i} \<and> True" if "True" for s :: port_allocator and i
    by (auto simp: pa_release_def delete_keys)
qed

text \<open>
  Claims that do not overlap are exclusive: through any sequence of complete claims and releases no port is
  handed out while it is outstanding, and every claimed port is in the range, unregistered and passed the bind test.
\<close>

theorem sequential_claims_exclusive:
  "no_double (set (jm_keys (pa_in_use s))) ops (fst (alloc_run (pa_claim free dev) pa_release ops s))
   \<and> (pa_claim free dev s = Some (r, s') \<longrightarrow>
        pa_start s \<le> r \<and> r \<le> pa_end s \<and> r \<notin> set (jm_keys (pa_in_use s)) \<and> free r \<and> jm_get (pa_in_use s') r = Some dev)"
  using ports.never_double [where s = s and ops = ops and free = free and dev = dev] pa_claim_finds [of free dev s r s'] by auto

definition demo_ports :: port_allocator where
  "demo_ports = \<lparr>pa_start = 27100, pa_end = 27102, pa_in_use = [(27100, ''x'')]\<rparr>"

theorem sequential_claims_exclusive_witness:
  "pa_claim (\<lambda>p. p \<noteq> 27101) ''d'' demo_ports = Some (27102, demo_ports\<lparr>pa_in_use := [(27100, ''x''), (27102, ''d'')]\<rparr>)
   \<and> (27102::int) \<le> pa_end demo_ports"
proof -
  have c: "pa_claim (\<lambda>p. p \<noteq> 27101) ''d'' demo_ports = Some (27102, demo_ports\<lparr>pa_in_use := [(27100, ''x''), (27102, ''d'')]\<rparr>)"
    by (simp add: pa_claim_def claim_loop.simps claim_begin_def claim_scan.simps claim_resume_def demo_ports_def)
  with sequential_claims_exclusive [of demo_ports "[]" "\<lambda>p. p \<noteq> 27101" "''d''" 27102
      "demo_ports\<lparr>pa_in_use := [(27100, ''x''), (27102, ''d'')]\<rparr>"] show ?thesis by simp
qed

text \<open>
  Claims that overlap are not exclusive: a second claim that begins while the first awaits its bind test finds
  the same port unregistered, and when both tests answer that the port is free both devices are given that port,
  and only the second is registered as its owner.
\<close>

theorem overlapping_claims_share_a_port:
  assumes "claim_begin s = Awaiting p" "d1 \<noteq> d2"
  shows "(case claim_resume d1 True (claim_begin s) s of (c1, s1) \<Rightarrow>
      (case claim_resume d2 True (claim_begin s) s1 of (c2, s2) \<Rightarrow>
         c1 = Claimed p \<and> c2 = Claimed p \<and> jm_get (pa_in_use s2) p = Some d2))"
  using assms by (simp add: claim_resume_def)

theorem overlapping_claims_share_a_port_witness:
  "(case claim_resume ''d1'' True (claim_begin demo_ports) demo_ports of (c1, s1) \<Rightarrow>
      (case claim_resume ''d2'' True (claim_begin demo_ports) s1 of (c2, s2) \<Rightarrow>
         c1 = Claimed 27101 \<and> c2 = Claimed 27101 \<and> jm_get (pa_in_use s2) 27101 = Some ''d2''))"
proof -
  have "claim_begin demo_ports = Awaiting 27101" by (simp add: claim_begin_def claim_scan.simps demo_ports_def)
  from overlapping_claims_share_a_port [OF this, of "''d1''" "''d2''"] show ?thesis by simp
qed

end
