(* ===== verification/Tunnel.thy ===== *)
theory Tunnel
  imports Allocators Frames
begin

text \<open>
  The control plane's side of the node tunnel (\<open>packages/core/src/tunnel/router.ts\<close>): binary channels to
  devices on remote nodes, opened and closed by either end, and their local subscribers. Which node
  holds a device is the argument \<open>node_of\<close>; messages to a node and callbacks of subscribers are recorded.
\<close>

declare map_of_eq_Some_iff [simp del]

section \<open>State\<close>

datatype channel_kind = KVideo | KOther string

record channel =
  ch_device :: ident
  ch_kind :: channel_kind
  ch_subscribers :: "nat list"

datatype tunnel_msg =
    ChannelOpen ident nat ident channel_kind
  | ChannelClose ident nat
  | FrameTo ident "byte list"
  | Deliver nat "byte list"

record router =
  rt_ids :: channel_ids
  rt_channels :: "(nat, channel) jmap"
  rt_video :: "(ident, nat) jmap"
  rt_log :: "tunnel_msg list"

type_synonym node_map = "ident \<Rightarrow> ident option"

definition new_router :: router where
  "new_router = \<lparr>rt_ids = new_channel_ids, rt_channels = [], rt_video = [], rt_log = []\<rparr>"

definition to_node :: "ident option \<Rightarrow> (ident \<Rightarrow> tunnel_msg) \<Rightarrow> router \<Rightarrow> router" where
  "to_node conn f t = (case conn of None \<Rightarrow> t | Some n \<Rightarrow> t\<lparr>rt_log := rt_log t @ [f n]\<rparr>)"

section \<open>Operations\<close>

definition release_channel :: "nat \<Rightarrow> router \<Rightarrow> router" where
  "release_channel c t =
     (let ch = jm_get (rt_channels t) c;
          video = (case ch of None \<Rightarrow> rt_video t
                   | Some x \<Rightarrow> if jm_get (rt_video t) (ch_device x) = Some c then jm_del (ch_device x) (rt_video t) else rt_video t)
      in t\<lparr>rt_channels := jm_del c (rt_channels t), rt_video := video, rt_ids := ci_release c (rt_ids t)\<rparr>)"

datatype 'a open_result = NoNode | Exhausted | Opened 'a

definition open_channel :: "node_map \<Rightarrow> ident \<Rightarrow> channel_kind \<Rightarrow> router \<Rightarrow> router \<times> nat open_result" where
  "open_channel node_of dev kind t = (case node_of dev of
     None \<Rightarrow> (t, NoNode)
   | Some n \<Rightarrow> (case ci_allocate (rt_ids t) of
        None \<Rightarrow> (t, open_result.Exhausted)
      | Some (c, ids) \<Rightarrow> (t\<lparr>rt_ids := ids,
            rt_channels := jm_set c \<lparr>ch_device = dev, ch_kind = kind, ch_subscribers = []\<rparr> (rt_channels t),
            rt_video := (if kind = KVideo then jm_set dev c (rt_video t) else rt_video t),
            rt_log := rt_log t @ [ChannelOpen n c dev kind]\<rparr>, Opened c)))"

text \<open>Sets of callbacks: adding a present one changes nothing.\<close>

definition add_subscriber :: "nat \<Rightarrow> nat \<Rightarrow> router \<Rightarrow> router" where
  "add_subscriber c cb t = (case jm_get (rt_channels t) c of
     None \<Rightarrow> t
   | Some ch \<Rightarrow> t\<lparr>rt_channels := jm_set c (ch\<lparr>ch_subscribers := List.insert cb (ch_subscribers ch)\<rparr>) (rt_channels t)\<rparr>)"

definition remove_subscriber :: "nat \<Rightarrow> nat \<Rightarrow> router \<Rightarrow> router" where
  "remove_subscriber c cb t = (case jm_get (rt_channels t) c of
     None \<Rightarrow> t
   | Some ch \<Rightarrow> t\<lparr>rt_channels := jm_set c (ch\<lparr>ch_subscribers := removeAll cb (ch_subscribers ch)\<rparr>) (rt_channels t)\<rparr>)"

text \<open>\<open>subscribeVideo\<close>; the answer is the channel its unsubscribe function remembers, if any.\<close>

definition subscribe_video :: "node_map \<Rightarrow> ident \<Rightarrow> nat \<Rightarrow> router \<Rightarrow> router \<times> nat open_result" where
  "subscribe_video node_of dev cb t = (case jm_get (rt_video t) dev of
     Some c \<Rightarrow> (add_subscriber c cb t, Opened c)
   | None \<Rightarrow> (case open_channel node_of dev KVideo t of
        (t', Opened c) \<Rightarrow> (add_subscriber c cb t', Opened c)
      | (t', r) \<Rightarrow> (t', r)))"

definition unsubscribe_video :: "node_map \<Rightarrow> ident \<Rightarrow> nat \<Rightarrow> nat \<Rightarrow> router \<Rightarrow> router" where
  "unsubscribe_video node_of dev c cb t =
     (let t1 = remove_subscriber c cb t in
      case jm_get (rt_channels t1) c of
        None \<Rightarrow> t1
      | Some ch \<Rightarrow> if ch_subscribers ch = []
          then release_channel c (to_node (node_of dev) (\<lambda>n. ChannelClose n c) t1) else t1)"

definition subscribe_channel :: "nat \<Rightarrow> nat \<Rightarrow> router \<Rightarrow> router" where
  "subscribe_channel c cb t = add_subscriber c cb t"

definition send_frame :: "node_map \<Rightarrow> nat \<Rightarrow> byte list \<Rightarrow> router \<Rightarrow> router" where
  "send_frame node_of c payload t = (case jm_get (rt_channels t) c of
     None \<Rightarrow> t
   | Some ch \<Rightarrow> to_node (node_of (ch_device ch)) (\<lambda>n. FrameTo n (encode_tunnel_frame (int c) payload)) t)"

definition close_channel :: "node_map \<Rightarrow> nat \<Rightarrow> router \<Rightarrow> router" where
  "close_channel node_of c t = (case jm_get (rt_channels t) c of
     None \<Rightarrow> t
   | Some ch \<Rightarrow> release_channel c (to_node (node_of (ch_device ch)) (\<lambda>n. ChannelClose n c) t))"

text \<open>A node's own close message, and a binary frame from a node; neither looks at which node sent it.\<close>

definition node_closes :: "ident \<Rightarrow> nat \<Rightarrow> router \<Rightarrow> router" where
  "node_closes node c t = release_channel c t"

definition handle_node_frame :: "ident \<Rightarrow> byte list \<Rightarrow> router \<Rightarrow> router" where
  "handle_node_frame node buf t = (case decode_tunnel_frame buf of
     Inl _ \<Rightarrow> t
   | Inr (c, payload) \<Rightarrow> (case jm_get (rt_channels t) c of
        None \<Rightarrow> t
      | Some ch \<Rightarrow> t\<lparr>rt_log := rt_log t @ map (\<lambda>cb. Deliver cb payload) (ch_subscribers ch)\<rparr>))"

section \<open>Reachable routers\<close>

inductive router_step :: "router \<Rightarrow> router \<Rightarrow> bool" where
  opens: "router_step t (fst (open_channel node_of dev kind t))"
| video: "router_step t (fst (subscribe_video node_of dev cb t))"
| unvideo: "router_step t (unsubscribe_video node_of dev c cb t)"
| subscribe: "router_step t (subscribe_channel c cb t)"
| unsubscribe: "router_step t (remove_subscriber c cb t)"
| send: "router_step t (send_frame node_of c payload t)"
| close: "router_step t (close_channel node_of c t)"
| node_close: "router_step t (node_closes node c t)"
| frame: "router_step t (handle_node_frame node buf t)"

inductive router_reachable :: "router \<Rightarrow> bool" where
  start: "router_reachable new_router"
| step: "router_reachable t \<Longrightarrow> router_step t t' \<Longrightarrow> router_reachable t'"

inductive_cases router_stepE: "router_step t t'"

text \<open>Ids and channels correspond, and a device's video channel is a video channel of that device.\<close>

definition video_target :: "(nat, channel) jmap \<Rightarrow> ident \<Rightarrow> nat \<Rightarrow> bool" where
  "video_target chs dev c \<longleftrightarrow> (\<exists>ch. jm_get chs c = Some ch \<and> ch_device ch = dev \<and> ch_kind ch = KVideo)"

lemma video_target_set:
  "video_target chs dev c' \<Longrightarrow> jm_get chs c = None \<or> jm_get chs c = Some ch \<and> ch_device new = ch_device ch \<and> ch_kind new = ch_kind ch
   \<Longrightarrow> video_target (jm_set c new chs) dev c'"
  by (auto simp: video_target_def)

lemma video_target_new: "ch_device new = dev \<Longrightarrow> ch_kind new = KVideo \<Longrightarrow> video_target (jm_set c new chs) dev c"
  by (simp add: video_target_def)

lemma video_target_del: "video_target chs dev c' \<Longrightarrow> c' \<noteq> c \<Longrightarrow> video_target (jm_del c chs) dev c'"
  by (simp add: video_target_def)

definition router_ok :: "router \<Rightarrow> bool" where
  "router_ok t \<longleftrightarrow> ci_ok (rt_ids t) \<and> jm_wf (rt_channels t) \<and> jm_wf (rt_video t)
     \<and> set (jm_keys (rt_channels t)) = set (ci_allocated (rt_ids t))
     \<and> (\<forall>dev c. jm_get (rt_video t) dev = Some c \<longrightarrow> video_target (rt_channels t) dev c)"

lemma router_ok_log [simp]: "router_ok (t\<lparr>rt_log := l\<rparr>) = router_ok t"
  by (simp add: router_ok_def)

lemma router_ok_to_node [simp]: "router_ok (to_node conn f t) = router_ok t"
  by (simp add: to_node_def split: option.splits)

lemma router_ok_open: "router_ok t \<Longrightarrow> router_ok (fst (open_channel node_of dev kind t))"
proof -
  assume ok: "router_ok t"
  show "router_ok (fst (open_channel node_of dev kind t))"
  proof (cases "node_of dev")
    case (Some n)
    show ?thesis
    proof (cases "ci_allocate (rt_ids t)")
      case (Some p)
      obtain c ids where a: "ci_allocate (rt_ids t) = Some (c, ids)" using Some by (cases p) simp
      from ok have "ci_ok (rt_ids t)" by (simp add: router_ok_def)
      from ci_allocate_ok [OF this a] have fresh: "c \<notin> set (ci_allocated (rt_ids t))"
        "set (ci_allocated ids) = insert c (set (ci_allocated (rt_ids t)))" "ci_ok ids" by simp_all
      from fresh(1) ok have "jm_get (rt_channels t) c = None"
        by (auto simp: router_ok_def map_of_eq_None_iff)
      with fresh ok \<open>node_of dev = Some n\<close> a show ?thesis
        by (auto simp: open_channel_def router_ok_def update_keys video_target_set intro: video_target_new)
    qed (use ok \<open>node_of dev = Some n\<close> in \<open>simp add: open_channel_def\<close>)
  qed (use ok in \<open>simp add: open_channel_def\<close>)
qed

lemma router_ok_subscribers:
  assumes "router_ok t" "jm_get (rt_channels t) c = Some ch"
  shows "router_ok (t\<lparr>rt_channels := jm_set c (ch\<lparr>ch_subscribers := s\<rparr>) (rt_channels t)\<rparr>)"
proof -
  have "c \<in> set (jm_keys (rt_channels t))" using assms(2) by (force dest: map_of_SomeD)
  then have "set (jm_keys (jm_set c (ch\<lparr>ch_subscribers := s\<rparr>) (rt_channels t))) = set (jm_keys (rt_channels t))"
    by (simp add: update_keys)
  with assms show ?thesis by (auto simp: router_ok_def intro: video_target_set)
qed

lemma router_ok_add: "router_ok t \<Longrightarrow> router_ok (add_subscriber c cb t)"
  by (auto simp: add_subscriber_def router_ok_subscribers split: option.splits)

lemma router_ok_remove: "router_ok t \<Longrightarrow> router_ok (remove_subscriber c cb t)"
  by (auto simp: remove_subscriber_def router_ok_subscribers split: option.splits)

lemma router_ok_release:
  assumes "router_ok t"
  shows "router_ok (release_channel c t)"
proof -
  from assms have ids: "ci_ok (rt_ids t)" by (simp add: router_ok_def)
  have keep: "video_target (jm_del c (rt_channels t)) dev c'"
    if "jm_get (rt_video (release_channel c t)) dev = Some c'" for dev c'
  proof -
    have v: "jm_get (rt_video t) dev = Some c'" using that by (auto simp: release_channel_def Let_def split: option.splits if_splits)
    with assms have t: "video_target (rt_channels t) dev c'" by (simp add: router_ok_def)
    then obtain ch where "jm_get (rt_channels t) c' = Some ch" "ch_device ch = dev" by (auto simp: video_target_def)
    with that v have "c' \<noteq> c" by (auto simp: release_channel_def Let_def split: if_splits)
    with t show ?thesis by (rule video_target_del)
  qed
  have "jm_wf (rt_video (release_channel c t))"
    using assms by (auto simp: release_channel_def Let_def router_ok_def split: option.splits)
  moreover have "set (jm_keys (jm_del c (rt_channels t))) = set (ci_allocated (ci_release c (rt_ids t)))"
    using assms ci_release_ok [OF ids, of c] by (simp add: delete_keys router_ok_def)
  ultimately show ?thesis
    using assms keep ci_release_ok [OF ids, of c] by (auto simp: router_ok_def release_channel_def Let_def)
qed

lemma router_ok_video: "router_ok t \<Longrightarrow> router_ok (fst (subscribe_video node_of dev cb t))"
  using router_ok_open [of t node_of dev KVideo]
  by (auto simp: subscribe_video_def router_ok_add split: option.splits prod.splits open_result.splits)

lemma router_ok_unvideo: "router_ok t \<Longrightarrow> router_ok (unsubscribe_video node_of dev c cb t)"
  by (auto simp: unsubscribe_video_def Let_def router_ok_remove intro!: router_ok_release split: option.splits)

lemma router_ok_step: "router_step t t' \<Longrightarrow> router_ok t \<Longrightarrow> router_ok t'"
  by (elim router_stepE)
     (auto simp: router_ok_open router_ok_video router_ok_unvideo subscribe_channel_def router_ok_add router_ok_remove
       send_frame_def close_channel_def node_closes_def router_ok_release handle_node_frame_def split: option.splits sum.splits)

lemma router_reachable_ok: "router_reachable t \<Longrightarrow> router_ok t"
proof (induction rule: router_reachable.induct)
  case start
  show ?case by (simp add: router_ok_def new_router_def) (simp add: new_channel_ids_def)
qed (rule router_ok_step)

section \<open>Properties\<close>

text \<open>
  No channel id leaks. In every reachable router, however channels were opened, subscribed, closed from either side, the ids
  outstanding at the allocator are exactly the ids of the channels the router knows, and every device's video
  channel is one of them, is of kind video and belongs to that device.
\<close>

theorem channel_ids_do_not_leak:
  assumes "router_reachable t"
  shows "set (ci_allocated (rt_ids t)) = set (jm_keys (rt_channels t))
    \<and> ci_size (rt_ids t) = length (rt_channels t)
    \<and> (jm_get (rt_video t) dev = Some c \<longrightarrow>
        (\<exists>ch. jm_get (rt_channels t) c = Some ch \<and> ch_device ch = dev \<and> ch_kind ch = KVideo))"
proof -
  note ok = router_reachable_ok [OF assms]
  then have "card (set (ci_allocated (rt_ids t))) = card (set (jm_keys (rt_channels t)))" by (simp add: router_ok_def)
  moreover have "distinct (ci_allocated (rt_ids t))" "jm_wf (rt_channels t)" using ok by (simp_all add: router_ok_def ci_ok_def)
  ultimately have "ci_size (rt_ids t) = length (rt_channels t)"
    using distinct_card [of "ci_allocated (rt_ids t)"] distinct_card [of "jm_keys (rt_channels t)"] by (simp add: ci_size_def)
  with ok show ?thesis by (auto simp: router_ok_def video_target_def)
qed

text \<open>Device \<open>a\<close> is watched on channel 0, its node closes the channel, and the id is used again for device \<open>b\<close>.\<close>

definition demo_nodes :: node_map where
  "demo_nodes dev = Some ''n''"

definition demo_router :: router where
  "demo_router = fst (open_channel demo_nodes ''b'' (KOther ''shell'')
     (node_closes ''n'' 0 (fst (subscribe_video demo_nodes ''a'' 7 new_router))))"

lemma demo_router_state:
  "rt_channels demo_router = [(0, \<lparr>ch_device = ''b'', ch_kind = KOther ''shell'', ch_subscribers = []\<rparr>)]"
  by (simp add: demo_router_def open_channel_def node_closes_def release_channel_def Let_def subscribe_video_def
      add_subscriber_def new_router_def new_channel_ids_def ci_allocate_def ci_release_def MAX_CHANNEL_ID_def demo_nodes_def)

lemma demo_router_reachable: "router_reachable demo_router"
  unfolding demo_router_def
  by (intro router_reachable.step [OF _ router_step.opens] router_reachable.step [OF _ router_step.node_close]
      router_reachable.step [OF _ router_step.video] router_reachable.start)

theorem channel_ids_do_not_leak_witness:
  "set (ci_allocated (rt_ids demo_router)) = {0} \<and> ci_size (rt_ids demo_router) = 1"
proof -
  show ?thesis using channel_ids_do_not_leak [OF demo_router_reachable] by (simp add: demo_router_state)
qed

text \<open>
  A stale unsubscribe closes a stranger's channel. The function a viewer got from subscribing remembers
  only the id; called after the id has been given to another channel that nobody has subscribed to yet, it
  takes that channel away and returns its id to the allocator, whatever device and kind it is for.
\<close>

theorem stale_unsubscribe_closes_stranger:
  assumes "jm_get (rt_channels t) c = Some ch" "ch_subscribers ch = []" "ch_device ch \<noteq> dev"
  shows "jm_get (rt_channels (unsubscribe_video node_of dev c cb t)) c = None
    \<and> c \<notin> set (ci_allocated (rt_ids (unsubscribe_video node_of dev c cb t)))"
  using assms
  by (simp add: unsubscribe_video_def remove_subscriber_def Let_def release_channel_def to_node_def ci_release_def split: option.splits)

theorem stale_unsubscribe_closes_stranger_witness:
  "jm_get (rt_channels demo_router) 0 = Some \<lparr>ch_device = ''b'', ch_kind = KOther ''shell'', ch_subscribers = []\<rparr>
   \<and> jm_get (rt_channels (unsubscribe_video demo_nodes ''a'' 0 7 demo_router)) 0 = None"
proof -
  have c: "jm_get (rt_channels demo_router) 0 = Some \<lparr>ch_device = ''b'', ch_kind = KOther ''shell'', ch_subscribers = []\<rparr>"
    by (simp add: demo_router_state)
  with stale_unsubscribe_closes_stranger [OF c] show ?thesis by simp
qed

text \<open>
  Frames are delivered to exactly the subscribers of the channel whose id they carry, with the payload the
  sender encoded, and no frame changes any channel, whichever node it came from.
\<close>

theorem frames_reach_subscribers:
  "c < 65536 \<Longrightarrow>
   handle_node_frame node (encode_tunnel_frame (int c) payload) t =
     t\<lparr>rt_log := rt_log t @ (case jm_get (rt_channels t) c of None \<Rightarrow> []
        | Some ch \<Rightarrow> map (\<lambda>cb. Deliver cb payload) (ch_subscribers ch))\<rparr>"
proof -
  assume c: "c < 65536"
  from tunnel_frame_decodes [of "int c" payload] obtain k where
    "decode_tunnel_frame (encode_tunnel_frame (int c) payload) = Inr (k, payload)" "int k = int c mod 65536" by blast
  with c show ?thesis by (auto simp: handle_node_frame_def split: option.splits)
qed

theorem frames_reach_subscribers_witness:
  "rt_log (handle_node_frame ''other'' (encode_tunnel_frame (int 0) [5]) demo_router) = rt_log demo_router"
proof -
  have "jm_get (rt_channels demo_router) 0 = Some \<lparr>ch_device = ''b'', ch_kind = KOther ''shell'', ch_subscribers = []\<rparr>"
    by (simp add: demo_router_state)
  with frames_reach_subscribers [of 0 "''other''" "[5]" demo_router] show ?thesis by simp
qed

end
