(* ===== verification/InputArbiter.thy ===== *)
theory InputArbiter
  imports JsValue "HOL-Library.Multiset"
begin

text \<open>
  The input arbiter of a device (\<open>packages/session/src/input-arbiter.ts\<close>): three independent lanes,
  each running one action at a time and queueing the rest by priority. An action's settlement and the \<open>finally\<close>
  callback that advances its lane are two steps: the caller's own continuation runs in between.
  \<open>ln_due\<close> counts the advances that are due.
\<close>

section \<open>Data\<close>

datatype input_lane = Pointer | Keys | TextLane

datatype source_kind = SUser | SJob | SAgent

record input_source =
  is_kind :: source_kind
  is_id :: ident
  is_user_id :: "ident option"

fun source_kind_name :: "source_kind \<Rightarrow> string" where
  "source_kind_name SUser = ''user''"
| "source_kind_name SJob = ''job''"
| "source_kind_name SAgent = ''agent''"

fun PRIORITY_OF :: "source_kind \<Rightarrow> nat" where
  "PRIORITY_OF SUser = 0"
| "PRIORITY_OF SJob = 1"
| "PRIORITY_OF SAgent = 1"

definition MAX_WAIT_SAMPLES :: nat where "MAX_WAIT_SAMPLES = 500"

record queue_item =
  qi_token :: nat
  qi_source :: input_source
  qi_verb :: string
  qi_priority :: nat
  qi_enqueued_at :: millis

record running_action =
  ra_token :: nat
  ra_source :: input_source
  ra_verb :: string
  ra_since :: millis

datatype input_event = Ran nat | Finished nat | Refused nat string

record lane_state =
  ln_running :: "running_action option"
  ln_queue :: "queue_item list"
  ln_wait_samples :: "millis list"
  ln_refusals :: nat
  ln_due :: nat
  ln_events :: "input_event list"

record lane_stats =
  ls_depth :: nat
  ls_running :: "running_action option"
  ls_wait_p50 :: int
  ls_wait_p95 :: int
  ls_refusals :: nat

definition new_lane :: lane_state where
  "new_lane = \<lparr>ln_running = None, ln_queue = [], ln_wait_samples = [], ln_refusals = 0, ln_due = 0, ln_events = []\<rparr>"

text \<open>Which lane a verb goes through (\<open>forSource\<close>).\<close>

definition lane_of_verb :: "string \<Rightarrow> input_lane option" where
  "lane_of_verb v =
     (if v \<in> set [''tap'', ''swipe'', ''gesture'', ''touch'', ''scroll'', ''pinch''] then Some Pointer
      else if v \<in> set [''key'', ''keyDown'', ''keyUp'', ''releaseKeys'', ''prepareKeyboard''] then Some Keys
      else if v \<in> set [''text'', ''typeText''] then Some TextLane else None)"

section \<open>A lane\<close>

definition emit_input :: "input_event \<Rightarrow> lane_state \<Rightarrow> lane_state" where
  "emit_input e s = s\<lparr>ln_events := ln_events s @ [e]\<rparr>"

definition record_wait :: "millis \<Rightarrow> lane_state \<Rightarrow> lane_state" where
  "record_wait ms s =
     (let w = ln_wait_samples s @ [ms] in
      s\<lparr>ln_wait_samples := (if MAX_WAIT_SAMPLES < length w then tl w else w)\<rparr>)"

definition describe_blocker :: "lane_state \<Rightarrow> string" where
  "describe_blocker s = (case ln_running s of
     None \<Rightarrow> ''another action on this device''
   | Some r \<Rightarrow> ''the '' @ source_kind_name (is_kind (ra_source r)) @ [CHR 0x27] @ ''s '' @ ra_verb r @ '' is still running'')"

definition run_now :: "millis \<Rightarrow> queue_item \<Rightarrow> lane_state \<Rightarrow> lane_state" where
  "run_now now item s =
     emit_input (Ran (qi_token item))
       ((record_wait (now - qi_enqueued_at item) s)\<lparr>ln_running :=
          Some \<lparr>ra_token = qi_token item, ra_source = qi_source item, ra_verb = qi_verb item, ra_since = now\<rparr>\<rparr>)"

text \<open>The action's promise settles: the lane is free, the caller hears, the advance is due.\<close>

definition settle_action :: "lane_state \<Rightarrow> lane_state" where
  "settle_action s = (case ln_running s of
     None \<Rightarrow> s
   | Some r \<Rightarrow> emit_input (Finished (ra_token r)) (s\<lparr>ln_running := None, ln_due := ln_due s + 1\<rparr>))"

definition advance_lane :: "millis \<Rightarrow> lane_state \<Rightarrow> lane_state" where
  "advance_lane now s =
     (let s1 = s\<lparr>ln_due := ln_due s - 1\<rparr> in
      if ln_due s = 0 then s
      else if ln_running s1 \<noteq> None then s1
      else case ln_queue s1 of
        [] \<Rightarrow> s1
      | item # rest \<Rightarrow> run_now now item (s1\<lparr>ln_queue := rest\<rparr>))"

fun insert_sorted :: "queue_item list \<Rightarrow> queue_item \<Rightarrow> queue_item list" where
  "insert_sorted [] item = [item]"
| "insert_sorted (q # qs) item = (if qi_priority q > qi_priority item then item # q # qs else q # insert_sorted qs item)"

definition plural_s :: "nat \<Rightarrow> string" where
  "plural_s n = (if n = 1 then [] else ''s'')"

definition submit_action :: "millis \<Rightarrow> int \<Rightarrow> nat \<Rightarrow> input_source \<Rightarrow> string \<Rightarrow> lane_state \<Rightarrow> lane_state" where
  "submit_action now max_depth token src verb s =
     (let item = \<lparr>qi_token = token, qi_source = src, qi_verb = verb, qi_priority = PRIORITY_OF (is_kind src),
                  qi_enqueued_at = now\<rparr>;
          n = length (ln_queue s) in
      if ln_running s = None then run_now now item s
      else if max_depth \<le> int n then
        emit_input (Refused token (describe_blocker s @ '', and the queue for this device is already full (''
            @ show_int (int n) @ '' action'' @ plural_s n @ '' waiting)''))
          (s\<lparr>ln_refusals := ln_refusals s + 1\<rparr>)
      else s\<lparr>ln_queue := insert_sorted (ln_queue s) item\<rparr>)"

text \<open>\<open>((now - enqueuedAt) / 1000).toFixed(1)\<close> of the double nearest to the quotient; halves go up.\<close>

definition seconds_fixed1 :: "millis \<Rightarrow> string" where
  "seconds_fixed1 ms =
     (case finite_val (to_double False (of_int ms / 1000)) of
        None \<Rightarrow> ''NaN''
      | Some x \<Rightarrow> let n = \<lfloor>\<bar>x\<bar> * 10 + 1/2\<rfloor> in
          (if x < 0 then ''-'' else []) @ show_int (n div 10) @ ''.'' @ show_int (n mod 10))"

definition wait_expires :: "millis \<Rightarrow> nat \<Rightarrow> lane_state \<Rightarrow> lane_state" where
  "wait_expires now token s = (case find (\<lambda>q. qi_token q = token) (ln_queue s) of
     None \<Rightarrow> s
   | Some item \<Rightarrow>
       emit_input (Refused token (describe_blocker s @ '' (waited '' @ seconds_fixed1 (now - qi_enqueued_at item) @ '' s)''))
         (s\<lparr>ln_queue := remove1 item (ln_queue s), ln_refusals := ln_refusals s + 1\<rparr>))"

definition percentile :: "int list \<Rightarrow> jsnum \<Rightarrow> int" where
  "percentile samples p =
     (if samples = [] then 0
      else let sorted = sort samples;
               k = (case finite_val (js_mul p (js_of_int (int (length sorted)))) of None \<Rightarrow> -1 | Some x \<Rightarrow> \<lfloor>x\<rfloor>);
               idx = min (int (length sorted) - 1) k
           in if 0 \<le> idx then sorted ! nat idx else 0)"

definition arbiter_stats :: "lane_state \<Rightarrow> lane_stats" where
  "arbiter_stats s = \<lparr>ls_depth = length (ln_queue s), ls_running = ln_running s,
     ls_wait_p50 = percentile (ln_wait_samples s) (to_double False (1/2)),
     ls_wait_p95 = percentile (ln_wait_samples s) (to_double False (95/100)), ls_refusals = ln_refusals s\<rparr>"

section \<open>Reachable lanes\<close>

inductive lane_step :: "int \<Rightarrow> lane_state \<Rightarrow> lane_state \<Rightarrow> bool" for depth where
  submit: "lane_step depth s (submit_action now depth token src verb s)"
| settle: "lane_step depth s (settle_action s)"
| advance: "lane_step depth s (advance_lane now s)"
| expire: "lane_step depth s (wait_expires now token s)"

inductive lane_reachable :: "int \<Rightarrow> lane_state \<Rightarrow> bool" for depth where
  start: "lane_reachable depth new_lane"
| step: "lane_reachable depth s \<Longrightarrow> lane_step depth s s' \<Longrightarrow> lane_reachable depth s'"

inductive_cases lane_stepE: "lane_step depth s s'"

abbreviation by_priority :: "queue_item list \<Rightarrow> bool" where
  "by_priority qs \<equiv> sorted_wrt (\<lambda>a b. qi_priority a \<le> qi_priority b) qs"

text \<open>
  The queue is ordered by priority and bounded; when somebody waits the lane is busy or an advance is due; and
  every advance that is due was preceded by a settlement.
\<close>

definition lane_ok :: "int \<Rightarrow> lane_state \<Rightarrow> bool" where
  "lane_ok depth s \<longleftrightarrow> by_priority (ln_queue s) \<and> int (length (ln_queue s)) \<le> max 0 depth
     \<and> (ln_queue s \<noteq> [] \<longrightarrow> ln_running s \<noteq> None \<or> 0 < ln_due s) \<and> length (ln_wait_samples s) \<le> MAX_WAIT_SAMPLES"

lemma mset_insert_sorted [simp]: "mset (insert_sorted qs x) = add_mset x (mset qs)"
  by (induction qs) auto

lemma set_insert_sorted [simp]: "set (insert_sorted qs x) = insert x (set qs)"
  by (induction qs) auto

lemma length_insert_sorted [simp]: "length (insert_sorted qs x) = Suc (length qs)"
  by (induction qs) auto

lemma insert_sorted_nonempty [simp]: "insert_sorted qs x \<noteq> []"
  by (cases qs) auto

lemma by_priority_insert: "by_priority qs \<Longrightarrow> by_priority (insert_sorted qs x)"
  by (induction qs) (auto intro: less_imp_le order.trans)

text \<open>FIFO within a priority: the new item goes behind everything of its own priority.\<close>

lemma insert_sorted_split:
  "by_priority qs \<Longrightarrow> insert_sorted qs x = filter (\<lambda>q. qi_priority q \<le> qi_priority x) qs @ x # filter (\<lambda>q. qi_priority x < qi_priority q) qs"
proof (induction qs)
  case (Cons q qs)
  show ?case
  proof (cases "qi_priority q > qi_priority x")
    case True
    then have "\<forall>y \<in> set qs. qi_priority x < qi_priority y" using Cons.prems by auto
    then have "filter (\<lambda>q. qi_priority q \<le> qi_priority x) qs = []" "filter (\<lambda>q. qi_priority x < qi_priority q) qs = qs"
      by (auto simp: filter_empty_conv not_le)
    with True show ?thesis by simp
  next
    case False
    with Cons show ?thesis by simp
  qed
qed simp

lemma by_priority_remove1: "by_priority qs \<Longrightarrow> by_priority (remove1 x qs)"
  by (induction qs) (auto dest: notin_set_remove1 set_remove1_subset [THEN subsetD])

lemma emit_input_simps [simp]:
  "ln_queue (emit_input e s) = ln_queue s" "ln_running (emit_input e s) = ln_running s" "ln_due (emit_input e s) = ln_due s"
  "ln_wait_samples (emit_input e s) = ln_wait_samples s"
  by (simp_all add: emit_input_def)

lemma lane_ok_events [simp]: "lane_ok depth (emit_input e s) = lane_ok depth s"
  by (simp add: lane_ok_def)

lemma record_wait_simps [simp]:
  "ln_queue (record_wait ms s) = ln_queue s" "ln_running (record_wait ms s) = ln_running s"
  "ln_due (record_wait ms s) = ln_due s" "ln_refusals (record_wait ms s) = ln_refusals s"
  by (simp_all add: record_wait_def Let_def)

lemma record_wait_bound:
  "length (ln_wait_samples s) \<le> MAX_WAIT_SAMPLES \<Longrightarrow> length (ln_wait_samples (record_wait ms s)) \<le> MAX_WAIT_SAMPLES"
  by (auto simp: record_wait_def Let_def)

lemma lane_ok_run_now:
  "by_priority (ln_queue s) \<Longrightarrow> int (length (ln_queue s)) \<le> max 0 depth \<Longrightarrow> length (ln_wait_samples s) \<le> MAX_WAIT_SAMPLES
   \<Longrightarrow> lane_ok depth (run_now now item s)"
  using record_wait_bound [of s] by (auto simp: run_now_def lane_ok_def)

lemma lane_ok_submit: "lane_ok depth s \<Longrightarrow> lane_ok depth (submit_action now depth token src verb s)"
  by (auto simp: submit_action_def Let_def lane_ok_def [of depth s] intro!: lane_ok_run_now)
     (auto simp: lane_ok_def by_priority_insert)

lemma lane_ok_settle: "lane_ok depth s \<Longrightarrow> lane_ok depth (settle_action s)"
  by (auto simp: settle_action_def lane_ok_def split: option.splits)

lemma lane_ok_advance: "lane_ok depth s \<Longrightarrow> lane_ok depth (advance_lane now s)"
  by (cases "ln_queue s")
     (auto simp: advance_lane_def Let_def lane_ok_def [of depth s] intro!: lane_ok_run_now, auto simp: lane_ok_def)

lemma lane_ok_expire: "lane_ok depth s \<Longrightarrow> lane_ok depth (wait_expires now token s)"
  by (auto simp: wait_expires_def split: option.splits)
     (auto simp: lane_ok_def by_priority_remove1 length_remove1)

lemma lane_reachable_ok: "lane_reachable depth s \<Longrightarrow> lane_ok depth s"
proof (induction rule: lane_reachable.induct)
  case start
  show ?case by (simp add: lane_ok_def new_lane_def)
next
  case (step s s')
  from step.hyps(2) step.IH show ?case
    by (elim lane_stepE) (auto intro: lane_ok_submit lane_ok_settle lane_ok_advance lane_ok_expire)
qed

section \<open>Properties\<close>

text \<open>
  C10: In every reachable lane the waiting actions are in priority order and at most as many as the depth cap, and none is
  forgotten: while one waits, an action is running or an advance of the lane is due; a newly queued action stands behind
  everything of its own or a better priority and before everything worse, so equal priorities stay first come, first served.
\<close>

theorem lane_queue_discipline:
  assumes "lane_reachable depth s"
  shows "by_priority (ln_queue s) \<and> int (length (ln_queue s)) \<le> max 0 depth
    \<and> (ln_queue s \<noteq> [] \<longrightarrow> ln_running s \<noteq> None \<or> 0 < ln_due s)
    \<and> insert_sorted (ln_queue s) x =
        filter (\<lambda>q. qi_priority q \<le> qi_priority x) (ln_queue s) @ x # filter (\<lambda>q. qi_priority x < qi_priority q) (ln_queue s)"
  using lane_reachable_ok [OF assms] insert_sorted_split [of "ln_queue s" x] by (simp add: lane_ok_def)

definition demo_job_source :: input_source where
  "demo_job_source = \<lparr>is_kind = SJob, is_id = ''j'', is_user_id = None\<rparr>"

definition demo_user_source :: input_source where
  "demo_user_source = \<lparr>is_kind = SUser, is_id = ''c'', is_user_id = Some ''u''\<rparr>"

text \<open>A job's tap runs, another job's swipe waits, then a person's tap.\<close>

definition demo_lane :: lane_state where
  "demo_lane = submit_action 30 8 3 demo_user_source ''tap'' (submit_action 20 8 2 demo_job_source ''swipe''
     (submit_action 10 8 1 demo_job_source ''tap'' new_lane))"

lemma demo_lane_reachable: "lane_reachable 8 demo_lane"
  unfolding demo_lane_def
  by (intro lane_reachable.step [OF _ lane_step.submit] lane_reachable.start)

lemma demo_lane_state:
  "map qi_token (ln_queue demo_lane) = [3, 2]" "ln_running demo_lane =
     Some \<lparr>ra_token = 1, ra_source = demo_job_source, ra_verb = ''tap'', ra_since = 10\<rparr>" "ln_due demo_lane = 0"
  by (simp_all add: demo_lane_def submit_action_def run_now_def emit_input_def record_wait_def new_lane_def
      demo_job_source_def demo_user_source_def Let_def MAX_WAIT_SAMPLES_def)

theorem lane_queue_discipline_witness:
  "map qi_token (ln_queue demo_lane) = [3, 2] \<and> int (length (ln_queue demo_lane)) \<le> 8"
  using lane_queue_discipline [OF demo_lane_reachable] demo_lane_state(1) by simp

text \<open>One round of a caller that submits its next action as soon as the last one settles.\<close>

fun rounds :: "nat \<Rightarrow> millis \<Rightarrow> int \<Rightarrow> input_source \<Rightarrow> string \<Rightarrow> lane_state \<Rightarrow> lane_state" where
  "rounds 0 now depth src verb s = s"
| "rounds (Suc n) now depth src verb s =
     rounds n now depth src verb (advance_lane now (submit_action now depth n src verb (settle_action s)))"

text \<open>
  A caller that submits its next action in the continuation of the last one overtakes everybody: the lane is free but
  has not advanced yet, so the new action runs at once, and however often this repeats the waiting actions, whatever their
  priority, stay where they are until their budgets expire.
\<close>

theorem resubmission_starves_queue:
  assumes "ln_running s \<noteq> None"
  shows "ln_queue (rounds n now depth src verb s) = ln_queue s \<and> ln_running (rounds n now depth src verb s) \<noteq> None"
  using assms
proof (induction n arbitrary: s)
  case (Suc n)
  let ?s = "advance_lane now (submit_action now depth n src verb (settle_action s))"
  have q: "ln_queue ?s = ln_queue s" "ln_running ?s \<noteq> None"
    using Suc.prems by (auto simp: settle_action_def submit_action_def advance_lane_def run_now_def emit_input_def Let_def)
  from Suc.IH [OF q(2)] q(1) show ?case by simp
qed simp

theorem resubmission_starves_queue_witness:
  "map qi_token (ln_queue (rounds 100 40 8 demo_job_source ''tap'' demo_lane)) = [3, 2]"
  using resubmission_starves_queue [of demo_lane 100 40 8 demo_job_source "''tap''"] demo_lane_state by simp

end
