(* ===== verification/ExprSyntax.thy ===== *)
theory ExprSyntax
  imports JsValue
begin

text \<open>
  The expression language of workflow documents (\<open>packages/expr/src/ast.ts\<close>, \<open>parse.ts\<close>): the closed syntax
  tree, the tokeniser and the recursive-descent parser. A string is a list of code units below 256. The parser's recursion
  carries a counter; \<open>parse_budget\<close> is enough for every token list, so that \<open>parse\<close> never reports it spent.
\<close>

section \<open>The tree\<close>

datatype binop = OpAdd | OpSub | OpMul | OpDiv | OpMod | OpEq | OpNe | OpLt | OpLe | OpGt | OpGe | OpAnd | OpOr

datatype unop = OpNot | OpNeg

datatype root_name = RParams | RNodes | RInput | RRun | RNow | RRandom | RDevice

datatype literal = LStr string | LNum jsnum | LBool bool | LNull

datatype expr =
    Lit literal
  | Root root_name
  | Member expr string
  | Index expr expr
  | Unary unop expr
  | Bin binop expr expr
  | Cond expr expr expr
  | Call string "expr list"

definition ROOT_NAMES :: "(string \<times> root_name) list" where
  "ROOT_NAMES = [(''$params'', RParams), (''$nodes'', RNodes), (''$input'', RInput), (''$run'', RRun), (''$now'', RNow),
     (''$random'', RRandom), (''$device'', RDevice)]"

definition max_source_bytes :: nat where "max_source_bytes = 2000"
definition max_ast_nodes :: nat where "max_ast_nodes = 200"
definition max_depth :: nat where "max_depth = 20"
definition max_steps :: int where "max_steps = 10000"
definition max_string_bytes :: nat where "max_string_bytes = 65536"
definition max_array_length :: nat where "max_array_length = 10000"

text \<open>\<open>new TextEncoder().encode(s).length\<close>.\<close>

definition byte_length :: "string \<Rightarrow> nat" where
  "byte_length s = sum_list (map (\<lambda>c. if of_char c < (128 :: nat) then 1 else 2) s)"

definition TEXT_FUNCTIONS :: "string list" where
  "TEXT_FUNCTIONS = [''len'', ''lower'', ''upper'', ''trim'', ''contains'', ''startsWith'', ''endsWith'', ''split'', ''join'',
     ''replace'', ''slice'', ''padStart'', ''padEnd'']"

definition FUNCTION_NAMES :: "string list" where
  "FUNCTION_NAMES = TEXT_FUNCTIONS @ [''abs'', ''floor'', ''ceil'', ''round'', ''min'', ''max'', ''clamp'', ''toNumber'',
     ''first'', ''last'', ''at'', ''unique'', ''sort'', ''reverse'', ''count'', ''has'', ''keys'', ''get'',
     ''default'', ''coalesce'', ''isEmpty'', ''notEmpty'', ''toText'', ''toJson'', ''fromJson'', ''type'', ''pluck'', ''filterWhere'',
     ''rand'', ''now'']"

section \<open>Tokens\<close>

datatype token_kind = TNum | TStr | TIdent | TRoot | TPunct | TEof

record token =
  t_kind :: token_kind
  t_value :: string
  t_offset :: nat

datatype parse_fail =
    UnknownEscape string | Unterminated | UnknownRoot string | UnexpectedChar string
  | Expected string string | TooManyNodes | TooDeep | UnexpectedToken string | StringIndex
  | UnknownFunction string | BareIdentifier string | SourceTooLong

type_synonym parse_error = "parse_fail \<times> nat"

definition is_digit :: "char \<Rightarrow> bool" where
  "is_digit c \<longleftrightarrow> 48 \<le> (of_char c :: nat) \<and> of_char c \<le> (57 :: nat)"

definition is_ident_start :: "char \<Rightarrow> bool" where
  "is_ident_start c \<longleftrightarrow> (let k = of_char c :: nat in 97 \<le> k \<and> k \<le> 122 \<or> 65 \<le> k \<and> k \<le> 90 \<or> k = 95)"

definition is_ident_part :: "char \<Rightarrow> bool" where
  "is_ident_part c \<longleftrightarrow> is_ident_start c \<or> is_digit c"

definition blank :: "char \<Rightarrow> bool" where
  "blank c \<longleftrightarrow> c \<in> {CHR '' '', CHR 0x09, CHR 0x0A, CHR 0x0D}"

definition PUNCT_2 :: "string list" where
  "PUNCT_2 = [''&&'', ''||'', ''=='', ''!='', ''<='', ''>='']"

definition PUNCT_1 :: string where
  "PUNCT_1 = ''+-*/%!<>?:.()[],''"

text \<open>The body of a string literal that starts at offset \<open>start\<close>; \<open>j\<close> is the offset of the next character.\<close>

fun lex_string :: "char \<Rightarrow> nat \<Rightarrow> nat \<Rightarrow> string \<Rightarrow> parse_error + (string \<times> string)" where
  "lex_string q start j [] = Inl (Unterminated, start)"
| "lex_string q start j (c # cs) =
     (if c = q then Inr ([], cs)
      else if c = CHR 0x5C then
        (case cs of
           [] \<Rightarrow> Inl (UnknownEscape [], j)
         | e # cs' \<Rightarrow>
            (let out = (if e = CHR ''n'' then Some (CHR 0x0A) else if e = CHR ''t'' then Some (CHR 0x09)
                        else if e = CHR ''r'' then Some (CHR 0x0D)
                        else if e = CHR 0x5C \<or> e = CHR 0x22 \<or> e = CHR 0x27 then Some e else None)
             in case out of None \<Rightarrow> Inl (UnknownEscape [e], j)
                | Some o' \<Rightarrow> (case lex_string q start (j + 2) cs' of Inl x \<Rightarrow> Inl x | Inr (s, rest) \<Rightarrow> Inr (o' # s, rest))))
      else (case lex_string q start (j + 1) cs of Inl x \<Rightarrow> Inl x | Inr (s, rest) \<Rightarrow> Inr (c # s, rest)))"

definition lex_number :: "string \<Rightarrow> string" where
  "lex_number s =
     (let whole = takeWhile is_digit s; r = dropWhile is_digit s in
      case r of
        p # d # r' \<Rightarrow> if p = CHR ''.'' \<and> is_digit d then whole @ p # takeWhile is_digit (d # r') else whole
      | _ \<Rightarrow> whole)"

text \<open>One token at offset \<open>i\<close> of a text that does not start with a blank, and what is left.\<close>

definition lex_one :: "nat \<Rightarrow> char \<Rightarrow> string \<Rightarrow> parse_error + (token \<times> string)" where
  "lex_one i c cs =
     (let s = c # cs; tok = (\<lambda>k v n. Inr (\<lparr>t_kind = k, t_value = v, t_offset = i\<rparr>, drop n s)) in
      if is_digit c then (let v = lex_number s in tok TNum v (length v))
      else if c = CHR 0x22 \<or> c = CHR 0x27 then
        (case lex_string c i (i + 1) cs of Inl e \<Rightarrow> Inl e
         | Inr (v, rest) \<Rightarrow> Inr (\<lparr>t_kind = TStr, t_value = v, t_offset = i\<rparr>, rest))
      else if c = CHR ''$'' then
        (let v = c # takeWhile is_ident_part cs in
         if v \<in> set (map fst ROOT_NAMES) then tok TRoot v (length v) else Inl (UnknownRoot v, i))
      else if is_ident_start c then (let v = c # takeWhile is_ident_part cs in tok TIdent v (length v))
      else if take 2 s \<in> set PUNCT_2 then tok TPunct (take 2 s) 2
      else if c \<in> set PUNCT_1 then tok TPunct [c] 1
      else Inl (UnexpectedChar [c], i))"

lemma lex_string_shorter: "lex_string q start j s = Inr (v, rest) \<Longrightarrow> length rest < length s"
proof (induction q start j s arbitrary: v rest rule: lex_string.induct)
  case (2 q start j c cs)
  then show ?case
    by (fastforce simp: Let_def split: if_splits list.splits sum.splits option.splits)
qed simp

lemma lex_number_nonempty: "is_digit c \<Longrightarrow> lex_number (c # cs) \<noteq> []"
  by (simp add: lex_number_def Let_def split: list.split)

lemma lex_one_shorter: "lex_one i c cs = Inr (t, rest) \<Longrightarrow> length rest < Suc (length cs)"
  using lex_number_nonempty [of c cs]
  by (auto simp: lex_one_def Let_def dest: lex_string_shorter split: if_splits sum.splits)

function tokens_from :: "nat \<Rightarrow> string \<Rightarrow> parse_error + token list" where
  "tokens_from i s = (case s of
     [] \<Rightarrow> Inr [\<lparr>t_kind = TEof, t_value = [], t_offset = i\<rparr>]
   | c # cs \<Rightarrow>
      if blank c then tokens_from (i + 1) cs
      else (case lex_one i c cs of
         Inl e \<Rightarrow> Inl e
       | Inr (t, rest) \<Rightarrow>
          (case tokens_from (i + (length s - length rest)) rest of Inl e \<Rightarrow> Inl e | Inr ts \<Rightarrow> Inr (t # ts))))"
  by auto

termination
  by (relation "measure (\<lambda>(i, s). length s)") (auto dest: lex_one_shorter)

declare tokens_from.simps [simp del]

definition tokenize :: "string \<Rightarrow> parse_error + token list" where
  "tokenize s = tokens_from 0 s"

end
