(* ===== verification/ExprParse.thy ===== *)
theory ExprParse
  imports ExprSyntax
begin

text \<open>
  The recursive-descent parser (\<open>packages/expr/src/parse.ts\<close>). Its state is the tokens still ahead, whose first one
  \<open>peek\<close> shows, and the count of nodes made; an error carries its offset. \<open>Spent\<close> is the end of the recursion
  counter.
\<close>

section \<open>The parser\<close>

datatype 'a parsed = Spent | Failed parse_fail nat | Parsed 'a "token list" nat

definition pbind :: "'a parsed \<Rightarrow> ('a \<Rightarrow> token list \<Rightarrow> nat \<Rightarrow> 'b parsed) \<Rightarrow> 'b parsed" where
  "pbind r f = (case r of Spent \<Rightarrow> Spent | Failed e o' \<Rightarrow> Failed e o' | Parsed x ts n \<Rightarrow> f x ts n)"

lemma pbind_simps [simp]:
  "pbind Spent f = Spent" "pbind (Failed e i) f = Failed e i" "pbind (Parsed x ts n) f = f x ts n"
  by (simp_all add: pbind_def)

definition peek :: "token list \<Rightarrow> token" where
  "peek ts = (case ts of [] \<Rightarrow> \<lparr>t_kind = TEof, t_value = [], t_offset = 0\<rparr> | t # _ \<Rightarrow> t)"

definition at_punct :: "string \<Rightarrow> token list \<Rightarrow> bool" where
  "at_punct v ts \<longleftrightarrow> t_kind (peek ts) = TPunct \<and> t_value (peek ts) = v"

definition expect_failed :: "string \<Rightarrow> token list \<Rightarrow> 'a parsed" where
  "expect_failed what ts = (let v = t_value (peek ts) in Failed (Expected what (if v = [] then ''<end>'' else v)) (t_offset (peek ts)))"

definition expect_punct :: "string \<Rightarrow> token list \<Rightarrow> nat \<Rightarrow> unit parsed" where
  "expect_punct v ts n = (if at_punct v ts then Parsed () (tl ts) n else expect_failed v ts)"

definition expect_ident :: "token list \<Rightarrow> nat \<Rightarrow> token parsed" where
  "expect_ident ts n = (if t_kind (peek ts) = TIdent then Parsed (peek ts) (tl ts) n else expect_failed ''ident'' ts)"

definition make_node :: "'a \<Rightarrow> nat \<Rightarrow> token list \<Rightarrow> nat \<Rightarrow> 'a parsed" where
  "make_node e off ts n = (if max_ast_nodes < Suc n then Failed TooManyNodes off else Parsed e ts (Suc n))"

text \<open>The operators of each level of \<open>parseBinaryChain\<close>, loosest first, and the node each makes.\<close>

definition level_ops :: "nat \<Rightarrow> (string \<times> binop) list" where
  "level_ops l = (if l = 0 then [(''||'', OpOr)] else if l = 1 then [(''&&'', OpAnd)]
     else if l = 2 then [(''=='', OpEq), (''!='', OpNe)]
     else if l = 3 then [(''<'', OpLt), (''<='', OpLe), (''>'', OpGt), (''>='', OpGe)]
     else if l = 4 then [(''+'', OpAdd), (''-'', OpSub)]
     else [(''*'', OpMul), (''/'', OpDiv), (''%'', OpMod)])"

definition chain_op :: "nat \<Rightarrow> token list \<Rightarrow> binop option" where
  "chain_op l ts = (if t_kind (peek ts) = TPunct then map_of (level_ops l) (t_value (peek ts)) else None)"

definition unary_op :: "token list \<Rightarrow> unop option" where
  "unary_op ts = (if at_punct ''!'' ts then Some OpNot else if at_punct ''-'' ts then Some OpNeg else None)"

text \<open>\<open>Number(t.value)\<close> of a decimal literal.\<close>

definition digits_value :: "string \<Rightarrow> nat" where
  "digits_value s = foldl (\<lambda>a c. 10 * a + (of_char c - 48)) 0 s"

definition number_of_literal :: "string \<Rightarrow> jsnum" where
  "number_of_literal s =
     (let whole = takeWhile is_digit s; frac = drop 1 (dropWhile is_digit s) in
      to_double False (of_nat (digits_value (whole @ frac)) / 10 ^ length frac))"

definition KEYWORD_LITERALS :: "(string \<times> literal) list" where
  "KEYWORD_LITERALS = [(''true'', LBool True), (''false'', LBool False), (''null'', LNull)]"

definition string_literal :: "expr \<Rightarrow> bool" where
  "string_literal e = (case e of Lit (LStr _) \<Rightarrow> True | _ \<Rightarrow> False)"

text \<open>
  One production per method. A method calls others through its first argument, which is given the production to
  run; \<open>GLevel 6\<close> is \<open>parseUnary\<close>, the level below the last operators.
\<close>

datatype production =
    GExpr | GLevel nat | GChain nat nat expr | GUnary | GPostfix | GPostfixLoop expr | GPrimary | GArgs string nat "expr list"

type_synonym parser = "production \<Rightarrow> nat \<Rightarrow> token list \<Rightarrow> nat \<Rightarrow> expr parsed"

definition parse_expr :: "parser \<Rightarrow> nat \<Rightarrow> token list \<Rightarrow> nat \<Rightarrow> expr parsed" where
  "parse_expr self d ts n =
     (if max_depth < d then Failed TooDeep (t_offset (peek ts))
      else pbind (self (GLevel 0) d ts n) (\<lambda>c ts1 n1.
        if at_punct ''?'' ts1 then
          pbind (self GExpr (d + 1) (tl ts1) n1) (\<lambda>a ts2 n2.
          pbind (expect_punct '':'' ts2 n2) (\<lambda>_ ts3 n3.
          pbind (self GExpr (d + 1) ts3 n3) (\<lambda>b ts4 n4.
            make_node (Cond c a b) (t_offset (peek ts)) ts4 n4)))
        else Parsed c ts1 n1))"

definition parse_level :: "parser \<Rightarrow> nat \<Rightarrow> nat \<Rightarrow> token list \<Rightarrow> nat \<Rightarrow> expr parsed" where
  "parse_level self l d ts n =
     (if 6 \<le> l then self GUnary d ts n
      else pbind (self (GLevel (l + 1)) d ts n) (\<lambda>e ts1 n1. self (GChain l (t_offset (peek ts)) e) d ts1 n1))"

definition parse_chain :: "parser \<Rightarrow> nat \<Rightarrow> nat \<Rightarrow> expr \<Rightarrow> nat \<Rightarrow> token list \<Rightarrow> nat \<Rightarrow> expr parsed" where
  "parse_chain self l off e d ts n =
     (case chain_op l ts of
        None \<Rightarrow> Parsed e ts n
      | Some op \<Rightarrow>
          pbind (self (GLevel (l + 1)) d (tl ts) n) (\<lambda>r ts1 n1.
          pbind (make_node (Bin op e r) off ts1 n1) (\<lambda>e' ts2 n2. self (GChain l off e') d ts2 n2)))"

definition parse_unary :: "parser \<Rightarrow> nat \<Rightarrow> token list \<Rightarrow> nat \<Rightarrow> expr parsed" where
  "parse_unary self d ts n =
     (case unary_op ts of
        Some op \<Rightarrow>
          if max_depth < d + 1 then Failed TooDeep (t_offset (peek ts))
          else pbind (self GUnary (d + 1) (tl ts) n) (\<lambda>e ts1 n1. make_node (Unary op e) (t_offset (peek ts)) ts1 n1)
      | None \<Rightarrow> self GPostfix d ts n)"

definition parse_postfix :: "parser \<Rightarrow> nat \<Rightarrow> token list \<Rightarrow> nat \<Rightarrow> expr parsed" where
  "parse_postfix self d ts n = pbind (self GPrimary d ts n) (\<lambda>e ts1 n1. self (GPostfixLoop e) d ts1 n1)"

definition postfix_loop :: "parser \<Rightarrow> expr \<Rightarrow> nat \<Rightarrow> token list \<Rightarrow> nat \<Rightarrow> expr parsed" where
  "postfix_loop self e d ts n =
     (if at_punct ''.'' ts then
        pbind (expect_ident (tl ts) n) (\<lambda>t ts1 n1.
        pbind (make_node (Member e (t_value t)) (t_offset t) ts1 n1) (\<lambda>e' ts2 n2. self (GPostfixLoop e') d ts2 n2))
      else if at_punct ''['' ts then
        pbind (self GExpr (d + 1) (tl ts) n) (\<lambda>i ts1 n1.
          if string_literal i then Failed StringIndex (t_offset (peek ts))
          else pbind (expect_punct '']'' ts1 n1) (\<lambda>_ ts2 n2.
            pbind (make_node (Index e i) (t_offset (peek ts)) ts2 n2) (\<lambda>e' ts3 n3. self (GPostfixLoop e') d ts3 n3)))
      else Parsed e ts n)"

definition close_call :: "string \<Rightarrow> nat \<Rightarrow> expr list \<Rightarrow> token list \<Rightarrow> nat \<Rightarrow> expr parsed" where
  "close_call f off args ts n = pbind (expect_punct '')'' ts n) (\<lambda>_ ts1 n1. make_node (Call f args) off ts1 n1)"

definition parse_primary :: "parser \<Rightarrow> nat \<Rightarrow> token list \<Rightarrow> nat \<Rightarrow> expr parsed" where
  "parse_primary self d ts n =
     (let t = peek ts; v = t_value t; off = t_offset t in
      case t_kind t of
        TNum \<Rightarrow> make_node (Lit (LNum (number_of_literal v))) off (tl ts) n
      | TStr \<Rightarrow> make_node (Lit (LStr v)) off (tl ts) n
      | TRoot \<Rightarrow> make_node (Root (the (map_of ROOT_NAMES v))) off (tl ts) n
      | TIdent \<Rightarrow>
         (case map_of KEYWORD_LITERALS v of
            Some l \<Rightarrow> make_node (Lit l) off (tl ts) n
          | None \<Rightarrow>
              if at_punct ''('' (tl ts) then
                (if v \<notin> set FUNCTION_NAMES then Failed (UnknownFunction v) off
                 else if at_punct '')'' (tl (tl ts)) then close_call v off [] (tl (tl ts)) n
                 else self (GArgs v off []) (d + 1) (tl (tl ts)) n)
              else Failed (BareIdentifier v) off)
      | TPunct \<Rightarrow>
          if v = ''('' then
            pbind (self GExpr (d + 1) (tl ts) n) (\<lambda>e ts1 n1.
            pbind (expect_punct '')'' ts1 n1) (\<lambda>_ ts2 n2. Parsed e ts2 n2))
          else Failed (UnexpectedToken v) off
      | TEof \<Rightarrow> Failed (UnexpectedToken ''<end>'') off)"

definition parse_args :: "parser \<Rightarrow> string \<Rightarrow> nat \<Rightarrow> expr list \<Rightarrow> nat \<Rightarrow> token list \<Rightarrow> nat \<Rightarrow> expr parsed" where
  "parse_args self f off args d ts n =
     pbind (self GExpr d ts n) (\<lambda>e ts1 n1.
       if at_punct '','' ts1 then self (GArgs f off (args @ [e])) d (tl ts1) n1
       else close_call f off (args @ [e]) ts1 n1)"

primrec run_parser :: "nat \<Rightarrow> parser" where
  "run_parser 0 = (\<lambda>_ _ _ _. Spent)"
| "run_parser (Suc k) = (\<lambda>g. case g of
     GExpr \<Rightarrow> parse_expr (run_parser k)
   | GLevel l \<Rightarrow> parse_level (run_parser k) l
   | GChain l off e \<Rightarrow> parse_chain (run_parser k) l off e
   | GUnary \<Rightarrow> parse_unary (run_parser k)
   | GPostfix \<Rightarrow> parse_postfix (run_parser k)
   | GPostfixLoop e \<Rightarrow> postfix_loop (run_parser k) e
   | GPrimary \<Rightarrow> parse_primary (run_parser k)
   | GArgs f off args \<Rightarrow> parse_args (run_parser k) f off args)"

definition parse_budget :: "token list \<Rightarrow> nat" where
  "parse_budget ts = 16 * length ts + 11"

definition parse_program :: "token list \<Rightarrow> expr parsed" where
  "parse_program ts =
     pbind (run_parser (parse_budget ts) GExpr 0 ts 0) (\<lambda>e ts1 n1.
       if t_kind (peek ts1) = TEof then Parsed e ts1 n1
       else Failed (UnexpectedToken (t_value (peek ts1))) (t_offset (peek ts1)))"

definition parse :: "string \<Rightarrow> expr parsed" where
  "parse source =
     (if max_source_bytes < byte_length source then Failed SourceTooLong 0
      else case tokenize source of Inl (e, off) \<Rightarrow> Failed e off | Inr ts \<Rightarrow> parse_program ts)"

section \<open>What the parser produces\<close>

fun nodes :: "expr \<Rightarrow> nat" where
  "nodes (Lit _) = 1"
| "nodes (Root _) = 1"
| "nodes (Member e _) = Suc (nodes e)"
| "nodes (Index e i) = Suc (nodes e + nodes i)"
| "nodes (Unary _ e) = Suc (nodes e)"
| "nodes (Bin _ l r) = Suc (nodes l + nodes r)"
| "nodes (Cond c a b) = Suc (nodes c + nodes a + nodes b)"
| "nodes (Call _ args) = Suc (sum_list (map nodes args))"

text \<open>A closed tree calls only functions of the table and never indexes with a literal string.\<close>

fun closed_expr :: "expr \<Rightarrow> bool" where
  "closed_expr (Lit _) = True"
| "closed_expr (Root _) = True"
| "closed_expr (Member e _) = closed_expr e"
| "closed_expr (Index e i) = (closed_expr e \<and> closed_expr i \<and> \<not> string_literal i)"
| "closed_expr (Unary _ e) = closed_expr e"
| "closed_expr (Bin _ l r) = (closed_expr l \<and> closed_expr r)"
| "closed_expr (Cond c a b) = (closed_expr c \<and> closed_expr a \<and> closed_expr b)"
| "closed_expr (Call f args) = (f \<in> set FUNCTION_NAMES \<and> list_all closed_expr args)"

text \<open>How deep branches, indices, operands of unary operators and arguments are nested.\<close>

fun nesting :: "expr \<Rightarrow> nat" where
  "nesting (Lit _) = 0"
| "nesting (Root _) = 0"
| "nesting (Member e _) = nesting e"
| "nesting (Index e i) = max (nesting e) (Suc (nesting i))"
| "nesting (Unary _ e) = Suc (nesting e)"
| "nesting (Bin _ l r) = max (nesting l) (nesting r)"
| "nesting (Cond c a b) = max (nesting c) (Suc (max (nesting a) (nesting b)))"
| "nesting (Call _ args) = fold max (map (\<lambda>a. Suc (nesting a)) args) 0"

lemma fold_max_le: "fold max xs (a :: nat) \<le> b \<longleftrightarrow> a \<le> b \<and> (\<forall>x \<in> set xs. x \<le> b)"
  by (induction xs arbitrary: a) auto

lemma arguments_fit:
  "d \<le> 20 \<Longrightarrow> list_all (\<lambda>h. d + nesting h \<le> 20) args \<Longrightarrow> d + fold max (map (\<lambda>a. Suc (nesting a)) args) 0 \<le> 21"
  using fold_max_le [of "map (\<lambda>a. Suc (nesting a)) args" 0 "21 - d"] by (fastforce simp: list_all_iff)

text \<open>
  What a production owes: it takes tokens off the front, it counts the nodes it makes and stops at the limit, it
  builds a closed tree out of closed parts, and it stays within the nesting limit. \<open>held\<close> is the tree, or the arguments, it
  was given to extend, and \<open>rank\<close> bounds its calls on the same tokens.
\<close>

definition rank :: "production \<Rightarrow> nat" where
  "rank g = (case g of GExpr \<Rightarrow> 10 | GLevel l \<Rightarrow> 3 + (6 - l) | GChain _ _ _ \<Rightarrow> 10 | GUnary \<Rightarrow> 2 | GPostfix \<Rightarrow> 1
     | GPostfixLoop _ \<Rightarrow> 10 | GPrimary \<Rightarrow> 0 | GArgs _ _ _ \<Rightarrow> 12)"

definition consumes :: "production \<Rightarrow> nat" where
  "consumes g = (case g of GChain _ _ _ \<Rightarrow> 0 | GPostfixLoop _ \<Rightarrow> 0 | _ \<Rightarrow> 1)"

definition held :: "production \<Rightarrow> expr list" where
  "held g = (case g of GChain _ _ e \<Rightarrow> [e] | GPostfixLoop e \<Rightarrow> [e] | GArgs _ _ es \<Rightarrow> es | _ \<Rightarrow> [])"

definition held_closed :: "production \<Rightarrow> bool" where
  "held_closed g \<longleftrightarrow> list_all closed_expr (held g) \<and> (case g of GArgs f _ _ \<Rightarrow> f \<in> set FUNCTION_NAMES | _ \<Rightarrow> True)"

definition checks_depth :: "production \<Rightarrow> bool" where
  "checks_depth g = (case g of GExpr \<Rightarrow> True | GArgs _ _ _ \<Rightarrow> True | _ \<Rightarrow> False)"

definition depth_slack :: "production \<Rightarrow> nat" where
  "depth_slack g = (case g of GArgs _ _ _ \<Rightarrow> 21 | _ \<Rightarrow> 20)"

definition owes :: "production \<Rightarrow> nat \<Rightarrow> token list \<Rightarrow> nat \<Rightarrow> expr \<Rightarrow> token list \<Rightarrow> nat \<Rightarrow> bool" where
  "owes g d ts n e ts' n' \<longleftrightarrow>
     length ts' + consumes g \<le> length ts \<and> n' + sum_list (map nodes (held g)) = n + nodes e \<and> (n \<le> 200 \<longrightarrow> n' \<le> 200)
     \<and> (held_closed g \<longrightarrow> closed_expr e) \<and> (checks_depth g \<longrightarrow> d \<le> 20)
     \<and> (d \<le> 20 \<and> list_all (\<lambda>h. d + nesting h \<le> 20) (held g) \<longrightarrow> d + nesting e \<le> depth_slack g)"

lemmas owes_simps = owes_def rank_def consumes_def held_def held_closed_def depth_slack_def checks_depth_def nat_add_max_right fold_max_le

definition outcome :: "'a parsed \<Rightarrow> bool \<Rightarrow> ('a \<Rightarrow> token list \<Rightarrow> nat \<Rightarrow> bool) \<Rightarrow> bool" where
  "outcome r spent Q = (case r of Spent \<Rightarrow> spent | Failed _ _ \<Rightarrow> True | Parsed x ts n \<Rightarrow> Q x ts n)"

lemma outcome_simps [simp]:
  "outcome Spent s Q = s" "outcome (Failed e i) s Q" "outcome (Parsed x ts n) s Q = Q x ts n"
  "outcome (pbind r f) s Q = outcome r s (\<lambda>x ts n. outcome (f x ts n) s Q)"
  by (simp_all add: outcome_def pbind_def split: parsed.splits)

lemma outcome_make_node [simp]: "outcome (make_node e off ts n) s Q = (n < 200 \<longrightarrow> Q e ts (Suc n))"
  by (auto simp: make_node_def max_ast_nodes_def)

lemma outcome_expect [simp]:
  "outcome (expect_punct v ts n) s Q = (at_punct v ts \<longrightarrow> Q () (tl ts) n)"
  "outcome (expect_ident ts n) s P = (t_kind (peek ts) = TIdent \<longrightarrow> P (peek ts) (tl ts) n)"
  by (simp_all add: expect_punct_def expect_ident_def expect_failed_def Let_def)

lemma some_token:
  "at_punct v ts \<Longrightarrow> Suc (length (tl ts)) = length ts" "chain_op l ts = Some op \<Longrightarrow> Suc (length (tl ts)) = length ts"
  "unary_op ts = Some u \<Longrightarrow> Suc (length (tl ts)) = length ts" "t_kind (peek ts) = t \<Longrightarrow> t \<noteq> TEof \<Longrightarrow> Suc (length (tl ts)) = length ts"
  by (auto simp: at_punct_def peek_def chain_op_def unary_op_def split: if_splits list.splits)

declare length_tl [simp del]

definition run_ok :: "nat \<Rightarrow> production \<Rightarrow> nat \<Rightarrow> token list \<Rightarrow> nat \<Rightarrow> expr parsed \<Rightarrow> bool" where
  "run_ok k g d ts n r \<longleftrightarrow> outcome r (k \<le> 16 * length ts + rank g) (owes g d ts n)"

locale production_rules =
  fixes k :: nat and self :: parser
  assumes self_ok: "run_ok k g d ts n (self g d ts n)"
begin

lemma self_outcome:
  assumes "k \<le> 16 * length ts + rank g \<Longrightarrow> s" "\<And>e ts' n'. owes g d ts n e ts' n' \<Longrightarrow> Q e ts' n'"
  shows "outcome (self g d ts n) s Q"
  using self_ok [of g d ts n] assms by (auto simp: run_ok_def outcome_def split: parsed.splits)

lemma expr_ok: "run_ok (Suc k) GExpr d ts n (parse_expr self d ts n)"
  unfolding run_ok_def parse_expr_def max_depth_def
  by (auto intro!: self_outcome simp: owes_simps dest!: some_token(1) some_token(4))

lemma level_ok: "run_ok (Suc k) (GLevel l) d ts n (parse_level self l d ts n)"
  unfolding run_ok_def parse_level_def
  by (auto intro!: self_outcome simp: owes_simps)

lemma chain_ok: "run_ok (Suc k) (GChain l off e) d ts n (parse_chain self l off e d ts n)"
  unfolding run_ok_def parse_chain_def
  by (auto intro!: self_outcome simp: owes_simps dest!: some_token(2) split: option.split)

lemma unary_ok: "run_ok (Suc k) GUnary d ts n (parse_unary self d ts n)"
  unfolding run_ok_def parse_unary_def max_depth_def
  by (auto intro!: self_outcome simp: owes_simps dest!: some_token(3) split: option.split)

lemma postfix_ok: "run_ok (Suc k) GPostfix d ts n (parse_postfix self d ts n)"
  unfolding run_ok_def parse_postfix_def
  by (auto intro!: self_outcome simp: owes_simps)

lemma postfix_loop_ok: "run_ok (Suc k) (GPostfixLoop e) d ts n (postfix_loop self e d ts n)"
  unfolding run_ok_def postfix_loop_def
  by (auto intro!: self_outcome simp: owes_simps dest!: some_token(1) some_token(4))

lemma primary_ok: "run_ok (Suc k) GPrimary d ts n (parse_primary self d ts n)"
proof (cases "t_kind (peek ts)")
  case TIdent
  then show ?thesis using some_token(4) [OF TIdent]
    unfolding run_ok_def parse_primary_def close_call_def Let_def
    by (auto intro!: self_outcome simp: owes_simps dest!: some_token(1) split: option.split)
next
  case TPunct
  then show ?thesis using some_token(4) [OF TPunct]
    unfolding run_ok_def parse_primary_def Let_def
    by (auto intro!: self_outcome simp: owes_simps dest!: some_token(1))
qed (auto simp: run_ok_def parse_primary_def Let_def owes_simps dest!: some_token(4))

lemma args_ok: "run_ok (Suc k) (GArgs f off args) d ts n (parse_args self f off args d ts n)"
  unfolding run_ok_def parse_args_def close_call_def
  by (auto intro!: self_outcome arguments_fit simp: owes_simps dest!: some_token(1))

end

lemma run_parser_ok: "run_ok k g d ts n (run_parser k g d ts n)"
proof (induction k arbitrary: g d ts n)
  case 0
  show ?case by (simp add: run_ok_def)
next
  case (Suc k)
  then have rules: "production_rules k (run_parser k)" by unfold_locales
  note ok = production_rules.expr_ok [OF rules] production_rules.level_ok [OF rules] production_rules.chain_ok [OF rules]
    production_rules.unary_ok [OF rules] production_rules.postfix_ok [OF rules] production_rules.postfix_loop_ok [OF rules]
    production_rules.primary_ok [OF rules] production_rules.args_ok [OF rules]
  show ?case by (cases g) (simp_all add: ok)
qed

interpretation productions: production_rules k "run_parser k" for k
  by unfold_locales (rule run_parser_ok)

text \<open>The final form: from the start symbol, with the budget of its tokens.\<close>

lemma parse_program_outcome:
  "parse_program ts \<noteq> Spent"
  "parse_program ts = Parsed e ts' n \<Longrightarrow> n = nodes e \<and> n \<le> 200 \<and> closed_expr e \<and> nesting e \<le> 20"
  using run_parser_ok [of "parse_budget ts" GExpr 0 ts 0]
  by (auto simp: parse_program_def run_ok_def outcome_def owes_simps parse_budget_def pbind_def split: parsed.splits if_splits)

text \<open>
  C30: Whatever text it is given, the parser comes to an answer: the budget of its recursion is never spent, so
  every source gives a tree or an error with its offset.
\<close>

theorem parse_always_answers: "parse source \<noteq> Spent"
  by (simp add: parse_def parse_program_outcome(1) split: sum.split)

lemma parse_closed_facts:
  assumes "parse source = Parsed e ts n"
  shows "n = nodes e \<and> n \<le> 200 \<and> closed_expr e \<and> nesting e \<le> 20"
proof -
  obtain toks where "parse_program toks = Parsed e ts n"
    using assms by (auto simp: parse_def split: if_splits sum.splits)
  then show ?thesis by (rule parse_program_outcome(2))
qed

text \<open>
  C8: Only closed expressions come out of the parser. A parsed tree has exactly the counted number of nodes, at most
  200; it calls only functions of the closed table, it is indexed by no literal string, and branches, indices, arguments and
  operands of unary operators are nested at most 20 deep.
\<close>

theorem parse_closed:
  assumes "parse source = Parsed e ts n"
  shows "n = nodes e \<and> n \<le> 200 \<and> closed_expr e \<and> nesting e \<le> 20"
  using assms by (rule parse_closed_facts)

lemma run_parser_numeral:
  "run_parser (numeral k) g = (case g of
       GExpr \<Rightarrow> parse_expr (run_parser (pred_numeral k))
     | GLevel l \<Rightarrow> parse_level (run_parser (pred_numeral k)) l
     | GChain l off e \<Rightarrow> parse_chain (run_parser (pred_numeral k)) l off e
     | GUnary \<Rightarrow> parse_unary (run_parser (pred_numeral k))
     | GPostfix \<Rightarrow> parse_postfix (run_parser (pred_numeral k))
     | GPostfixLoop e \<Rightarrow> postfix_loop (run_parser (pred_numeral k)) e
     | GPrimary \<Rightarrow> parse_primary (run_parser (pred_numeral k))
     | GArgs f off args \<Rightarrow> parse_args (run_parser (pred_numeral k)) f off args)"
  by (simp add: numeral_eq_Suc)

lemmas lexing = tokenize_def tokens_from.simps blank_def lex_one_def lex_number_def is_digit_def is_ident_start_def
  is_ident_part_def Let_def PUNCT_1_def PUNCT_2_def ROOT_NAMES_def

lemmas parsing = parse_program_def parse_budget_def run_parser_numeral parse_expr_def parse_level_def parse_chain_def
  parse_unary_def max_depth_def max_ast_nodes_def unary_op_def at_punct_def peek_def chain_op_def level_ops_def
  parse_postfix_def postfix_loop_def parse_primary_def make_node_def Let_def expect_ident_def expect_punct_def

lemma demo_tokens:
  "tokenize ''!$run.a'' = Inr [\<lparr>t_kind = TPunct, t_value = ''!'', t_offset = 0\<rparr>, \<lparr>t_kind = TRoot, t_value = ''$run'', t_offset = 1\<rparr>,
     \<lparr>t_kind = TPunct, t_value = ''.'', t_offset = 5\<rparr>, \<lparr>t_kind = TIdent, t_value = ''a'', t_offset = 6\<rparr>,
     \<lparr>t_kind = TEof, t_value = [], t_offset = 7\<rparr>]"
  by (simp add: lexing)

lemma demo_parse:
  "parse ''!$run.a'' = Parsed (Unary OpNot (Member (Root RRun) ''a'')) [\<lparr>t_kind = TEof, t_value = [], t_offset = 7\<rparr>] 3"
  by (simp add: parse_def demo_tokens max_source_bytes_def byte_length_def parsing ROOT_NAMES_def)

theorem parse_closed_witness:
  "nodes (Unary OpNot (Member (Root RRun) ''a'')) = 3 \<and> closed_expr (Unary OpNot (Member (Root RRun) ''a''))"
  using parse_closed [OF demo_parse] by simp

end
