(* ===== verification/ExprValue.thy ===== *)
theory ExprValue
  imports ExprSyntax
begin

text \<open>
  The values an expression computes with, and how numbers and values become text. An array or object carries the
  identity \<open>===\<close> compares; equal identities mean the same object, hence the same contents.
\<close>

section \<open>Values\<close>

datatype rval =
    VUndef
  | VNull
  | VBool bool
  | VNum jsnum
  | VStr string
  | VArr nat "rval list"
  | VObj nat "(string \<times> rval) list"

definition own_property :: "(string \<times> rval) list \<Rightarrow> string \<Rightarrow> bool" where
  "own_property ps k \<longleftrightarrow> k \<in> set (map fst ps)"

definition get_property :: "(string \<times> rval) list \<Rightarrow> string \<Rightarrow> rval" where
  "get_property ps k = coalesce (map_of ps k) VUndef"

text \<open>\<open>Boolean(v)\<close> and \<open>a === b\<close>.\<close>

fun truthy_val :: "rval \<Rightarrow> bool" where
  "truthy_val VUndef = False"
| "truthy_val VNull = False"
| "truthy_val (VBool b) = b"
| "truthy_val (VNum x) = (x \<noteq> JNaN \<and> finite_val x \<noteq> Some 0)"
| "truthy_val (VStr s) = (s \<noteq> [])"
| "truthy_val _ = True"

fun strict_eq :: "rval \<Rightarrow> rval \<Rightarrow> bool" where
  "strict_eq VUndef VUndef = True"
| "strict_eq VNull VNull = True"
| "strict_eq (VBool a) (VBool b) = (a = b)"
| "strict_eq (VNum a) (VNum b) = js_num_eq a b"
| "strict_eq (VStr a) (VStr b) = (a = b)"
| "strict_eq (VArr i _) (VArr j _) = (i = j)"
| "strict_eq (VObj i _) (VObj j _) = (i = j)"
| "strict_eq _ _ = False"

section \<open>Numbers as text\<close>

text \<open>
  \<open>String(x)\<close> of a number: the fewest digits whose value rounds back to it. \<open>dec_exp q\<close> is the \<open>n\<close> with
  \<open>10^(n-1) \<le> q < 10^n\<close>; a double is at least \<open>2^-1074\<close>, so 400 scalings are enough.
\<close>

fun leading_zeros :: "nat \<Rightarrow> rat \<Rightarrow> nat" where
  "leading_zeros 0 q = 0"
| "leading_zeros (Suc k) q = (if 1 \<le> q * 10 then 0 else Suc (leading_zeros k (q * 10)))"

definition dec_exp :: "rat \<Rightarrow> int" where
  "dec_exp q = (if 1 \<le> q then int (length (nat_digits (nat \<lfloor>q\<rfloor>))) else - int (leading_zeros 400 q))"

definition pow10 :: "int \<Rightarrow> rat" where
  "pow10 k = (if 0 \<le> k then 10 ^ nat k else 1 / 10 ^ nat (- k))"

definition denotes :: "rat \<Rightarrow> nat \<Rightarrow> int \<Rightarrow> int \<Rightarrow> bool" where
  "denotes q k n s \<longleftrightarrow> to_double False (of_int s * pow10 (n - int k)) = JFin q"

definition k_digits :: "rat \<Rightarrow> nat \<Rightarrow> int \<Rightarrow> int option" where
  "k_digits q k n =
     (let scaled = q / pow10 (n - int k); lo = \<lfloor>scaled\<rfloor>; hi = lo + 1;
          good = filter (denotes q k n) (if scaled - of_int lo \<le> 1/2 then [lo, hi] else [hi, lo])
      in case good of [] \<Rightarrow> None | s # _ \<Rightarrow> Some s)"

text \<open>Digits and decimal exponent; a carry to \<open>10^k\<close> is one digit of the next exponent.\<close>

fun shortest_digits :: "nat \<Rightarrow> nat \<Rightarrow> rat \<Rightarrow> int \<Rightarrow> string \<times> int" where
  "shortest_digits 0 k q n = (nat_digits (nat \<lfloor>q / pow10 (n - int k)\<rfloor>), n)"
| "shortest_digits (Suc m) k q n =
     (case k_digits q k n of
        Some s \<Rightarrow> if s = 10 ^ k then (''1'', n + 1) else (nat_digits (nat s), n)
      | None \<Rightarrow> shortest_digits m (k + 1) q n)"

definition layout_digits :: "string \<Rightarrow> int \<Rightarrow> string" where
  "layout_digits ds n =
     (let k = int (length ds); e = n - 1;
          ex = ''e'' @ (if e < 0 then ''-'' else ''+'') @ nat_digits (nat \<bar>e\<bar>) in
      if k \<le> n \<and> n \<le> 21 then ds @ replicate (nat (n - k)) (CHR ''0'')
      else if 0 < n \<and> n \<le> 21 then take (nat n) ds @ ''.'' @ drop (nat n) ds
      else if - 6 < n \<and> n \<le> 0 then ''0.'' @ replicate (nat (- n)) (CHR ''0'') @ ds
      else if k = 1 then ds @ ex
      else take 1 ds @ ''.'' @ drop 1 ds @ ex)"

definition positive_text :: "rat \<Rightarrow> string" where
  "positive_text q = (case shortest_digits 17 1 q (dec_exp q) of (ds, n) \<Rightarrow> layout_digits ds n)"

definition num_text :: "jsnum \<Rightarrow> string" where
  "num_text x = (case x of JNaN \<Rightarrow> ''NaN'' | JInf s \<Rightarrow> if s then ''-Infinity'' else ''Infinity'' | JNegZero \<Rightarrow> ''0''
     | JFin q \<Rightarrow> if q = 0 then ''0'' else if q < 0 then CHR ''-'' # positive_text (- q) else positive_text q)"

text \<open>
  \<open>String(v)\<close>. An array joins its elements with commas, \<open>null\<close> and \<open>undefined\<close> being empty; an
  object without a prototype has no conversion and the engine throws, which is \<open>None\<close>.
\<close>

fun value_text :: "rval \<Rightarrow> string option" where
  "value_text VUndef = Some ''undefined''"
| "value_text VNull = Some ''null''"
| "value_text (VBool b) = Some (if b then ''true'' else ''false'')"
| "value_text (VNum x) = Some (num_text x)"
| "value_text (VStr s) = Some s"
| "value_text (VArr _ xs) =
     (case xs of
        [] \<Rightarrow> Some []
      | x # ys \<Rightarrow>
         foldl (\<lambda>acc t. case (acc, t) of (Some a, Some b) \<Rightarrow> Some (a @ '','' @ b) | _ \<Rightarrow> None)
           (if x = VNull \<or> x = VUndef then Some [] else value_text x)
           (map (\<lambda>y. if y = VNull \<or> y = VUndef then Some [] else value_text y) ys))"
| "value_text (VObj _ _) = None"

end
