(* ===== verification/ExprRandom.thy ===== *)
theory ExprRandom
  imports JsValue "HOL-Library.Word"
begin

text \<open>
  The reproducible random numbers of a workflow step (\<open>packages/expr/src/random.ts\<close>, and \<open>nextDraw\<close> of
  \<open>functions.ts\<close>): mulberry32 over 32-bit words. \<open>>>>\<close> shifts in zeros, \<open>Math.imul\<close> and \<open>| 0\<close>
  are arithmetic modulo \<open>2^32\<close>.
\<close>

unbundle bit_operations_syntax

type_synonym word32 = "32 word"

definition mix :: "word32 \<Rightarrow> word32" where
  "mix state =
     (let t0 = state + 0x6d2b79f5;
          t1 = (t0 XOR drop_bit 15 t0) * (t0 OR 1);
          t2 = t1 XOR (t1 + (t1 XOR drop_bit 7 t1) * (t1 OR 61))
      in t2 XOR drop_bit 14 t2)"

text \<open>\<open>(... >>> 0) / 4294967296\<close>.\<close>

definition unit_interval :: "word32 \<Rightarrow> jsnum" where
  "unit_interval w = js_div (js_of_int (uint w)) (JFin 4294967296)"

definition mulberry32 :: "word32 \<Rightarrow> jsnum" where
  "mulberry32 state = unit_interval (mix state)"

text \<open>\<open>x | 0\<close>: the integer part modulo \<open>2^32\<close>; NaN and the infinities become zero.\<close>

definition to_int32 :: "jsnum \<Rightarrow> word32" where
  "to_int32 x = (case finite_val x of None \<Rightarrow> 0 | Some q \<Rightarrow> word_of_int (rat_trunc q))"

definition fold_seed :: "word32 \<Rightarrow> word32 \<Rightarrow> word32" where
  "fold_seed seed i = (seed * 0x9e3779b1) XOR i"

definition derive_random :: "jsnum \<Rightarrow> jsnum \<Rightarrow> jsnum" where
  "derive_random seed seq = mulberry32 (fold_seed (to_int32 seed) (to_int32 seq))"

definition js_floor :: "jsnum \<Rightarrow> jsnum" where
  "js_floor x = (case x of JFin q \<Rightarrow> JFin (of_int \<lfloor>q\<rfloor>) | _ \<Rightarrow> x)"

text \<open>The \<open>i\<close>-th draw of a step whose own random number is \<open>r\<close>.\<close>

definition next_draw :: "jsnum \<Rightarrow> nat \<Rightarrow> jsnum" where
  "next_draw r i = mulberry32 (fold_seed (to_int32 (js_floor (js_mul r (JFin 4294967296)))) (of_nat i))"

section \<open>Exact fractions\<close>

text \<open>A fraction \<open>n / 2^j\<close> with \<open>n\<close> below \<open>2^53\<close> is a double: no rounding takes place.\<close>

lemma quotient_dyadic:
  assumes "0 < n"
  shows "\<exists>m i. quotient_of (of_nat n / 2 ^ j) = (int m, 2 ^ i) \<and> 0 < m \<and> m \<le> n \<and> i \<le> j \<and> (of_nat n / 2 ^ j :: rat) = of_nat m / 2 ^ i"
  using assms
proof (induction j arbitrary: n)
  case 0
  have "quotient_of (of_nat n) = (int n, 1)" using quotient_of_int [of "int n"] by (simp add: Rat.of_int_def)
  with 0 show ?case by (intro exI [of _ n] exI [of _ 0]) simp
next
  case (Suc j)
  show ?case
  proof (cases "even n")
    case True
    then obtain m where m: "n = 2 * m" by (elim evenE)
    then have "(of_nat n / 2 ^ Suc j :: rat) = of_nat m / 2 ^ j" by simp
    with Suc.IH [of m] Suc.prems m show ?thesis by fastforce
  next
    case False
    have "quotient_of (of_nat n / 2 ^ Suc j) = (int n, 2 ^ Suc j)"
    proof -
      have "coprime (int n) (2 ^ Suc j)" using False by simp
      moreover have "(of_nat n / 2 ^ Suc j :: rat) = Fract (int n) (2 ^ Suc j)"
        by (simp add: Fract_of_int_quotient)
      ultimately show ?thesis by (simp add: quotient_of_Fract Rat.normalize_def)
    qed
    with Suc.prems show ?thesis by (intro exI [of _ n] exI [of _ "Suc j"]) simp
  qed
qed

lemma bit_len_power2: "bit_len (2 ^ i) = Suc i"
proof -
  let ?b = "bit_len (2 ^ i)"
  have b: "2 ^ (?b - 1) \<le> (2 :: nat) ^ i" "(2 :: nat) ^ i < 2 ^ ?b" "0 < ?b" using bit_len_bounds [of "2 ^ i"] by simp_all
  from b(1) have "?b - 1 \<le> i" by (rule power_le_imp_le_exp [rotated]) simp
  moreover from b(2) have "i < ?b" by (rule power_less_imp_less_exp [rotated]) simp
  ultimately show ?thesis using b(3) by linarith
qed

lemma bit_len_le: "0 < n \<Longrightarrow> n < 2 ^ k \<Longrightarrow> bit_len n \<le> k"
proof -
  assume n: "0 < n" "n < 2 ^ k"
  from bit_len_bounds [OF n(1)] n(2) have "(2 :: nat) ^ (bit_len n - 1) < 2 ^ k" "0 < bit_len n" by linarith+
  then show ?thesis using power_less_imp_less_exp [of "2 :: nat" "bit_len n - 1" k] by linarith
qed

lemma to_double_dyadic:
  assumes n: "0 < n" "n < 2 ^ 53" and j: "j \<le> 1000"
  shows "to_double neg (of_nat n / 2 ^ j) = JFin (of_nat n / 2 ^ j)"
proof -
  let ?q = "of_nat n / 2 ^ j :: rat"
  obtain m i where mi: "quotient_of ?q = (int m, 2 ^ i)" "0 < m" "m \<le> n" "i \<le> j" "?q = of_nat m / 2 ^ i"
    using quotient_dyadic [OF n(1), of j] by blast
  have pos: "0 < ?q" using n by simp
  define k where "k = ulp_exp ?q"
  have "bit_len m \<le> 53" using mi(2,3) n(2) by (intro bit_len_le) simp_all
  moreover have "bit_len (nat (2 ^ i)) = Suc i" using bit_len_power2 [of i] by (simp add: nat_power_eq)
  ultimately have k: "k \<le> - int i"
    using mi(1,4) j by (simp add: k_def ulp_exp_def Let_def)
  have "?q / pow2 k = of_int (int m * 2 ^ (nat (- k) - i))"
  proof -
    have "(2 :: rat) ^ nat (- k) = 2 ^ i * 2 ^ (nat (- k) - i)" using k by (simp flip: power_add)
    then show ?thesis using k by (cases "k = 0") (simp_all add: mi(5) pow2_def)
  qed
  then have "of_int (round_half_even (?q / pow2 k)) * pow2 k = ?q"
    by (metis nonzero_eq_divide_eq pow2_ne round_half_even_int)
  moreover have "?q < pow2 1024"
  proof -
    have "?q \<le> of_nat n" by (simp add: divide_le_eq mult_le_cancel_left1)
    also have "of_nat n < (2 :: rat) ^ 53" using n(2) by (metis of_nat_less_iff of_nat_numeral of_nat_power)
    also have "(2 :: rat) ^ 53 < 2 ^ 1024" by (rule power_strict_increasing) simp_all
    finally show ?thesis by (simp add: pow2_def)
  qed
  moreover have "\<bar>?q\<bar> = ?q" "?q \<noteq> 0" "sgn ?q = 1" using pos n by simp_all
  ultimately show ?thesis by (simp only: to_double_def Let_def flip: k_def) simp
qed

lemma unat_word32: "unat w < 2 ^ 32" for w :: word32
  using unsigned_less [of w, where ?'a = nat] by simp

lemma unsigned_rat_nonneg [simp]: "\<not> (unsigned (w :: word32) :: rat) < 0"
  by (metis not_less of_nat_0_le_iff of_nat_unat)

lemma unit_interval_exact: "unit_interval w = JFin (of_int (uint w) / 4294967296)"
proof -
  have i: "js_of_int (uint w) = JFin (of_int (uint w))"
    using uint_bounded [of w] by (intro js_of_int_exact) simp
  show ?thesis
  proof (cases "uint w = 0")
    case True
    then show ?thesis using i by (simp add: unit_interval_def js_div_def to_double_def)
  next
    case False
    then have "0 < unat w" by (metis gr0I unat_eq_zero uint_0_iff)
    then have "to_double False (of_nat (unat w) / 2 ^ 32) = JFin (of_nat (unat w) / 2 ^ 32)"
      using unat_word32 [of w] by (intro to_double_dyadic) simp_all
    then show ?thesis using i by (simp add: unit_interval_def js_div_def)
  qed
qed

text \<open>
  Every random number of a step, and every draw, lies in the half-open unit interval, and is a multiple of
  \<open>2^-32\<close>, whatever the seed, the sequence number or the step's own number is (even NaN).
\<close>

theorem random_in_unit_interval:
  "(\<exists>q n. derive_random seed seq = JFin q \<and> 0 \<le> q \<and> q < 1 \<and> q = of_int n / 2 ^ 32)
   \<and> (\<exists>q n. next_draw r i = JFin q \<and> 0 \<le> q \<and> q < 1 \<and> q = of_int n / 2 ^ 32)"
proof -
  have "\<exists>q n. unit_interval v = JFin q \<and> 0 \<le> q \<and> q < 1 \<and> q = of_int n / 2 ^ 32" for v
  proof -
    have "(of_int (uint v) :: rat) < of_int (2 ^ 32)" using uint_bounded [of v] by (simp only: of_int_less_iff) simp
    moreover have "0 \<le> (of_int (uint v) :: rat)" by (simp only: of_int_0_le_iff uint_nonnegative)
    ultimately show ?thesis unfolding unit_interval_exact by (intro exI [of _ "of_int (uint v) / 2 ^ 32"] exI [of _ "uint v"]) simp
  qed
  then show ?thesis by (simp add: derive_random_def next_draw_def mulberry32_def)
qed

text \<open>
  The draws of a step lose nothing of its own number. Scaling \<open>$random\<close> back recovers all 32 bits it was made
  of, so the states from which two draws of a step are made differ whenever their indices differ modulo \<open>2^32\<close>, and two
  steps with different numbers draw from different states at the same index.
\<close>

theorem draws_keep_the_number:
  "next_draw (unit_interval w) i = mulberry32 (fold_seed w (of_nat i))
   \<and> (fold_seed w i' = fold_seed w j' \<longleftrightarrow> i' = j') \<and> (fold_seed w i' = fold_seed v i' \<longleftrightarrow> w = v)"
proof (intro conjI)
  have s: "to_int32 (js_floor (js_mul (unit_interval w) (JFin 4294967296))) = w"
  proof -
    have "to_double False (of_int (uint w)) = JFin (of_int (uint w))"
      using uint_bounded [of w] by (intro to_double_int) simp
    moreover have "\<not> sign_bit (JFin (of_int (uint w) / 4294967296))"
      by (simp add: divide_less_0_iff)
    ultimately have "js_mul (unit_interval w) (JFin 4294967296) = JFin (of_int (uint w))"
      by (simp add: unit_interval_exact js_mul_def)
    moreover have "\<lfloor>unsigned w :: rat\<rfloor> = uint w" by (metis floor_of_int of_int_uint)
    ultimately show ?thesis by (simp add: js_floor_def to_int32_def rat_trunc_def)
  qed
  then show "next_draw (unit_interval w) i = mulberry32 (fold_seed w (of_nat i))" by (simp add: next_draw_def)
  show "fold_seed w i' = fold_seed w j' \<longleftrightarrow> i' = j'"
    by (auto simp: fold_seed_def xor.assoc [symmetric] dest: arg_cong [where f = "\<lambda>x. (w * 0x9e3779b1) XOR x"])
  have one: "0x9e3779b1 * 0x0e8b2f51 = (1 :: word32)" by simp
  have cancel: "x * 0x9e3779b1 * 0x0e8b2f51 = x" for x :: word32 by (simp only: mult.assoc one mult_1_right)
  have "fold_seed w i' = fold_seed v i' \<Longrightarrow> w * 0x9e3779b1 = v * 0x9e3779b1"
    by (auto simp: fold_seed_def dest: arg_cong [where f = "\<lambda>x. x XOR i'"] simp: xor.assoc)
  moreover have "w * 0x9e3779b1 = v * 0x9e3779b1 \<Longrightarrow> w = v"
    by (drule arg_cong [where f = "\<lambda>x. x * 0x0e8b2f51"]) (simp only: cancel)
  ultimately show "fold_seed w i' = fold_seed v i' \<longleftrightarrow> w = v" by blast
qed

end
