(* ===== verification/ExprFunctions.thy ===== *)
theory ExprFunctions
  imports ExprParse ExprValue ExprRandom "HOL-Library.Sublist"
begin

text \<open>
  The closed function table of the expression language (\<open>packages/expr/src/functions.ts\<close>). A call runs on a state
  of fuel, draw counter and next free object identity, and may throw; what it did to the state before it threw stays done. Text is
  taken to be ASCII. \<open>library\<close> holds what is left to the engine: its limit on the length of a string, its sort (which chooses
  the calls of the comparator), its JSON writer and reader, and its grammar of numbers.
\<close>

section \<open>Runs\<close>

record ev =
  ev_fuel :: int
  ev_draws :: nat
  ev_next :: nat

datatype expr_error = LimitError string | TypeError string | EngineError string

type_synonym 'a run = "ev \<Rightarrow> (expr_error + 'a) \<times> ev"

definition ret :: "'a \<Rightarrow> 'a run" where
  "ret x = (\<lambda>s. (Inr x, s))"

definition throw :: "expr_error \<Rightarrow> 'a run" where
  "throw e = (\<lambda>s. (Inl e, s))"

definition andthen :: "'a run \<Rightarrow> ('a \<Rightarrow> 'b run) \<Rightarrow> 'b run" where
  "andthen m f = (\<lambda>s. case m s of (Inl e, s') \<Rightarrow> (Inl e, s') | (Inr x, s') \<Rightarrow> f x s')"

text \<open>\<open>Fuel.spend\<close>: the budget goes below zero before it throws.\<close>

definition spend :: "unit run" where
  "spend = (\<lambda>s. let s' = s\<lparr>ev_fuel := ev_fuel s - 1\<rparr> in
     if ev_fuel s' < 0 then (Inl (LimitError ''expression exceeded its evaluation fuel''), s') else (Inr (), s'))"

fun each_run :: "('a \<Rightarrow> 'b run) \<Rightarrow> 'a list \<Rightarrow> 'b list run" where
  "each_run f [] = ret []"
| "each_run f (x # xs) = andthen (f x) (\<lambda>y. andthen (each_run f xs) (\<lambda>ys. ret (y # ys)))"

lemma each_run_cong [fundef_cong]:
  "xs = ys \<Longrightarrow> (\<And>x. x \<in> set ys \<Longrightarrow> f x = g x) \<Longrightarrow> each_run f xs = each_run g ys"
  by (induction ys arbitrary: xs) auto

definition filter_run :: "('a \<Rightarrow> bool run) \<Rightarrow> 'a list \<Rightarrow> 'a list run" where
  "filter_run p xs = andthen (each_run (\<lambda>x. andthen (p x) (\<lambda>b. ret (b, x))) xs) (\<lambda>ys. ret (map snd (filter fst ys)))"

definition new_array :: "rval list \<Rightarrow> rval run" where
  "new_array xs = (\<lambda>s. (Inr (VArr (ev_next s) xs), s\<lparr>ev_next := Suc (ev_next s)\<rparr>))"

record library =
  max_engine_string :: nat
  engine_sort :: "(rval \<Rightarrow> rval \<Rightarrow> jsnum run) \<Rightarrow> rval list \<Rightarrow> rval list run"
  engine_stringify :: "rval \<Rightarrow> string"
  engine_parse :: "string \<Rightarrow> rval option"
  engine_number :: "string \<Rightarrow> jsnum"

section \<open>Argument checks\<close>

definition arg :: "nat \<Rightarrow> rval list \<Rightarrow> rval" where
  "arg i args = (if i < length args then args ! i else VUndef)"

definition need_str :: "string \<Rightarrow> rval \<Rightarrow> string run" where
  "need_str f v = (case v of VStr s \<Rightarrow> ret s | _ \<Rightarrow> throw (TypeError (f @ ''() requires a string'')))"

definition need_num :: "string \<Rightarrow> rval \<Rightarrow> jsnum run" where
  "need_num f v = (case v of VNum x \<Rightarrow> ret x | _ \<Rightarrow> throw (TypeError (f @ ''() requires a number'')))"

definition need_arr :: "string \<Rightarrow> rval \<Rightarrow> rval list run" where
  "need_arr f v = (case v of VArr _ xs \<Rightarrow> ret xs | _ \<Rightarrow> throw (TypeError (f @ ''() requires an array'')))"

definition need_obj :: "string \<Rightarrow> rval \<Rightarrow> (string \<times> rval) list run" where
  "need_obj f v = (case v of VObj _ ps \<Rightarrow> ret ps | _ \<Rightarrow> throw (TypeError (f @ ''() requires an object'')))"

text \<open>A string the engine can hold, within the limit of the language.\<close>

definition bound_string :: "library \<Rightarrow> string \<Rightarrow> string run" where
  "bound_string lib s =
     (if max_engine_string lib < length s then throw (EngineError ''invalid string length'')
      else if max_string_bytes < byte_length s then throw (LimitError ''string result exceeds the size limit'') else ret s)"

definition bound_array :: "'a list \<Rightarrow> 'a list run" where
  "bound_array xs = (if max_array_length < length xs then throw (LimitError ''array result exceeds the size limit'') else ret xs)"

definition num_of_nat :: "nat \<Rightarrow> rval" where
  "num_of_nat n = VNum (JFin (of_nat n))"

section \<open>Text\<close>

definition ascii_lower :: "char \<Rightarrow> char" where
  "ascii_lower c = (let k = of_char c :: nat in if 65 \<le> k \<and> k \<le> 90 then char_of (k + 32) else c)"

definition ascii_upper :: "char \<Rightarrow> char" where
  "ascii_upper c = (let k = of_char c :: nat in if 97 \<le> k \<and> k \<le> 122 then char_of (k - 32) else c)"

definition ascii_space :: "char \<Rightarrow> bool" where
  "ascii_space c \<longleftrightarrow> (let k = of_char c :: nat in 9 \<le> k \<and> k \<le> 13 \<or> k = 32)"

definition trim_text :: "string \<Rightarrow> string" where
  "trim_text s = rev (dropWhile ascii_space (rev (dropWhile ascii_space s)))"

definition has_substring :: "string \<Rightarrow> string \<Rightarrow> bool" where
  "has_substring s t \<longleftrightarrow> list_ex (prefix t) (suffixes s)"

text \<open>\<open>s.split(sep)\<close> for a separator that is not empty, with the part read so far; an empty one cuts every character.\<close>

function split_on :: "string \<Rightarrow> string \<Rightarrow> string \<Rightarrow> string list" where
  "split_on sep part s = (case s of
     [] \<Rightarrow> [part]
   | c # cs \<Rightarrow> if sep \<noteq> [] \<and> prefix sep s then part # split_on sep [] (drop (length sep) s) else split_on sep (part @ [c]) cs)"
  by auto

termination
  by (relation "measure (\<lambda>(sep, part, s). length s)") auto

declare split_on.simps [simp del]

definition split_text :: "string \<Rightarrow> string \<Rightarrow> string list" where
  "split_text s sep = (if sep = [] then map (\<lambda>c. [c]) s else split_on sep [] s)"

definition join_text :: "string \<Rightarrow> string list \<Rightarrow> string" where
  "join_text sep ss = (case ss of [] \<Rightarrow> [] | s # ss' \<Rightarrow> s @ concat (map (\<lambda>t. sep @ t) ss'))"

text \<open>The relative index of \<open>slice\<close>, and \<open>ToLength\<close>.\<close>

definition clamp_index :: "nat \<Rightarrow> jsnum \<Rightarrow> nat" where
  "clamp_index len x = (case x of
     JInf neg \<Rightarrow> if neg then 0 else len
   | JFin q \<Rightarrow> (let i = rat_trunc q in if i < 0 then nat (int len + i) else min (nat i) len)
   | _ \<Rightarrow> 0)"

definition slice_list :: "'a list \<Rightarrow> jsnum \<Rightarrow> jsnum option \<Rightarrow> 'a list" where
  "slice_list xs start stop =
     (let from = clamp_index (length xs) start;
          to = (case stop of None \<Rightarrow> length xs | Some e \<Rightarrow> clamp_index (length xs) e) in take (to - from) (drop from xs))"

definition to_length :: "jsnum \<Rightarrow> nat" where
  "to_length x = (case x of JInf neg \<Rightarrow> if neg then 0 else 2 ^ 53 - 1 | JFin q \<Rightarrow> min (nat (rat_trunc q)) (2 ^ 53 - 1) | _ \<Rightarrow> 0)"

definition pad_fill :: "nat \<Rightarrow> string \<Rightarrow> string" where
  "pad_fill n p = take n (concat (replicate (Suc (n div length p)) p))"

definition pad_text :: "bool \<Rightarrow> string \<Rightarrow> nat \<Rightarrow> string \<Rightarrow> string" where
  "pad_text at_start s n p =
     (if n \<le> length s \<or> p = [] then s
      else let fill = pad_fill (n - length s) p in if at_start then fill @ s else s @ fill)"

text \<open>The optional last argument of \<open>slice\<close> and of the two paddings.\<close>

definition optional :: "(rval \<Rightarrow> 'a run) \<Rightarrow> rval \<Rightarrow> 'a option run" where
  "optional need v = (if v = VUndef then ret None else andthen (need v) (\<lambda>x. ret (Some x)))"

definition string_of :: "rval \<Rightarrow> string run" where
  "string_of v = (case value_text v of Some s \<Rightarrow> ret s
     | None \<Rightarrow> throw (EngineError ''cannot convert object to primitive value''))"

definition text_function :: "library \<Rightarrow> string \<Rightarrow> rval list \<Rightarrow> rval run" where
  "text_function lib f args =
     (let v = arg 0 args; w = arg 1 args; x = arg 2 args in
      if f = ''len'' then andthen spend (\<lambda>_. case v of VStr s \<Rightarrow> ret (num_of_nat (length s))
        | _ \<Rightarrow> andthen (need_arr f v) (\<lambda>xs. ret (num_of_nat (length xs))))
      else if f = ''lower'' then andthen (need_str f v) (\<lambda>s. ret (VStr (map ascii_lower s)))
      else if f = ''upper'' then andthen (need_str f v) (\<lambda>s. ret (VStr (map ascii_upper s)))
      else if f = ''trim'' then andthen (need_str f v) (\<lambda>s. ret (VStr (trim_text s)))
      else if f = ''contains'' then andthen spend (\<lambda>_. case v of
          VStr s \<Rightarrow> andthen (need_str f w) (\<lambda>t. ret (VBool (has_substring s t)))
        | _ \<Rightarrow> andthen (need_arr f v) (\<lambda>xs. ret (VBool (list_ex (\<lambda>y. strict_eq y w) xs))))
      else if f = ''startsWith'' then andthen (need_str f v) (\<lambda>s. andthen (need_str f w) (\<lambda>t. ret (VBool (prefix t s))))
      else if f = ''endsWith'' then andthen (need_str f v) (\<lambda>s. andthen (need_str f w) (\<lambda>t. ret (VBool (suffix t s))))
      else if f = ''split'' then andthen (need_str f v) (\<lambda>s. andthen (need_str f w) (\<lambda>sep.
        andthen (bound_array (split_text s sep)) (\<lambda>parts.
        andthen (each_run (\<lambda>p. andthen spend (\<lambda>_. ret (VStr p))) parts) new_array)))
      else if f = ''join'' then andthen (need_arr f v) (\<lambda>xs.
        andthen (each_run (\<lambda>y. andthen spend (\<lambda>_. string_of y)) xs) (\<lambda>ss.
        andthen (need_str f w) (\<lambda>sep. andthen (bound_string lib (join_text sep ss)) (\<lambda>s. ret (VStr s)))))
      else if f = ''replace'' then andthen (need_str f v) (\<lambda>s. andthen (need_str f w) (\<lambda>old. andthen (need_str f x) (\<lambda>new.
        andthen (bound_string lib (join_text new (split_text s old))) (\<lambda>s'. ret (VStr s')))))
      else if f = ''slice'' then (case v of
          VStr s \<Rightarrow> andthen (need_num f w) (\<lambda>a. andthen (optional (need_num f) x) (\<lambda>b. ret (VStr (slice_list s a b))))
        | _ \<Rightarrow> andthen (need_arr f v) (\<lambda>xs. andthen (need_num f w) (\<lambda>a. andthen (optional (need_num f) x) (\<lambda>b.
            andthen (bound_array (slice_list xs a b)) new_array))))
      else andthen (need_str f v) (\<lambda>s. andthen (need_num f w) (\<lambda>n. andthen (optional (need_str f) x) (\<lambda>p.
        if length s < to_length n \<and> coalesce p '' '' \<noteq> [] \<and> max_engine_string lib < to_length n
        then throw (EngineError ''invalid string length'')
        else andthen (bound_string lib (pad_text (f = ''padStart'') s (to_length n) (coalesce p '' ''))) (\<lambda>s'. ret (VStr s'))))))"

section \<open>Numbers\<close>

definition js_abs :: "jsnum \<Rightarrow> jsnum" where
  "js_abs x = (case x of JNegZero \<Rightarrow> JFin 0 | JInf _ \<Rightarrow> JInf False | JFin q \<Rightarrow> JFin \<bar>q\<bar> | JNaN \<Rightarrow> JNaN)"

definition js_ceil :: "jsnum \<Rightarrow> jsnum" where
  "js_ceil x = (case x of JFin q \<Rightarrow> if q < 0 \<and> \<lceil>q\<rceil> = 0 then JNegZero else JFin (of_int \<lceil>q\<rceil>) | _ \<Rightarrow> x)"

definition js_round :: "jsnum \<Rightarrow> jsnum" where
  "js_round x = (case x of JFin q \<Rightarrow> (let i = \<lfloor>q + 1/2\<rfloor> in if q < 0 \<and> i = 0 then JNegZero else JFin (of_int i)) | _ \<Rightarrow> x)"

text \<open>\<open>Math.min\<close> and \<open>Math.max\<close> of two: NaN wins, and minus zero is below zero.\<close>

definition js_min :: "jsnum \<Rightarrow> jsnum \<Rightarrow> jsnum" where
  "js_min x y = (if x = JNaN \<or> y = JNaN then JNaN else if js_lt x y then x else if js_lt y x then y
     else if sign_bit x then x else y)"

definition js_max :: "jsnum \<Rightarrow> jsnum \<Rightarrow> jsnum" where
  "js_max x y = (if x = JNaN \<or> y = JNaN then JNaN else if js_lt x y then y else if js_lt y x then x
     else if sign_bit x then y else x)"

definition number_function :: "library \<Rightarrow> string \<Rightarrow> rval list \<Rightarrow> rval run" where
  "number_function lib f args =
     (let v = arg 0 args; one = (\<lambda>g. andthen (need_num f v) (\<lambda>x. ret (VNum (g x)))) in
      if f = ''abs'' then one js_abs
      else if f = ''floor'' then one js_floor
      else if f = ''ceil'' then one js_ceil
      else if f = ''round'' then one js_round
      else if f = ''min'' then andthen (each_run (need_num f) args) (\<lambda>xs. ret (VNum (foldl js_min (JInf False) xs)))
      else if f = ''max'' then andthen (each_run (need_num f) args) (\<lambda>xs. ret (VNum (foldl js_max (JInf True) xs)))
      else if f = ''clamp'' then andthen (need_num f v) (\<lambda>x. andthen (need_num f (arg 1 args)) (\<lambda>lo. andthen (need_num f (arg 2 args)) (\<lambda>hi.
        ret (VNum (js_min (js_max x lo) hi)))))
      else (case v of VNum _ \<Rightarrow> ret v
        | _ \<Rightarrow> andthen (need_str f v) (\<lambda>s. let n = engine_number lib s in
            if n = JNaN then throw (TypeError ''toNumber() could not parse a number'') else ret (VNum n))))"

section \<open>Arrays and objects\<close>

definition element :: "rval list \<Rightarrow> jsnum \<Rightarrow> rval" where
  "element xs i = (case int_of_num i of None \<Rightarrow> VUndef | Some k \<Rightarrow> if 0 \<le> k \<and> k < int (length xs) then xs ! nat k else VUndef)"

text \<open>What a \<open>Set\<close> compares with: \<open>===\<close>, except that NaN equals itself.\<close>

definition same_value_zero :: "rval \<Rightarrow> rval \<Rightarrow> bool" where
  "same_value_zero a b \<longleftrightarrow> strict_eq a b \<or> a = VNum JNaN \<and> b = VNum JNaN"

definition unique_values :: "rval list \<Rightarrow> rval list" where
  "unique_values xs = foldl (\<lambda>acc x. if list_ex (same_value_zero x) acc then acc else acc @ [x]) [] xs"

text \<open>\<open>Object.hasOwn\<close> and the read that follows it; an array's own keys are its indices and \<open>length\<close>.\<close>

definition index_key :: "string \<Rightarrow> nat option" where
  "index_key k = (if k \<noteq> [] \<and> list_all is_digit k \<and> k = nat_digits (digits_value k) then Some (digits_value k) else None)"

definition own_value :: "rval \<Rightarrow> string \<Rightarrow> rval option" where
  "own_value v k = (case v of
     VArr _ xs \<Rightarrow> if k = ''length'' then Some (num_of_nat (length xs))
       else (case index_key k of Some i \<Rightarrow> if i < length xs then Some (xs ! i) else None | None \<Rightarrow> None)
   | VObj _ ps \<Rightarrow> map_of ps k
   | _ \<Rightarrow> None)"

fun get_path :: "rval \<Rightarrow> string list \<Rightarrow> rval option run" where
  "get_path cur [] = ret (if cur = VUndef then None else Some cur)"
| "get_path cur (k # ks) = andthen spend (\<lambda>_. case own_value cur k of None \<Rightarrow> ret None | Some v \<Rightarrow> get_path v ks)"

definition empty_value :: "rval \<Rightarrow> bool" where
  "empty_value v = (case v of VUndef \<Rightarrow> True | VNull \<Rightarrow> True | VStr s \<Rightarrow> s = [] | VArr _ xs \<Rightarrow> xs = [] | VObj _ ps \<Rightarrow> ps = [] | _ \<Rightarrow> False)"

definition nullish :: "rval \<Rightarrow> bool" where
  "nullish v \<longleftrightarrow> v = VUndef \<or> v = VNull"

definition type_name :: "rval \<Rightarrow> string" where
  "type_name v = (case v of VUndef \<Rightarrow> ''null'' | VNull \<Rightarrow> ''null'' | VArr _ _ \<Rightarrow> ''array'' | VObj _ _ \<Rightarrow> ''object''
     | VBool _ \<Rightarrow> ''boolean'' | VNum _ \<Rightarrow> ''number'' | VStr _ \<Rightarrow> ''string'')"

fun text_less :: "string \<Rightarrow> string \<Rightarrow> bool" where
  "text_less _ [] = False"
| "text_less [] (c # cs) = True"
| "text_less (a # s) (b # t) = ((of_char a :: nat) < of_char b \<or> a = b \<and> text_less s t)"

definition natural_compare :: "rval \<Rightarrow> rval \<Rightarrow> jsnum run" where
  "natural_compare a b = (case (a, b) of
     (VNum x, VNum y) \<Rightarrow> ret (js_sub x y)
   | (VStr s, VStr t) \<Rightarrow> ret (JFin (if text_less s t then - 1 else if text_less t s then 1 else 0))
   | _ \<Rightarrow> throw (TypeError ''sort() requires a uniformly typed array of numbers or strings''))"

text \<open>
  A copy for the JSON writer. It is built in an ordinary object, where a key \<open>__proto__\<close> is not a property but the
  prototype: the value under it is walked and paid for, and lost.
\<close>

fun to_json_safe :: "rval \<Rightarrow> rval run" where
  "to_json_safe v = andthen spend (\<lambda>_. case v of
     VUndef \<Rightarrow> ret VNull
   | VArr _ xs \<Rightarrow> andthen (each_run to_json_safe xs) new_array
   | VObj _ ps \<Rightarrow> andthen (each_run (\<lambda>p. andthen (to_json_safe (snd p)) (\<lambda>u. ret (fst p, u))) ps)
       (\<lambda>qs s. (Inr (VObj (ev_next s) (filter (\<lambda>q. fst q \<noteq> ''__proto__'') qs)), s\<lparr>ev_next := Suc (ev_next s)\<rparr>))
   | _ \<Rightarrow> ret v)"

declare to_json_safe.simps [simp del]

text \<open>What the JSON reader returned, to a bounded depth and width; the first argument is how many levels are left.\<close>

primrec from_json_value :: "nat \<Rightarrow> rval \<Rightarrow> rval run" where
  "from_json_value 0 v = ret VUndef"
| "from_json_value (Suc n) v = (case v of
     VArr _ xs \<Rightarrow> andthen (each_run (from_json_value n) (take max_array_length xs)) new_array
   | VObj _ ps \<Rightarrow> andthen (each_run (\<lambda>p. andthen (from_json_value n (snd p)) (\<lambda>u. ret (fst p, u))) ps)
       (\<lambda>qs s. (Inr (VObj (ev_next s) qs), s\<lparr>ev_next := Suc (ev_next s)\<rparr>))
   | _ \<Rightarrow> ret v)"

definition array_function :: "library \<Rightarrow> string \<Rightarrow> rval list \<Rightarrow> rval run" where
  "array_function lib f args =
     (let v = arg 0 args; w = arg 1 args in
      if f = ''first'' then andthen (need_arr f v) (\<lambda>xs. ret (case xs of [] \<Rightarrow> VUndef | x # _ \<Rightarrow> x))
      else if f = ''last'' then andthen (need_arr f v) (\<lambda>xs. ret (if xs = [] then VUndef else last xs))
      else if f = ''at'' then andthen (need_arr f v) (\<lambda>xs. andthen (need_num f w) (\<lambda>i. ret (element xs i)))
      else if f = ''unique'' then andthen (need_arr f v) (\<lambda>xs. andthen (each_run (\<lambda>x. andthen spend (\<lambda>_. ret x)) xs) (\<lambda>ys.
        andthen (bound_array (unique_values ys)) new_array))
      else if f = ''sort'' then andthen (need_arr f v) (\<lambda>xs.
        andthen (engine_sort lib (\<lambda>a b. andthen spend (\<lambda>_. natural_compare a b)) xs) (\<lambda>ys. andthen (bound_array ys) new_array))
      else if f = ''reverse'' then andthen (need_arr f v) (\<lambda>xs. new_array (rev xs))
      else andthen spend (\<lambda>_. andthen (need_arr f v) (\<lambda>xs. ret (num_of_nat (length xs)))))"

definition value_function :: "library \<Rightarrow> string \<Rightarrow> rval list \<Rightarrow> rval run" where
  "value_function lib f args =
     (let v = arg 0 args; w = arg 1 args; x = arg 2 args in
      if f = ''has'' then andthen (need_obj f v) (\<lambda>ps. andthen (need_str f w) (\<lambda>k. ret (VBool (own_property ps k))))
      else if f = ''keys'' then andthen (need_obj f v) (\<lambda>ps. andthen (bound_array (map (VStr \<circ> fst) ps)) new_array)
      else if f = ''get'' then andthen (need_str f w) (\<lambda>p. andthen (get_path v (split_text p ''.'')) (\<lambda>r. ret (coalesce r x)))
      else if f = ''default'' then ret (if nullish v then w else v)
      else if f = ''coalesce'' then ret (case find (\<lambda>a. \<not> nullish a) args of None \<Rightarrow> VNull | Some a \<Rightarrow> a)
      else if f = ''isEmpty'' then ret (VBool (empty_value v))
      else if f = ''notEmpty'' then ret (VBool (\<not> empty_value v))
      else if f = ''toText'' then (if nullish v then ret (VStr []) else andthen (string_of v) (\<lambda>s. ret (VStr s)))
      else if f = ''toJson'' then andthen (to_json_safe v) (\<lambda>u.
        andthen (bound_string lib (engine_stringify lib u)) (\<lambda>s. ret (VStr s)))
      else if f = ''fromJson'' then andthen (need_str f v) (\<lambda>s. case engine_parse lib s of
          None \<Rightarrow> throw (TypeError ''fromJson() could not parse JSON'') | Some u \<Rightarrow> from_json_value (Suc max_depth) u)
      else ret (VStr (type_name v)))"

section \<open>Paths and gate operators\<close>

datatype gate_op = GEq | GNe | GLt | GLte | GGt | GGte | GContains | GNotContains | GStartsWith | GEndsWith
  | GExists | GNotExists | GIsEmpty | GNotEmpty | GLength

definition GATE_OPS :: "(string \<times> gate_op) list" where
  "GATE_OPS = [(''eq'', GEq), (''ne'', GNe), (''lt'', GLt), (''lte'', GLte), (''gt'', GGt), (''gte'', GGte), (''contains'', GContains),
     (''notContains'', GNotContains), (''startsWith'', GStartsWith), (''endsWith'', GEndsWith), (''exists'', GExists),
     (''notExists'', GNotExists), (''isEmpty'', GIsEmpty), (''notEmpty'', GNotEmpty), (''length'', GLength)]"

text \<open>Equality to a bounded depth; \<open>n\<close> is how many more levels may be entered.\<close>

fun gate_equal :: "nat \<Rightarrow> rval \<Rightarrow> rval \<Rightarrow> bool" where
  "gate_equal 0 a b = False"
| "gate_equal (Suc n) a b =
     (strict_eq a b \<or> (case (a, b) of
        (VArr _ xs, VArr _ ys) \<Rightarrow> length xs = length ys \<and> list_all2 (gate_equal n) xs ys
      | (VObj _ ps, VObj _ qs) \<Rightarrow> length ps = length qs
          \<and> list_all (\<lambda>(k, v). case map_of qs k of None \<Rightarrow> False | Some u \<Rightarrow> gate_equal n v u) ps
      | _ \<Rightarrow> False))"

definition gate_deep_equal :: "rval \<Rightarrow> rval \<Rightarrow> bool" where
  "gate_deep_equal a b = gate_equal (Suc max_depth) a b"

text \<open>\<open>None\<close> is a path that does not resolve.\<close>

fun walk_segments :: "rval \<Rightarrow> string list \<Rightarrow> rval option run" where
  "walk_segments cur [] = ret (Some cur)"
| "walk_segments cur (k # ks) = andthen spend (\<lambda>_. case cur of
     VArr _ xs \<Rightarrow> if k \<noteq> [] \<and> list_all is_digit k \<and> digits_value k < length xs then walk_segments (xs ! digits_value k) ks else ret None
   | VObj _ ps \<Rightarrow> (case map_of ps k of None \<Rightarrow> ret None | Some v \<Rightarrow> walk_segments v ks)
   | _ \<Rightarrow> ret None)"

definition path_walk :: "rval \<Rightarrow> string \<Rightarrow> rval option run" where
  "path_walk v p = (if p = [] then ret (Some v) else walk_segments v (split_text p ''.''))"

definition gate_order :: "(jsnum \<Rightarrow> jsnum \<Rightarrow> bool) \<Rightarrow> rval option \<Rightarrow> rval \<Rightarrow> bool" where
  "gate_order r left right = (case (left, right) of (Some (VNum a), VNum b) \<Rightarrow> a \<noteq> JNaN \<and> b \<noteq> JNaN \<and> r a b | _ \<Rightarrow> False)"

definition gate_contains :: "rval option \<Rightarrow> rval \<Rightarrow> bool" where
  "gate_contains left right = (case left of
     Some (VStr s) \<Rightarrow> (case right of VStr t \<Rightarrow> has_substring s t | _ \<Rightarrow> False)
   | Some (VArr _ xs) \<Rightarrow> list_ex (\<lambda>x. gate_deep_equal x right) xs
   | _ \<Rightarrow> False)"

definition gate_affix :: "(string \<Rightarrow> string \<Rightarrow> bool) \<Rightarrow> rval option \<Rightarrow> rval \<Rightarrow> bool" where
  "gate_affix r left right = (case (left, right) of (Some (VStr s), VStr t) \<Rightarrow> r t s | _ \<Rightarrow> False)"

definition gate_length :: "rval option \<Rightarrow> rval \<Rightarrow> bool" where
  "gate_length left right =
     (let len = (case left of Some (VStr s) \<Rightarrow> Some (length s) | Some (VArr _ xs) \<Rightarrow> Some (length xs) | _ \<Rightarrow> None) in
      case (len, right) of (Some n, VNum x) \<Rightarrow> finite_val x = Some (of_nat n) | _ \<Rightarrow> False)"

definition gate_compare :: "gate_op \<Rightarrow> rval option \<Rightarrow> rval \<Rightarrow> bool" where
  "gate_compare op left right =
     (let there = (case left of None \<Rightarrow> False | Some v \<Rightarrow> \<not> nullish v) in case op of
        GExists \<Rightarrow> there
      | GNotExists \<Rightarrow> \<not> there
      | GIsEmpty \<Rightarrow> (case left of None \<Rightarrow> True | Some v \<Rightarrow> empty_value v)
      | GNotEmpty \<Rightarrow> (case left of None \<Rightarrow> False | Some v \<Rightarrow> \<not> empty_value v)
      | GEq \<Rightarrow> (case left of None \<Rightarrow> False | Some v \<Rightarrow> gate_deep_equal v right)
      | GNe \<Rightarrow> (case left of None \<Rightarrow> False | Some v \<Rightarrow> \<not> gate_deep_equal v right)
      | GLt \<Rightarrow> gate_order js_lt left right
      | GLte \<Rightarrow> gate_order js_le left right
      | GGt \<Rightarrow> gate_order (\<lambda>a b. js_lt b a) left right
      | GGte \<Rightarrow> gate_order (\<lambda>a b. js_le b a) left right
      | GContains \<Rightarrow> gate_contains left right
      | GNotContains \<Rightarrow> \<not> gate_contains left right
      | GStartsWith \<Rightarrow> gate_affix prefix left right
      | GEndsWith \<Rightarrow> gate_affix suffix left right
      | GLength \<Rightarrow> gate_length left right)"

definition path_function :: "library \<Rightarrow> string \<Rightarrow> rval list \<Rightarrow> rval run" where
  "path_function lib f args =
     andthen (andthen (need_arr f (arg 0 args)) bound_array) (\<lambda>xs. andthen (need_str f (arg 1 args)) (\<lambda>p.
       if f = ''pluck'' then
         andthen (each_run (\<lambda>x. andthen spend (\<lambda>_. andthen (path_walk x p) (\<lambda>r. ret (coalesce r VUndef)))) xs) new_array
       else andthen (need_str f (arg 2 args)) (\<lambda>name. case map_of GATE_OPS name of
         None \<Rightarrow> throw (TypeError (''filterWhere() op must be one of the gate operators, got '' @ name))
       | Some op \<Rightarrow>
          andthen (filter_run (\<lambda>x. andthen spend (\<lambda>_. andthen (path_walk x p) (\<lambda>r. ret (gate_compare op r (arg 3 args))))) xs) (\<lambda>ys.
          andthen (bound_array ys) new_array))))"

section \<open>The table\<close>

definition NUMBER_FUNCTIONS :: "string list" where
  "NUMBER_FUNCTIONS = [''abs'', ''floor'', ''ceil'', ''round'', ''min'', ''max'', ''clamp'', ''toNumber'']"

definition ARRAY_FUNCTIONS :: "string list" where
  "ARRAY_FUNCTIONS = [''first'', ''last'', ''at'', ''unique'', ''sort'', ''reverse'', ''count'']"

definition VALUE_FUNCTIONS :: "string list" where
  "VALUE_FUNCTIONS = [''has'', ''keys'', ''get'', ''default'', ''coalesce'', ''isEmpty'', ''notEmpty'', ''toText'', ''toJson'', ''fromJson'', ''type'']"

definition PATH_FUNCTIONS :: "string list" where
  "PATH_FUNCTIONS = [''pluck'', ''filterWhere'']"

definition call_function :: "library \<Rightarrow> string \<Rightarrow> rval list \<Rightarrow> rval run" where
  "call_function lib f args =
     (if f \<in> set TEXT_FUNCTIONS then text_function lib f args
      else if f \<in> set NUMBER_FUNCTIONS then number_function lib f args
      else if f \<in> set ARRAY_FUNCTIONS then array_function lib f args
      else if f \<in> set VALUE_FUNCTIONS then value_function lib f args
      else if f \<in> set PATH_FUNCTIONS then path_function lib f args
      else throw (TypeError (''unknown function '' @ f)))"

end
