(* ===== verification/ExprEval.thy ===== *)
theory ExprEval
  imports ExprFunctions
begin

text \<open>
  The evaluator (\<open>packages/expr/src/eval.ts\<close>): a walk over the closed tree that spends one unit of fuel per node,
  per call and per comparison, over a scope of seven roots.
\<close>

section \<open>Evaluation\<close>

record scope =
  sc_params :: rval
  sc_nodes :: rval
  sc_input :: rval
  sc_run :: rval
  sc_now :: jsnum
  sc_random :: jsnum
  sc_device :: rval

definition root_value :: "scope \<Rightarrow> root_name \<Rightarrow> rval" where
  "root_value sc r = (case r of RParams \<Rightarrow> sc_params sc | RNodes \<Rightarrow> sc_nodes sc | RInput \<Rightarrow> sc_input sc | RRun \<Rightarrow> sc_run sc
     | RNow \<Rightarrow> VNum (sc_now sc) | RRandom \<Rightarrow> VNum (sc_random sc) | RDevice \<Rightarrow> sc_device sc)"

definition literal_value :: "literal \<Rightarrow> rval" where
  "literal_value l = (case l of LStr s \<Rightarrow> VStr s | LNum x \<Rightarrow> VNum x | LBool b \<Rightarrow> VBool b | LNull \<Rightarrow> VNull)"

definition op_num :: "string \<Rightarrow> rval \<Rightarrow> jsnum run" where
  "op_num op v = (case v of VNum x \<Rightarrow> ret x | _ \<Rightarrow> throw (TypeError (op @ '' requires a number'')))"

definition get_member :: "rval \<Rightarrow> string \<Rightarrow> rval" where
  "get_member v k = coalesce (own_value v k) VUndef"

definition get_index :: "rval \<Rightarrow> rval \<Rightarrow> rval" where
  "get_index v i = (case v of
     VArr _ xs \<Rightarrow> (case i of VNum x \<Rightarrow> element xs x | _ \<Rightarrow> VUndef)
   | VObj _ _ \<Rightarrow> (case i of VStr k \<Rightarrow> get_member v k | _ \<Rightarrow> VUndef)
   | _ \<Rightarrow> VUndef)"

definition add_values :: "library \<Rightarrow> rval \<Rightarrow> rval \<Rightarrow> rval run" where
  "add_values lib l r =
     (let text = (\<lambda>v. case v of VStr s \<Rightarrow> Some s | VNum x \<Rightarrow> Some (num_text x) | _ \<Rightarrow> None) in
      case (l, r) of
        (VNum x, VNum y) \<Rightarrow> ret (VNum (js_add x y))
      | _ \<Rightarrow> (case (text l, text r) of
          (Some s, Some t) \<Rightarrow> andthen (bound_string lib (s @ t)) (\<lambda>u. ret (VStr u))
        | _ \<Rightarrow> throw (TypeError ''\"+\" requires two numbers, or a string with a string or number'')))"

fun deep_equal :: "rval \<Rightarrow> rval \<Rightarrow> bool run"
  and deep_equal_list :: "rval list \<Rightarrow> rval list \<Rightarrow> bool run"
  and deep_equal_props :: "(string \<times> rval) list \<Rightarrow> (string \<times> rval) list \<Rightarrow> bool run"
where
  "deep_equal a b = andthen spend (\<lambda>_.
     if strict_eq a b then ret True
     else case (a, b) of
       (VArr _ xs, VArr _ ys) \<Rightarrow> if length xs \<noteq> length ys then ret False else deep_equal_list xs ys
     | (VObj _ ps, VObj _ qs) \<Rightarrow> if length ps \<noteq> length qs then ret False else deep_equal_props ps qs
     | _ \<Rightarrow> ret False)"
| "deep_equal_list (x # xs) (y # ys) = andthen (deep_equal x y) (\<lambda>b. if b then deep_equal_list xs ys else ret False)"
| "deep_equal_list _ _ = ret True"
| "deep_equal_props ((k, v) # ps) qs = (case map_of qs k of
     None \<Rightarrow> ret False
   | Some u \<Rightarrow> andthen (deep_equal v u) (\<lambda>b. if b then deep_equal_props ps qs else ret False))"
| "deep_equal_props [] qs = ret True"

declare deep_equal.simps [simp del]

definition compare_with :: "string \<Rightarrow> (jsnum \<Rightarrow> jsnum \<Rightarrow> rval) \<Rightarrow> rval \<Rightarrow> rval \<Rightarrow> rval run" where
  "compare_with op g l r = andthen (op_num op l) (\<lambda>x. andthen (op_num op r) (\<lambda>y. ret (g x y)))"

definition eval_bin :: "library \<Rightarrow> binop \<Rightarrow> rval \<Rightarrow> rval \<Rightarrow> rval run" where
  "eval_bin lib op l r = (case op of
     OpAdd \<Rightarrow> add_values lib l r
   | OpSub \<Rightarrow> compare_with ''-'' (\<lambda>x y. VNum (js_sub x y)) l r
   | OpMul \<Rightarrow> compare_with ''*'' (\<lambda>x y. VNum (js_mul x y)) l r
   | OpDiv \<Rightarrow> compare_with ''/'' (\<lambda>x y. VNum (js_div x y)) l r
   | OpMod \<Rightarrow> compare_with ''%'' (\<lambda>x y. VNum (js_mod x y)) l r
   | OpLt \<Rightarrow> compare_with ''<'' (\<lambda>x y. VBool (js_lt x y)) l r
   | OpLe \<Rightarrow> compare_with ''<='' (\<lambda>x y. VBool (js_le x y)) l r
   | OpGt \<Rightarrow> compare_with ''>'' (\<lambda>x y. VBool (js_lt y x)) l r
   | OpGe \<Rightarrow> compare_with ''>='' (\<lambda>x y. VBool (js_le y x)) l r
   | OpEq \<Rightarrow> andthen (deep_equal l r) (\<lambda>b. ret (VBool b))
   | OpNe \<Rightarrow> andthen (deep_equal l r) (\<lambda>b. ret (VBool (\<not> b)))
   | _ \<Rightarrow> throw (TypeError ''unsupported operator''))"

text \<open>\<open>rand()\<close> and \<open>now()\<close>: the draw is taken before the argument is looked at.\<close>

definition take_draw :: "scope \<Rightarrow> jsnum run" where
  "take_draw sc = (\<lambda>s. (Inr (next_draw (sc_random sc) (ev_draws s)), s\<lparr>ev_draws := Suc (ev_draws s)\<rparr>))"

definition scope_function :: "scope \<Rightarrow> string \<Rightarrow> rval list \<Rightarrow> rval run" where
  "scope_function sc f args =
     (if f = ''rand'' then andthen (take_draw sc) (\<lambda>r.
        if args = [] then ret (VNum r)
        else andthen (need_num f (arg 0 args)) (\<lambda>n.
          if \<not> js_lt (JFin 0) n then throw (TypeError (''rand(n) needs a positive count, got '' @ num_text n))
          else ret (VNum (js_floor (js_mul r n)))))
      else ret (VNum (sc_now sc)))"

definition apply_function :: "library \<Rightarrow> scope \<Rightarrow> string \<Rightarrow> rval list \<Rightarrow> rval run" where
  "apply_function lib sc f args = (if f = ''rand'' \<or> f = ''now'' then scope_function sc f args else call_function lib f args)"

fun eval_node :: "library \<Rightarrow> scope \<Rightarrow> expr \<Rightarrow> rval run" where
  "eval_node lib sc (Lit l) = andthen spend (\<lambda>_. ret (literal_value l))"
| "eval_node lib sc (Root r) = andthen spend (\<lambda>_. ret (root_value sc r))"
| "eval_node lib sc (Member e k) = andthen spend (\<lambda>_. andthen (eval_node lib sc e) (\<lambda>v. ret (get_member v k)))"
| "eval_node lib sc (Index e i) = andthen spend (\<lambda>_. andthen (eval_node lib sc e) (\<lambda>v.
     andthen (eval_node lib sc i) (\<lambda>w. ret (get_index v w))))"
| "eval_node lib sc (Unary op e) = andthen spend (\<lambda>_. andthen (eval_node lib sc e) (\<lambda>v.
     if op = OpNot then ret (VBool (\<not> truthy_val v)) else andthen (op_num ''-'' v) (\<lambda>x. ret (VNum (js_neg x)))))"
| "eval_node lib sc (Bin op l r) = andthen spend (\<lambda>_. andthen (eval_node lib sc l) (\<lambda>v.
     if op = OpAnd then (if truthy_val v then eval_node lib sc r else ret v)
     else if op = OpOr then (if truthy_val v then ret v else eval_node lib sc r)
     else andthen (eval_node lib sc r) (\<lambda>w. eval_bin lib op v w)))"
| "eval_node lib sc (Cond c a b) = andthen spend (\<lambda>_. andthen (eval_node lib sc c) (\<lambda>v.
     if truthy_val v then eval_node lib sc a else eval_node lib sc b))"
| "eval_node lib sc (Call f args) = andthen spend (\<lambda>_. andthen (each_run (eval_node lib sc) args) (\<lambda>vs.
     andthen spend (\<lambda>_. apply_function lib sc f vs)))"

definition evaluate :: "library \<Rightarrow> int \<Rightarrow> nat \<Rightarrow> nat \<Rightarrow> scope \<Rightarrow> expr \<Rightarrow> (expr_error + rval) \<times> ev" where
  "evaluate lib fuel draws next_id sc e = eval_node lib sc e \<lparr>ev_fuel = fuel, ev_draws = draws, ev_next = next_id\<rparr>"

section \<open>Fuel\<close>

text \<open>
  A run is steady when it respects its budget: it never adds fuel, it stops the moment the budget goes below zero,
  and unless it stops for want of fuel it does the same with more fuel.
\<close>

definition fuel_error :: expr_error where
  "fuel_error = LimitError ''expression exceeded its evaluation fuel''"

definition refuel :: "int \<Rightarrow> ev \<Rightarrow> ev" where
  "refuel k s = s\<lparr>ev_fuel := ev_fuel s + k\<rparr>"

definition steady :: "'a run \<Rightarrow> bool" where
  "steady m \<longleftrightarrow> (\<forall>s r s'. m s = (r, s') \<longrightarrow> ev_fuel s' \<le> ev_fuel s \<and> (0 \<le> ev_fuel s \<longrightarrow> - 1 \<le> ev_fuel s')
     \<and> (0 \<le> ev_fuel s \<longrightarrow> ev_fuel s' < 0 \<longrightarrow> r = Inl fuel_error)
     \<and> (r \<noteq> Inl fuel_error \<longrightarrow> (\<forall>k \<ge> 0. m (refuel k s) = (r, refuel k s'))))"

named_theorems steady_intros \<open>steady runs and their combinations\<close>

lemma steadyI:
  assumes "\<And>s r s'. m s = (r, s') \<Longrightarrow> ev_fuel s' \<le> ev_fuel s \<and> (0 \<le> ev_fuel s \<longrightarrow> - 1 \<le> ev_fuel s')
     \<and> (0 \<le> ev_fuel s \<longrightarrow> ev_fuel s' < 0 \<longrightarrow> r = Inl fuel_error)
     \<and> (r \<noteq> Inl fuel_error \<longrightarrow> (\<forall>k \<ge> 0. m (refuel k s) = (r, refuel k s')))"
  shows "steady m"
  using assms unfolding steady_def by blast

lemma steady_ret [steady_intros]: "steady (ret x)"
  by (rule steadyI) (auto simp: ret_def)

lemma steady_throw [steady_intros]: "steady (throw e)"
  by (rule steadyI) (auto simp: throw_def)

lemma steady_spend [steady_intros]: "steady spend"
  by (rule steadyI) (auto simp: spend_def Let_def refuel_def fuel_error_def split: if_splits)

lemma steady_new_array [steady_intros]: "steady (new_array xs)"
  by (rule steadyI) (auto simp: new_array_def refuel_def)

lemma steady_take_draw [steady_intros]: "steady (take_draw sc)"
  by (rule steadyI) (auto simp: take_draw_def refuel_def)

lemma steady_andthen [steady_intros]:
  assumes m: "steady m" and f: "\<And>x. steady (f x)"
  shows "steady (andthen m f)"
proof (rule steadyI)
  fix s r s' assume run: "andthen m f s = (r, s')"
  obtain q t where q: "m s = (q, t)" by (cases "m s")
  show "ev_fuel s' \<le> ev_fuel s \<and> (0 \<le> ev_fuel s \<longrightarrow> - 1 \<le> ev_fuel s')
     \<and> (0 \<le> ev_fuel s \<longrightarrow> ev_fuel s' < 0 \<longrightarrow> r = Inl fuel_error)
     \<and> (r \<noteq> Inl fuel_error \<longrightarrow> (\<forall>k \<ge> 0. andthen m f (refuel k s) = (r, refuel k s')))"
  proof (cases q)
    case (Inl e)
    with run q have "r = Inl e" "s' = t" by (simp_all add: andthen_def)
    with m q Inl show ?thesis unfolding steady_def andthen_def by fastforce
  next
    case (Inr x)
    with run q have fx: "f x t = (r, s')" by (simp add: andthen_def)
    from m q Inr have t: "ev_fuel t \<le> ev_fuel s" "0 \<le> ev_fuel s \<longrightarrow> 0 \<le> ev_fuel t"
      "\<forall>k \<ge> 0. m (refuel k s) = (Inr x, refuel k t)"
      unfolding steady_def by fastforce+
    from f [of x] fx have "ev_fuel s' \<le> ev_fuel t \<and> (0 \<le> ev_fuel t \<longrightarrow> - 1 \<le> ev_fuel s')
     \<and> (0 \<le> ev_fuel t \<longrightarrow> ev_fuel s' < 0 \<longrightarrow> r = Inl fuel_error)
     \<and> (r \<noteq> Inl fuel_error \<longrightarrow> (\<forall>k \<ge> 0. f x (refuel k t) = (r, refuel k s')))"
      unfolding steady_def by blast
    with t show ?thesis by (auto simp: andthen_def)
  qed
qed

lemma steady_if [steady_intros]: "(b \<Longrightarrow> steady m) \<Longrightarrow> (\<not> b \<Longrightarrow> steady m') \<Longrightarrow> steady (if b then m else m')"
  by simp

lemma steady_let [steady_intros]: "(\<And>x. x = a \<Longrightarrow> steady (f x)) \<Longrightarrow> steady (Let a f)"
  by (simp add: Let_def)

lemma steady_option [steady_intros]:
  "(x = None \<Longrightarrow> steady m) \<Longrightarrow> (\<And>y. x = Some y \<Longrightarrow> steady (f y)) \<Longrightarrow> steady (case x of None \<Rightarrow> m | Some y \<Rightarrow> f y)"
  by (cases x) auto

lemma steady_each_run [steady_intros]:
  "(\<And>x. x \<in> set xs \<Longrightarrow> steady (f x)) \<Longrightarrow> steady (each_run f xs)"
  by (induction xs) (auto intro!: steady_intros)

lemma steady_filter_run [steady_intros]: "(\<And>x. steady (p x)) \<Longrightarrow> steady (filter_run p xs)"
  unfolding filter_run_def by (intro steady_intros)

lemma steady_rval_case [steady_intros]:
  assumes "v = VUndef \<Longrightarrow> steady a" "v = VNull \<Longrightarrow> steady b" "\<And>x. v = VBool x \<Longrightarrow> steady (c x)" "\<And>x. v = VNum x \<Longrightarrow> steady (d x)"
    "\<And>s. v = VStr s \<Longrightarrow> steady (e s)" "\<And>i xs. v = VArr i xs \<Longrightarrow> steady (g i xs)" "\<And>i ps. v = VObj i ps \<Longrightarrow> steady (h i ps)"
  shows "steady (case v of VUndef \<Rightarrow> a | VNull \<Rightarrow> b | VBool x \<Rightarrow> c x | VNum x \<Rightarrow> d x | VStr s \<Rightarrow> e s | VArr i xs \<Rightarrow> g i xs | VObj i ps \<Rightarrow> h i ps)"
  using assms by (cases v) simp_all

lemma steady_needs [steady_intros]:
  "steady (need_str f v)" "steady (need_num f v)" "steady (need_arr f v)" "steady (need_obj f v)" "steady (op_num f v)"
  "steady (bound_string lib s)" "steady (bound_array xs)" "steady (string_of v)"
  unfolding need_str_def need_num_def need_arr_def need_obj_def op_num_def bound_string_def bound_array_def string_of_def
  by (intro steady_intros)+

lemma steady_optional [steady_intros]: "steady (need v) \<Longrightarrow> steady (optional need v)"
  unfolding optional_def by (intro steady_intros)

lemma steady_get_path [steady_intros]: "steady (get_path v ks)"
  by (induction v ks rule: get_path.induct) (auto intro!: steady_intros)

lemma steady_walk_segments: "steady (walk_segments v ks)"
proof (induction ks arbitrary: v)
  case Nil
  show ?case by (simp add: steady_intros)
next
  case (Cons k ks)
  then show ?case by (cases v) (auto intro!: steady_intros)
qed

lemma steady_path_walk [steady_intros]: "steady (path_walk v p)"
  unfolding path_walk_def by (intro steady_intros steady_walk_segments)

lemma steady_new_object [steady_intros]: "steady (\<lambda>s. (Inr (VObj (ev_next s) ps), s\<lparr>ev_next := Suc (ev_next s)\<rparr>))"
  by (rule steadyI) (auto simp: refuel_def)

lemma steady_natural_compare [steady_intros]: "steady (natural_compare a b)"
  unfolding natural_compare_def by (auto intro!: steady_intros split: rval.split)

lemma steady_to_json_safe [steady_intros]: "steady (to_json_safe v)"
proof (induction v)
  case (VArr i xs)
  then show ?case by (subst to_json_safe.simps) (auto intro!: steady_intros)
next
  case (VObj i ps)
  then show ?case by (subst to_json_safe.simps) (auto intro!: steady_intros)
qed (subst to_json_safe.simps, auto intro!: steady_intros)+

lemma steady_from_json_value [steady_intros]: "steady (from_json_value n v)"
  by (induction n arbitrary: v) (auto intro!: steady_intros split: rval.split)

text \<open>The engine's sort must be steady when its comparator is: it gets the fuel only to pass it on.\<close>

locale steady_library =
  fixes lib :: library
  assumes engine_steady: "(\<And>a b. steady (cmp a b)) \<Longrightarrow> steady (engine_sort lib cmp xs)"
begin

lemma text_steady: "steady (text_function lib f args)"
  unfolding text_function_def by (intro steady_intros)

lemma number_steady: "steady (number_function lib f args)"
  unfolding number_function_def Let_def by (intro steady_intros)

lemma array_steady: "steady (array_function lib f args)"
  unfolding array_function_def by (intro steady_intros engine_steady)

lemma value_steady: "steady (value_function lib f args)"
  unfolding value_function_def by (intro steady_intros engine_steady)

lemma path_steady: "steady (path_function lib f args)"
  unfolding path_function_def by (intro steady_intros)

lemma call_steady: "steady (call_function lib f args)"
  unfolding call_function_def by (intro steady_intros text_steady number_steady array_steady value_steady path_steady)

lemma deep_equal_steady:
  "steady (deep_equal a b)" "steady (deep_equal_list xs ys)" "steady (deep_equal_props ps qs)"
proof (induction a b and xs ys and ps qs rule: deep_equal_deep_equal_list_deep_equal_props.induct)
  case (1 a b)
  then show ?case
    by (cases a; cases b) (auto intro!: steady_intros simp: deep_equal.simps)
qed (auto intro!: steady_intros split: option.split)

lemma eval_bin_steady: "steady (eval_bin lib op v w)"
  unfolding eval_bin_def add_values_def compare_with_def Let_def
  by (cases op) (auto intro!: steady_intros deep_equal_steady split: rval.split option.split)

lemma apply_steady: "steady (apply_function lib sc f args)"
  unfolding apply_function_def scope_function_def by (intro steady_intros call_steady)

lemma eval_steady: "steady (eval_node lib sc e)"
  by (induction e) (auto intro!: steady_intros eval_bin_steady apply_steady)

lemma evaluate_steady:
  assumes "0 \<le> fuel" "evaluate lib fuel draws i sc e = (r, s')"
  shows "- 1 \<le> ev_fuel s' \<and> ev_fuel s' \<le> fuel"
    and "r \<noteq> Inl fuel_error \<Longrightarrow> fuel \<le> fuel' \<Longrightarrow> evaluate lib fuel' draws i sc e = (r, refuel (fuel' - fuel) s')"
proof -
  have st: "steady (eval_node lib sc e)" by (rule eval_steady)
  from st assms show "- 1 \<le> ev_fuel s' \<and> ev_fuel s' \<le> fuel" unfolding steady_def evaluate_def by fastforce
  assume r: "r \<noteq> Inl fuel_error" "fuel \<le> fuel'"
  have "eval_node lib sc e (refuel (fuel' - fuel) \<lparr>ev_fuel = fuel, ev_draws = draws, ev_next = i\<rparr>) = (r, refuel (fuel' - fuel) s')"
    using st assms(2) r unfolding steady_def evaluate_def by fastforce
  then show "evaluate lib fuel' draws i sc e = (r, refuel (fuel' - fuel) s')" by (simp add: evaluate_def refuel_def)
qed

end

text \<open>An engine that sorts by insertion; its JSON is only strings of digits.\<close>

fun insert_run :: "('a \<Rightarrow> 'a \<Rightarrow> jsnum run) \<Rightarrow> 'a \<Rightarrow> 'a list \<Rightarrow> 'a list run" where
  "insert_run cmp x [] = ret [x]"
| "insert_run cmp x (y # ys) = andthen (cmp x y) (\<lambda>c. if js_lt (JFin 0) c then andthen (insert_run cmp x ys) (\<lambda>zs. ret (y # zs)) else ret (x # y # ys))"

fun sort_run :: "('a \<Rightarrow> 'a \<Rightarrow> jsnum run) \<Rightarrow> 'a list \<Rightarrow> 'a list run" where
  "sort_run cmp [] = ret []"
| "sort_run cmp (x # xs) = andthen (sort_run cmp xs) (insert_run cmp x)"

lemma steady_insert_run: "(\<And>a b. steady (cmp a b)) \<Longrightarrow> steady (insert_run cmp x ys)"
  by (induction ys) (auto intro!: steady_intros)

lemma steady_sort_run: "(\<And>a b. steady (cmp a b)) \<Longrightarrow> steady (sort_run cmp xs)"
  by (induction xs) (auto intro!: steady_intros steady_insert_run)

definition plain_library :: library where
  "plain_library = \<lparr>max_engine_string = 536870888, engine_sort = sort_run, engine_stringify = (\<lambda>v. coalesce (value_text v) []),
     engine_parse = (\<lambda>t. if t \<noteq> [] \<and> list_all is_digit t then Some (VNum (number_of_literal t)) else None),
     engine_number = (\<lambda>t. if list_all is_digit t then number_of_literal t else JNaN)\<rparr>"

interpretation plain: steady_library plain_library
  by unfold_locales (simp add: plain_library_def steady_sort_run)

text \<open>
  C31: The fuel bounds every evaluation and changes nothing else. No evaluation spends more than its budget (the
  counter ends at minus one at the lowest), and one that did not run out gives the same value or the same error, draws the same
  random numbers and creates the same objects under any larger budget, only with more fuel left.
\<close>

theorem evaluation_within_budget:
  assumes "steady_library lib" "0 \<le> fuel" "evaluate lib fuel draws i sc e = (r, s')"
  shows "- 1 \<le> ev_fuel s' \<and> ev_fuel s' \<le> fuel
    \<and> (r \<noteq> Inl fuel_error \<longrightarrow> fuel \<le> fuel' \<longrightarrow> evaluate lib fuel' draws i sc e = (r, refuel (fuel' - fuel) s'))"
  using steady_library.evaluate_steady [OF assms] by blast

section \<open>Expressions that cannot run out\<close>

text \<open>No call and no comparison by value: then the walk spends at most one unit per node.\<close>

fun plain_expr :: "expr \<Rightarrow> bool" where
  "plain_expr (Lit _) = True"
| "plain_expr (Root _) = True"
| "plain_expr (Member e _) = plain_expr e"
| "plain_expr (Index e i) = (plain_expr e \<and> plain_expr i)"
| "plain_expr (Unary _ e) = plain_expr e"
| "plain_expr (Bin op l r) = (op \<noteq> OpEq \<and> op \<noteq> OpNe \<and> plain_expr l \<and> plain_expr r)"
| "plain_expr (Cond c a b) = (plain_expr c \<and> plain_expr a \<and> plain_expr b)"
| "plain_expr (Call _ _) = False"

text \<open>A run costs at most \<open>n\<close> when, given that much, it is left with the rest and does not stop for want of fuel.\<close>

definition costs :: "nat \<Rightarrow> 'a run \<Rightarrow> bool" where
  "costs n m \<longleftrightarrow> (\<forall>s. int n \<le> ev_fuel s \<longrightarrow> fst (m s) \<noteq> Inl fuel_error \<and> ev_fuel s - int n \<le> ev_fuel (snd (m s)))"

lemma costs_ret: "costs n (ret x)"
  by (simp add: costs_def ret_def)

lemma costs_throw: "e \<noteq> fuel_error \<Longrightarrow> costs n (throw e)"
  by (simp add: costs_def throw_def)

lemma costs_spend: "costs 1 spend"
  by (auto simp: costs_def spend_def Let_def)

lemma costs_andthen:
  assumes "costs a m" "\<And>x. costs b (f x)"
  shows "costs (a + b) (andthen m f)"
  unfolding costs_def
proof (intro allI impI)
  fix s :: ev assume s: "int (a + b) \<le> ev_fuel s"
  obtain q t where q: "m s = (q, t)" by (cases "m s")
  have "int a \<le> ev_fuel s" using s by simp
  with assms(1) have "fst (m s) \<noteq> Inl fuel_error \<and> ev_fuel s - int a \<le> ev_fuel (snd (m s))" unfolding costs_def by blast
  with q have t: "q \<noteq> Inl fuel_error" "ev_fuel s - int a \<le> ev_fuel t" by simp_all
  show "fst (andthen m f s) \<noteq> Inl fuel_error \<and> ev_fuel s - int (a + b) \<le> ev_fuel (snd (andthen m f s))"
  proof (cases q)
    case (Inl e)
    with q t show ?thesis by (simp add: andthen_def)
  next
    case (Inr x)
    have "int b \<le> ev_fuel t" using s t(2) by simp
    with assms(2) [of x] have "fst (f x t) \<noteq> Inl fuel_error \<and> ev_fuel t - int b \<le> ev_fuel (snd (f x t))"
      unfolding costs_def by blast
    with q Inr t(2) show ?thesis by (simp add: andthen_def)
  qed
qed

lemma costs_more:
  assumes "costs n m" "n \<le> k"
  shows "costs k m"
  unfolding costs_def
proof (intro allI impI)
  fix s :: ev assume "int k \<le> ev_fuel s"
  with assms have "fst (m s) \<noteq> Inl fuel_error \<and> ev_fuel s - int n \<le> ev_fuel (snd (m s))" unfolding costs_def by simp
  with assms(2) show "fst (m s) \<noteq> Inl fuel_error \<and> ev_fuel s - int k \<le> ev_fuel (snd (m s))" by simp
qed

lemma costs_op_num: "costs 0 (op_num f v)"
  by (auto simp: op_num_def fuel_error_def intro: costs_ret costs_throw split: rval.split)

lemma costs_bound_string: "costs 0 (bound_string lib s)"
  by (auto simp: bound_string_def fuel_error_def intro: costs_ret costs_throw)

lemma costs_node: "costs n m \<Longrightarrow> costs (Suc n) (andthen spend (\<lambda>_. m))"
  using costs_andthen [OF costs_spend, of n "\<lambda>_. m"] by simp

lemma costs_then0: "costs n m \<Longrightarrow> (\<And>x. costs 0 (f x)) \<Longrightarrow> costs n (andthen m f)"
  using costs_andthen [of n m 0 f] by simp

lemma costs_eval_bin:
  assumes "op \<noteq> OpEq" "op \<noteq> OpNe"
  shows "costs 0 (eval_bin lib op v w)"
proof -
  have "costs 0 (compare_with f g v w)" for f g
    unfolding compare_with_def by (intro costs_then0 costs_op_num costs_ret)
  moreover have "costs 0 (add_values lib v w)"
    unfolding add_values_def Let_def
    by (auto intro!: costs_then0 costs_bound_string costs_ret costs_throw simp: fuel_error_def split: rval.split option.split)
  ultimately show ?thesis
    using assms by (cases op) (auto simp: eval_bin_def fuel_error_def intro: costs_throw)
qed

lemma costs_eval: "plain_expr e \<Longrightarrow> costs (nodes e) (eval_node lib sc e)"
proof (induction e)
  case (Lit l)
  show ?case by (simp add: costs_node costs_ret)
next
  case (Root r)
  show ?case by (simp add: costs_node costs_ret)
next
  case (Member e k)
  then show ?case by (simp add: costs_node costs_then0 costs_ret)
next
  case (Index e i)
  then show ?case by (auto intro!: costs_node costs_andthen costs_then0 [where n = "nodes i"] costs_ret)
next
  case (Unary op e)
  then show ?case by (auto intro!: costs_node costs_then0 costs_ret costs_op_num)
next
  case (Bin op l r)
  then have ih: "costs (nodes l) (eval_node lib sc l)" "costs (nodes r) (eval_node lib sc r)" by simp_all
  have "costs (nodes r) (if op = OpAnd then (if truthy_val v then eval_node lib sc r else ret v)
     else if op = OpOr then (if truthy_val v then ret v else eval_node lib sc r)
     else andthen (eval_node lib sc r) (\<lambda>w. eval_bin lib op v w))" for v
    using ih(2) Bin.prems by (auto intro!: costs_then0 costs_ret costs_eval_bin)
  with ih(1) show ?case by (auto intro!: costs_node costs_andthen)
next
  case (Cond c a b)
  then have ih: "costs (nodes c) (eval_node lib sc c)" "costs (nodes a + nodes b) (eval_node lib sc a)"
    "costs (nodes a + nodes b) (eval_node lib sc b)"
    by (auto elim: costs_more)
  have "costs (nodes c + (nodes a + nodes b)) (andthen (eval_node lib sc c) (\<lambda>v. if truthy_val v then eval_node lib sc a else eval_node lib sc b))"
    using ih by (intro costs_andthen) auto
  then show ?case by (simp add: costs_node add.assoc)
qed simp

text \<open>
  C32: The default budget is enough for every parsed expression that calls nothing and compares nothing by value.
  The parser admits at most 200 nodes and the walk spends one unit on each, so such an expression never stops for want of fuel, and
  at least 9800 units are left over.
\<close>

theorem parsed_plain_expressions_finish:
  assumes "parse source = Parsed e ts n" "plain_expr e"
  shows "fst (evaluate lib max_steps draws i sc e) \<noteq> Inl fuel_error \<and> 9800 \<le> ev_fuel (snd (evaluate lib max_steps draws i sc e))"
proof -
  have "nodes e \<le> 200" using parse_closed_facts [OF assms(1)] by simp
  then have "costs 200 (eval_node lib sc e)" using costs_eval [OF assms(2)] costs_more by blast
  then have "int 200 \<le> ev_fuel s \<Longrightarrow> fst (eval_node lib sc e s) \<noteq> Inl fuel_error \<and> ev_fuel s - int 200 \<le> ev_fuel (snd (eval_node lib sc e s))" for s
    unfolding costs_def by blast
  from this [of "\<lparr>ev_fuel = 10000, ev_draws = draws, ev_next = i\<rparr>"] show ?thesis by (simp add: evaluate_def max_steps_def)
qed

definition demo_scope :: scope where
  "demo_scope = \<lparr>sc_params = VObj 0 [(''a'', VNum (JFin 7)), (''b'', VNum JNaN)], sc_nodes = VObj 1 [], sc_input = VNull, sc_run = VObj 2 [],
     sc_now = JFin 5, sc_random = JFin (1/2), sc_device = VObj 3 []\<rparr>"

theorem parsed_plain_expressions_finish_witness:
  "9800 \<le> ev_fuel (snd (evaluate plain_library max_steps 0 9 demo_scope (Unary OpNot (Member (Root RRun) ''a''))))"
  using parsed_plain_expressions_finish [OF demo_parse] by simp

theorem evaluation_within_budget_witness:
  "evaluate plain_library 50 0 9 demo_scope (Root RNow) = (Inr (VNum (JFin 5)), \<lparr>ev_fuel = 49, ev_draws = 0, ev_next = 9\<rparr>)"
proof -
  have "evaluate plain_library 1 0 9 demo_scope (Root RNow) = (Inr (VNum (JFin 5)), \<lparr>ev_fuel = 0, ev_draws = 0, ev_next = 9\<rparr>)"
    by (simp add: evaluate_def andthen_def spend_def ret_def root_value_def demo_scope_def)
  from evaluation_within_budget [OF plain.steady_library_axioms _ this, of 50] show ?thesis by (simp add: refuel_def)
qed

section \<open>Equality by value\<close>

text \<open>The reference: equal contents, whatever the identities; an object is compared as a finite map.\<close>

fun same_contents :: "rval \<Rightarrow> rval \<Rightarrow> bool" where
  "same_contents (VArr _ xs) (VArr _ ys) = list_all2 same_contents xs ys"
| "same_contents (VObj _ ps) (VObj _ qs) =
     (length ps = length qs \<and> list_all (\<lambda>(k, v). case map_of qs k of None \<Rightarrow> False | Some u \<Rightarrow> same_contents v u) ps)"
| "same_contents a b = strict_eq a b"

text \<open>The values inside a value; no NaN anywhere; keys of an object are distinct; equal identities mean the same object.\<close>

fun parts :: "rval \<Rightarrow> rval set" where
  "parts (VArr i xs) = insert (VArr i xs) (\<Union>x \<in> set xs. parts x)"
| "parts (VObj i ps) = insert (VObj i ps) (\<Union>(k, v) \<in> set ps. parts v)"
| "parts v = {v}"

definition clean :: "rval \<Rightarrow> bool" where
  "clean v \<longleftrightarrow> VNum JNaN \<notin> parts v \<and> (\<forall>i ps. VObj i ps \<in> parts v \<longrightarrow> distinct (map fst ps))"

definition one_object :: "rval \<Rightarrow> rval \<Rightarrow> bool" where
  "one_object a b \<longleftrightarrow> (\<forall>x \<in> parts a. \<forall>y \<in> parts b. strict_eq x y \<longrightarrow> (\<exists>i xs. x = VArr i xs) \<or> (\<exists>i ps. x = VObj i ps) \<longrightarrow> x = y)"

definition linked :: "rval \<Rightarrow> rval \<Rightarrow> bool" where
  "linked a b \<longleftrightarrow> clean a \<and> one_object a b"

lemma part_self [simp]: "v \<in> parts v"
  by (cases v) auto

lemma parts_arr: "x \<in> set xs \<Longrightarrow> parts x \<subseteq> parts (VArr i xs)"
  by auto

lemma parts_obj: "(k, v) \<in> set ps \<Longrightarrow> parts v \<subseteq> parts (VObj i ps)"
  by (rule subsetI, simp only: parts.simps, rule insertI2, erule UN_I, simp)

lemma clean_arr: "clean (VArr i xs) \<Longrightarrow> x \<in> set xs \<Longrightarrow> clean x"
  unfolding clean_def using parts_arr [of x xs i] by blast

lemma clean_obj: "clean (VObj i ps) \<Longrightarrow> (k, v) \<in> set ps \<Longrightarrow> clean v"
  unfolding clean_def using parts_obj [of k v ps i] by blast

lemma clean_keys: "clean (VObj i ps) \<Longrightarrow> distinct (map fst ps)"
  by (auto simp: clean_def)

lemma same_contents_refl: "clean v \<Longrightarrow> same_contents v v"
proof (induction v)
  case (VNum x)
  then show ?case by (cases x) (auto simp: clean_def js_num_eq_def)
next
  case (VArr i xs)
  then have "same_contents x x" if "x \<in> set xs" for x using that by (blast intro: clean_arr)
  then show ?case by (simp add: list_all2_same)
next
  case (VObj i ps)
  have "map_of ps k = Some v \<and> same_contents v v" if "(k, v) \<in> set ps" for k v
    using VObj.IH [OF that] clean_obj [OF VObj.prems that] clean_keys [OF VObj.prems] that by (simp add: map_of_is_SomeI)
  then show ?case by (auto simp: list_all_iff)
qed simp_all

lemma linked_arr: "linked (VArr i xs) (VArr j ys) \<Longrightarrow> x \<in> set xs \<Longrightarrow> y \<in> set ys \<Longrightarrow> linked x y"
  unfolding linked_def one_object_def using parts_arr [of x xs i] parts_arr [of y ys j] clean_arr [of i xs x] by blast

lemma linked_obj: "linked (VObj i ps) (VObj j qs) \<Longrightarrow> (k, v) \<in> set ps \<Longrightarrow> (k', u) \<in> set qs \<Longrightarrow> linked v u"
  unfolding linked_def one_object_def using parts_obj [of k v ps i] parts_obj [of k' u qs j] clean_obj [of i ps k v] by blast

lemma linked_same:
  assumes "linked a b" "strict_eq a b"
  shows "same_contents a b"
proof (cases "(\<exists>i xs. a = VArr i xs) \<or> (\<exists>i ps. a = VObj i ps)")
  case True
  moreover have "a \<in> parts a" "b \<in> parts b" by simp_all
  ultimately have "a = b" using assms unfolding linked_def one_object_def by blast
  with assms(1) show ?thesis by (simp add: linked_def same_contents_refl)
next
  case False
  with assms(2) show ?thesis by (cases a; cases b) auto
qed

lemma andthen_result: "andthen m f s = (Inr y, s') \<longleftrightarrow> (\<exists>x t. m s = (Inr x, t) \<and> f x t = (Inr y, s'))"
  by (auto simp: andthen_def split: prod.splits sum.splits)

lemma deep_equal_contents:
  "deep_equal a b s = (Inr r, s') \<Longrightarrow> linked a b \<Longrightarrow> r = same_contents a b"
  "deep_equal_list xs ys s = (Inr r, s') \<Longrightarrow> (\<forall>x \<in> set xs. \<forall>y \<in> set ys. linked x y) \<Longrightarrow> length xs = length ys \<Longrightarrow> r = list_all2 same_contents xs ys"
  "deep_equal_props ps qs s = (Inr r, s') \<Longrightarrow> (\<forall>(k, v) \<in> set ps. \<forall>(k', u) \<in> set qs. linked v u)
     \<Longrightarrow> r = list_all (\<lambda>(k, v). case map_of qs k of None \<Rightarrow> False | Some u \<Rightarrow> same_contents v u) ps"
proof (induction a b and xs ys and ps qs arbitrary: s r s' and s r s' and s r s' rule: deep_equal_deep_equal_list_deep_equal_props.induct)
  case (1 a b)
  obtain u t where run: "(if strict_eq a b then ret True else case (a, b) of
       (VArr _ xs, VArr _ ys) \<Rightarrow> if length xs \<noteq> length ys then ret False else deep_equal_list xs ys
     | (VObj _ ps, VObj _ qs) \<Rightarrow> if length ps \<noteq> length qs then ret False else deep_equal_props ps qs
     | _ \<Rightarrow> ret False) t = (Inr r, s')"
    using 1(3) by (auto simp: deep_equal.simps andthen_result)
  show ?case
  proof (cases "strict_eq a b")
    case True
    with run linked_same [OF 1(4)] show ?thesis by (simp add: ret_def)
  next
    case ne: False
    show ?thesis
    proof (cases "\<exists>i xs j ys. a = VArr i xs \<and> b = VArr j ys")
      case True
      then obtain i xs j ys where ab: "a = VArr i xs" "b = VArr j ys" by blast
      with 1(4) have l: "\<forall>x \<in> set xs. \<forall>y \<in> set ys. linked x y" by (blast intro: linked_arr)
      from run ne ab show ?thesis using 1(1) [OF ne _ ab(1) ab(2)] l
        by (auto simp: ret_def list_all2_lengthD split: if_splits)
    next
      case na: False
      show ?thesis
      proof (cases "\<exists>i ps j qs. a = VObj i ps \<and> b = VObj j qs")
        case True
        then obtain i ps j qs where ab: "a = VObj i ps" "b = VObj j qs" by blast
        with 1(4) have l: "\<forall>(k, v) \<in> set ps. \<forall>(k', u) \<in> set qs. linked v u" by (blast intro: linked_obj)
        from run ne ab show ?thesis using 1(2) [OF ne _ ab(1) ab(2)] l
          by (auto simp: ret_def split: if_splits)
      next
        case False
        with run ne na show ?thesis by (cases a; cases b) (auto simp: ret_def)
      qed
    qed
  qed
next
  case (2 x xs y ys)
  then show ?case by (fastforce simp: andthen_result ret_def split: if_splits)
next
  case (4 k v ps qs)
  then show ?case
    by (cases "map_of qs k") (fastforce simp: andthen_result ret_def split: if_splits dest: map_of_SomeD)+
qed (auto simp: ret_def)

text \<open>Comparing costs at most one unit per value inside the left operand, and nothing but want of fuel stops it.\<close>

fun value_count :: "rval \<Rightarrow> nat" where
  "value_count (VArr _ xs) = Suc (sum_list (map value_count xs))"
| "value_count (VObj _ ps) = Suc (sum_list (map (\<lambda>(k, v). value_count v) ps))"
| "value_count v = 1"

definition delivers :: "nat \<Rightarrow> 'a run \<Rightarrow> bool" where
  "delivers n m \<longleftrightarrow> (\<forall>s. int n \<le> ev_fuel s \<longrightarrow> (\<exists>x s'. m s = (Inr x, s') \<and> ev_fuel s - int n \<le> ev_fuel s'))"

lemma delivers_ret: "delivers n (ret x)"
  by (simp add: delivers_def ret_def)

lemma delivers_spend: "delivers 1 spend"
  by (auto simp: delivers_def spend_def Let_def)

lemma delivers_andthen:
  assumes "delivers a m" "\<And>x. delivers b (f x)"
  shows "delivers (a + b) (andthen m f)"
  unfolding delivers_def
proof (intro allI impI)
  fix s :: ev assume s: "int (a + b) \<le> ev_fuel s"
  then have "int a \<le> ev_fuel s" by simp
  with assms(1) obtain x t where t: "m s = (Inr x, t)" "ev_fuel s - int a \<le> ev_fuel t" unfolding delivers_def by blast
  have "int b \<le> ev_fuel t" using s t(2) by simp
  with assms(2) [of x] obtain y s' where y: "f x t = (Inr y, s')" "ev_fuel t - int b \<le> ev_fuel s'" unfolding delivers_def by blast
  from t y show "\<exists>y s'. andthen m f s = (Inr y, s') \<and> ev_fuel s - int (a + b) \<le> ev_fuel s'"
    by (simp add: andthen_def)
qed

lemma deep_equal_delivers:
  "delivers (value_count a) (deep_equal a b)"
  "delivers (sum_list (map value_count xs)) (deep_equal_list xs ys)"
  "delivers (sum_list (map (\<lambda>(k, v). value_count v) ps)) (deep_equal_props ps qs)"
proof (induction a b and xs ys and ps qs rule: deep_equal_deep_equal_list_deep_equal_props.induct)
  case (1 a b)
  define body where "body = (if strict_eq a b then ret True else case (a, b) of
       (VArr _ xs, VArr _ ys) \<Rightarrow> if length xs \<noteq> length ys then ret False else deep_equal_list xs ys
     | (VObj _ ps, VObj _ qs) \<Rightarrow> if length ps \<noteq> length qs then ret False else deep_equal_props ps qs
     | _ \<Rightarrow> ret False)"
  have "delivers (value_count a - 1) body"
    using 1 unfolding body_def by (cases a; cases b) (auto intro: delivers_ret)
  moreover have "1 + (value_count a - 1) = value_count a" by (cases a) auto
  ultimately have "delivers (value_count a) (andthen spend (\<lambda>_. body))"
    using delivers_andthen [OF delivers_spend, of "value_count a - 1" "\<lambda>_. body"] by simp
  then show ?case by (simp only: deep_equal.simps body_def)
next
  case (2 x xs y ys)
  have "delivers (value_count x + sum_list (map value_count xs)) (andthen (deep_equal x y) (\<lambda>b. if b then deep_equal_list xs ys else ret False))"
    using 2 by (intro delivers_andthen) (simp_all add: delivers_ret)
  then show ?case by simp
next
  case (4 k v ps qs)
  show ?case
  proof (cases "map_of qs k")
    case (Some u)
    have "delivers (value_count v + sum_list (map (\<lambda>(k, v). value_count v) ps))
      (andthen (deep_equal v u) (\<lambda>b. if b then deep_equal_props ps qs else ret False))"
      using 4 Some by (intro delivers_andthen) (simp_all add: delivers_ret)
    with Some show ?thesis by (simp del: map_of_eq_Some_iff)
  qed (simp add: delivers_ret)
qed (auto intro: delivers_ret)

text \<open>
  C33: The equality of the language is equality of contents. For values without NaN, two arrays or objects are equal
  exactly when their contents are, whatever their identities and whatever the order of an object's keys; the comparison answers as
  soon as the fuel covers the values inside its left operand.
\<close>

theorem equality_by_contents:
  assumes "clean a" "one_object a b" "int (value_count a) \<le> ev_fuel s"
  shows "fst (deep_equal a b s) = Inr (same_contents a b)"
proof -
  obtain r s' where r: "deep_equal a b s = (Inr r, s')"
    using deep_equal_delivers(1) [of a b] assms(3) unfolding delivers_def by blast
  moreover have "linked a b" using assms by (simp add: linked_def)
  ultimately show ?thesis using deep_equal_contents(1) by fastforce
qed

theorem equality_by_contents_witness:
  "fst (deep_equal (VArr 4 [VStr ''x'', VNull]) (VArr 5 [VStr ''x'', VNull]) \<lparr>ev_fuel = 3, ev_draws = 0, ev_next = 9\<rparr>) = Inr True"
proof -
  have "clean (VArr 4 [VStr ''x'', VNull])" "one_object (VArr 4 [VStr ''x'', VNull]) (VArr 5 [VStr ''x'', VNull])"
    by (auto simp: clean_def one_object_def)
  from equality_by_contents [OF this, of "\<lparr>ev_fuel = 3, ev_draws = 0, ev_next = 9\<rparr>"] show ?thesis by simp
qed

text \<open>
  Without that proviso it is not even reflexive on contents: a value that holds a NaN equals itself when it is the
  same object, and differs from a copy with the same contents.
\<close>

theorem nan_equality_depends_on_identity:
  "0 < ev_fuel s \<Longrightarrow> fst (deep_equal (VArr i [VNum JNaN]) (VArr j [VNum JNaN]) (refuel 1 s)) = Inr (i = j)"
  by (auto simp: deep_equal.simps andthen_def spend_def ret_def refuel_def Let_def js_num_eq_def)

theorem nan_equality_depends_on_identity_witness:
  "fst (deep_equal (VArr 4 [VNum JNaN]) (VArr 5 [VNum JNaN]) (refuel 1 \<lparr>ev_fuel = 3, ev_draws = 0, ev_next = 9\<rparr>)) = Inr False"
  using nan_equality_depends_on_identity [of "\<lparr>ev_fuel = 3, ev_draws = 0, ev_next = 9\<rparr>" 4 5] by simp

section \<open>Draws\<close>

lemma floor_fraction:
  assumes "w < n" "0 < k"
  shows "\<lfloor>(of_nat w / of_nat n * of_nat k :: rat)\<rfloor> = int (w * k div n)"
proof -
  have "(of_nat w / of_nat n * of_nat k :: rat) = of_int (int (w * k)) / of_int (int n)" by simp
  then show ?thesis by (simp only: floor_divide_of_int_eq flip: zdiv_int)
qed

lemma unit_draw_index:
  assumes "0 < n" "n \<le> 2 ^ 21"
  shows "js_floor (js_mul (unit_interval w) (JFin (of_nat n))) = JFin (of_nat (unat w * n div 2 ^ 32)) \<and> unat w * n div 2 ^ 32 < n"
proof -
  define u where "u = unat w"
  have u: "u < 2 ^ 32" using unat_word32 [of w] by (simp add: u_def)
  have r: "unit_interval w = JFin (of_nat u / 2 ^ 32)" by (simp add: unit_interval_exact u_def)
  have "u * n < 2 ^ 32 * n" using u assms(1) by simp
  also have "2 ^ 32 * n \<le> 2 ^ 32 * 2 ^ 21" using assms(2) by (rule mult_left_mono) simp
  finally have uk: "u * n < 2 ^ 53" by simp
  have "js_mul (JFin (of_nat u / 2 ^ 32)) (JFin (of_nat n)) = JFin (of_nat (u * n) / 2 ^ 32)"
  proof (cases "u = 0")
    case True
    then show ?thesis by (simp add: js_mul_def to_double_def)
  next
    case False
    then have "to_double x (of_nat (u * n) / 2 ^ 32) = JFin (of_nat (u * n) / 2 ^ 32)" for x
      using uk assms by (intro to_double_dyadic) simp_all
    then show ?thesis by (simp add: js_mul_def)
  qed
  moreover have "\<lfloor>(of_nat (u * n) / 2 ^ 32 :: rat)\<rfloor> = int (u * n div 2 ^ 32)"
    using floor_fraction [OF u, of n] assms by simp
  moreover have "u * n div 2 ^ 32 < n"
    using u assms by (simp add: less_mult_imp_div_less mult.commute)
  ultimately show ?thesis by (simp add: r js_floor_def u_def)
qed

text \<open>
  \<open>rand(n)\<close> is a whole number below \<open>n\<close>: for a count up to \<open>2^21\<close> the product is exact, the result is an
  index of a list of \<open>n\<close> elements, and every call moves the step's draw counter on by one, so two calls never share a draw.
\<close>

theorem rand_is_an_index:
  assumes "0 < n" "n \<le> 2 ^ 21"
  shows "\<exists>k. scope_function sc ''rand'' [VNum (JFin (of_nat n))] s = (Inr (VNum (JFin (of_nat k))), s\<lparr>ev_draws := Suc (ev_draws s)\<rparr>) \<and> k < n"
proof -
  obtain w :: word32 where w: "next_draw (sc_random sc) (ev_draws s) = unit_interval w"
    by (simp add: next_draw_def mulberry32_def)
  have "scope_function sc ''rand'' [VNum (JFin (of_nat n))] s
      = (Inr (VNum (JFin (of_nat (unat w * n div 2 ^ 32)))), s\<lparr>ev_draws := Suc (ev_draws s)\<rparr>)"
    using assms unit_draw_index [OF assms, of w]
    by (simp add: scope_function_def take_draw_def andthen_def need_num_def arg_def ret_def js_lt_def w)
  with unit_draw_index [OF assms, of w] show ?thesis by blast
qed

theorem rand_is_an_index_witness:
  "\<exists>k. scope_function demo_scope ''rand'' [VNum (JFin (of_nat 6))] \<lparr>ev_fuel = 3, ev_draws = 0, ev_next = 9\<rparr>
     = (Inr (VNum (JFin (of_nat k))), \<lparr>ev_fuel = 3, ev_draws = 1, ev_next = 9\<rparr>) \<and> k < 6"
  using rand_is_an_index [of 6 demo_scope "\<lparr>ev_fuel = 3, ev_draws = 0, ev_next = 9\<rparr>"] by simp

section \<open>Two ways around the documented rules\<close>

lemma demo_index_tokens:
  "tokenize ''$params[\"a\"+\"\"]'' = Inr [\<lparr>t_kind = TRoot, t_value = ''$params'', t_offset = 0\<rparr>, \<lparr>t_kind = TPunct, t_value = ''['', t_offset = 7\<rparr>,
     \<lparr>t_kind = TStr, t_value = ''a'', t_offset = 8\<rparr>, \<lparr>t_kind = TPunct, t_value = ''+'', t_offset = 11\<rparr>,
     \<lparr>t_kind = TStr, t_value = [], t_offset = 12\<rparr>, \<lparr>t_kind = TPunct, t_value = '']'', t_offset = 14\<rparr>,
     \<lparr>t_kind = TEof, t_value = [], t_offset = 15\<rparr>]"
  by (simp add: lexing)

lemma demo_index_parse:
  "parse ''$params[\"a\"+\"\"]'' = Parsed (Index (Root RParams) (Bin OpAdd (Lit (LStr ''a'')) (Lit (LStr []))))
     [\<lparr>t_kind = TEof, t_value = [], t_offset = 15\<rparr>] 5"
  by (simp add: parse_def demo_index_tokens max_source_bytes_def byte_length_def parsing ROOT_NAMES_def string_literal_def)

text \<open>
  Access by a computed key is in the language after all. The parser refuses an index only when it is a string
  literal as written; \<open>$params["a" + ""]\<close> parses, and evaluates to the property \<open>a\<close>.
\<close>

theorem computed_key_reads_property:
  assumes "0 < max_engine_string lib"
  shows "\<exists>e ts n. parse ''$params[\"a\"+\"\"]'' = Parsed e ts n
    \<and> fst (evaluate lib max_steps draws i sc e) = Inr (get_member (sc_params sc) ''a'')"
proof -
  have "get_index v (VStr ''a'') = get_member v ''a''" for v
    by (cases v) (simp_all add: get_index_def get_member_def own_value_def index_key_def is_digit_def)
  then have "fst (evaluate lib max_steps draws i sc (Index (Root RParams) (Bin OpAdd (Lit (LStr ''a'')) (Lit (LStr [])))))
      = Inr (get_member (sc_params sc) ''a'')"
    using assms
    by (simp add: evaluate_def max_steps_def andthen_def spend_def ret_def root_value_def literal_value_def eval_bin_def
        add_values_def bound_string_def byte_length_def max_string_bytes_def)
  with demo_index_parse show ?thesis by blast
qed

theorem computed_key_reads_property_witness:
  "\<exists>e ts n. parse ''$params[\"a\"+\"\"]'' = Parsed e ts n \<and> fst (evaluate plain_library max_steps 0 9 demo_scope e) = Inr (VNum (JFin 7))"
  using computed_key_reads_property [of plain_library 0 9 demo_scope]
  by (simp add: plain_library_def demo_scope_def get_member_def own_value_def)

text \<open>
  An object leaves the language through its own text functions: \<open>toText\<close> of an object is not one of the two
  coded errors of the evaluator but an exception of the engine, because a scope object has no conversion to a primitive.
\<close>

theorem object_text_is_an_engine_error:
  assumes "sc_params sc = VObj j ps"
  shows "fst (evaluate lib max_steps draws i sc (Call ''toText'' [Root RParams])) = Inl (EngineError ''cannot convert object to primitive value'')"
  using assms
  by (simp add: evaluate_def max_steps_def andthen_def spend_def ret_def root_value_def apply_function_def call_function_def
      TEXT_FUNCTIONS_def NUMBER_FUNCTIONS_def ARRAY_FUNCTIONS_def VALUE_FUNCTIONS_def value_function_def arg_def nullish_def string_of_def throw_def)

theorem object_text_is_an_engine_error_witness:
  "fst (evaluate plain_library max_steps 0 9 demo_scope (Call ''toText'' [Root RParams])) = Inl (EngineError ''cannot convert object to primitive value'')"
  using object_text_is_an_engine_error [of demo_scope 0 "[(''a'', VNum (JFin 7)), (''b'', VNum JNaN)]" plain_library 0 9] by (simp add: demo_scope_def)

end
