(* ===== verification/ExprScope.thy ===== *)
theory ExprScope
  imports ExprEval
begin

text \<open>
  How a host value enters the evaluator (\<open>packages/expr/src/scope.ts\<close>). A host value may contain itself, so it is
  a codatatype; what comes out is a finite value. \<open>HOther\<close> is everything else the host has: functions, dates, maps, class
  instances. The second result is the next free object identity.
\<close>

codatatype host =
    HUndef | HNull | HBool bool | HNum jsnum | HStr string | HOther
  | HArr "host list"
  | HObj "(string \<times> host) list"

fun scope_list :: "(host \<Rightarrow> nat \<Rightarrow> rval \<times> nat) \<Rightarrow> host list \<Rightarrow> nat \<Rightarrow> rval list \<times> nat" where
  "scope_list f [] i = ([], i)"
| "scope_list f (h # hs) i = (case f h i of (v, j) \<Rightarrow> case scope_list f hs j of (vs, k) \<Rightarrow> (v # vs, k))"

text \<open>The first argument is how many levels are left; at none the branch is cut to \<open>undefined\<close>.\<close>

primrec scope_value :: "nat \<Rightarrow> host \<Rightarrow> nat \<Rightarrow> rval \<times> nat" where
  "scope_value 0 h i = (VUndef, i)"
| "scope_value (Suc n) h i = (case h of
     HUndef \<Rightarrow> (VUndef, i)
   | HNull \<Rightarrow> (VNull, i)
   | HBool b \<Rightarrow> (VBool b, i)
   | HNum x \<Rightarrow> (VNum x, i)
   | HStr s \<Rightarrow> (VStr s, i)
   | HOther \<Rightarrow> (VUndef, i)
   | HArr hs \<Rightarrow> (case scope_list (scope_value n) (take max_array_length hs) (Suc i) of (vs, j) \<Rightarrow> (VArr i vs, j))
   | HObj ps \<Rightarrow> (case scope_list (scope_value n) (map snd ps) (Suc i) of (vs, j) \<Rightarrow> (VObj i (zip (map fst ps) vs), j)))"

definition to_scope_value :: "host \<Rightarrow> nat \<Rightarrow> rval \<times> nat" where
  "to_scope_value h i = scope_value (Suc max_depth) h i"

section \<open>What comes out\<close>

fun height :: "rval \<Rightarrow> nat" where
  "height (VArr _ xs) = Suc (fold max (map height xs) 0)"
| "height (VObj _ ps) = Suc (fold max (map (\<lambda>(k, v). height v) ps) 0)"
| "height _ = 0"

fun identities :: "rval \<Rightarrow> nat list" where
  "identities (VArr i xs) = i # concat (map identities xs)"
| "identities (VObj i ps) = i # concat (map (\<lambda>(k, v). identities v) ps)"
| "identities _ = []"

lemma scope_list_length: "scope_list f hs i = (vs, j) \<Longrightarrow> length vs = length hs"
  by (induction hs arbitrary: i vs j) (auto split: prod.splits)

lemma scope_list_all:
  assumes "\<And>h i. P (fst (f h i))"
  shows "scope_list f hs i = (vs, j) \<Longrightarrow> list_all P vs"
proof (induction hs arbitrary: i vs j)
  case (Cons h hs)
  then show ?case using assms [of h i] by (auto split: prod.splits)
qed simp

lemma scope_list_identities:
  assumes "\<And>h i v j. f h i = (v, j) \<Longrightarrow> i \<le> j \<and> identities v = [i..<j]"
  shows "scope_list f hs i = (vs, j) \<Longrightarrow> i \<le> j \<and> concat (map identities vs) = [i..<j]"
proof (induction hs arbitrary: i vs j)
  case (Cons h hs)
  obtain v a where v: "f h i = (v, a)" by (cases "f h i")
  obtain us b where us: "scope_list f hs a = (us, b)" by (cases "scope_list f hs a")
  from Cons.prems v us have "vs = v # us" "j = b" by auto
  with assms [OF v] Cons.IH [OF us] show ?case using upt_add_eq_append [of i a "b - a"] by auto
qed auto

lemma map_zip_values: "length ks = length vs \<Longrightarrow> map (\<lambda>(k, v). g v) (zip ks vs) = map g vs"
  by (induction ks vs rule: list_induct2) auto

lemma scope_value_identities: "scope_value n h i = (v, j) \<Longrightarrow> i \<le> j \<and> identities v = [i..<j]"
proof (induction n arbitrary: h i v j)
  case (Suc n)
  have list: "scope_list (scope_value n) hs a = (vs, b) \<Longrightarrow> a \<le> b \<and> concat (map identities vs) = [a..<b]" for hs a vs b
    by (rule scope_list_identities [where f = "scope_value n"]) (rule Suc.IH)
  show ?case
  proof (cases h)
    case (HArr hs)
    obtain vs k where vs: "scope_list (scope_value n) (take max_array_length hs) (Suc i) = (vs, k)"
      by (cases "scope_list (scope_value n) (take max_array_length hs) (Suc i)")
    from list [OF vs] Suc.prems HArr vs show ?thesis by (auto simp: upt_conv_Cons)
  next
    case (HObj ps)
    obtain vs k where vs: "scope_list (scope_value n) (map snd ps) (Suc i) = (vs, k)"
      by (cases "scope_list (scope_value n) (map snd ps) (Suc i)")
    have "length (map fst ps) = length vs" using scope_list_length [OF vs] by simp
    with list [OF vs] Suc.prems HObj vs show ?thesis
      by (auto simp: upt_conv_Cons map_zip_values)
  qed (use Suc.prems in auto)
qed simp

text \<open>Where identities are pairwise different, an identity has one object.\<close>

definition identity_of :: "rval \<Rightarrow> nat option" where
  "identity_of v = (case v of VArr i _ \<Rightarrow> Some i | VObj i _ \<Rightarrow> Some i | _ \<Rightarrow> None)"

lemma identity_in_parts: "x \<in> parts v \<Longrightarrow> identity_of x = Some i \<Longrightarrow> i \<in> set (identities v)"
proof (induction v)
  case (VArr j xs)
  then show ?case by (auto simp: identity_of_def)
next
  case (VObj j ps)
  show ?case
  proof (cases "x = VObj j ps")
    case False
    with VObj.prems obtain k u where "(k, u) \<in> set ps" "x \<in> parts u" by auto
    with VObj have "i \<in> set (identities u)" by simp
    with \<open>(k, u) \<in> set ps\<close> show ?thesis by force
  qed (use VObj.prems in \<open>simp add: identity_of_def\<close>)
qed (auto simp: identity_of_def)

lemma distinct_concat_same:
  assumes "distinct (concat (map g xs))" "x \<in> set xs" "y \<in> set xs" "i \<in> set (g x)" "i \<in> set (g y)"
  shows "x = y"
  using assms by (induction xs) auto

lemma identities_unique:
  "distinct (identities v) \<Longrightarrow> x \<in> parts v \<Longrightarrow> y \<in> parts v \<Longrightarrow> identity_of x = Some i \<Longrightarrow> identity_of y = Some i \<Longrightarrow> x = y"
proof (induction v)
  case (VArr j xs)
  have here: "x = VArr j xs \<longleftrightarrow> i = j" if "x \<in> parts (VArr j xs)" "identity_of x = Some i" for x
  proof
    assume "i = j"
    then show "x = VArr j xs" using that VArr.prems(1) identity_in_parts [of x _ j] by fastforce
  qed (use that in \<open>simp add: identity_of_def\<close>)
  show ?case
  proof (cases "i = j")
    case False
    with here VArr.prems obtain a b where ab: "a \<in> set xs" "x \<in> parts a" "b \<in> set xs" "y \<in> parts b" by auto
    then have "a = b"
      using VArr.prems identity_in_parts [of x a i] identity_in_parts [of y b i] distinct_concat_same [of identities xs a b i] by simp
    moreover have "distinct (identities a)" using VArr.prems(1) ab(1) by (auto simp: distinct_concat_iff)
    ultimately show ?thesis using VArr.IH [OF ab(1)] VArr.prems ab by blast
  qed (use here VArr.prems in blast)
next
  case (VObj j ps)
  have here: "x = VObj j ps \<longleftrightarrow> i = j" if "x \<in> parts (VObj j ps)" "identity_of x = Some i" for x
  proof
    assume "i = j"
    then show "x = VObj j ps" using that VObj.prems(1) identity_in_parts [of x _ j] by fastforce
  qed (use that in \<open>simp add: identity_of_def\<close>)
  show ?case
  proof (cases "i = j")
    case False
    with here VObj.prems obtain a b where ab: "a \<in> set ps" "x \<in> parts (snd a)" "b \<in> set ps" "y \<in> parts (snd b)" by fastforce
    have d: "distinct (concat (map (\<lambda>p. identities (snd p)) ps))" using VObj.prems(1) by (simp add: case_prod_beta')
    then have "a = b"
      using VObj.prems ab identity_in_parts [of x "snd a" i] identity_in_parts [of y "snd b" i]
        distinct_concat_same [of "\<lambda>p. identities (snd p)" ps a b i] by simp
    moreover have "distinct (identities (snd a))" using d ab(1) by (auto simp: distinct_concat_iff)
    ultimately show ?thesis using VObj.IH [OF ab(1), of "snd a"] VObj.prems ab by (cases a) auto
  qed (use here VObj.prems in blast)
qed (auto simp: identity_of_def)

lemma scope_value_height: "height (fst (scope_value n h i)) \<le> n"
proof (induction n arbitrary: h i)
  case (Suc n)
  have list: "list_all (\<lambda>v. height v \<le> n) vs" if "scope_list (scope_value n) hs a = (vs, b)" for hs a vs b
    using that by (rule scope_list_all [rotated]) (rule Suc.IH)
  show ?case
  proof (cases h)
    case (HArr hs)
    then show ?thesis
      by (auto simp: fold_max_le list_all_iff dest!: list split: prod.split)
  next
    case (HObj ps)
    then show ?thesis
      by (auto simp: fold_max_le list_all_iff dest!: list set_zip_rightD split: prod.split)
  qed simp_all
qed simp

lemma strict_eq_identity: "strict_eq x y \<Longrightarrow> identity_of x = Some i \<Longrightarrow> identity_of y = Some i"
  by (cases x; cases y) (auto simp: identity_of_def)

lemma one_object_of_unique:
  assumes "distinct (identities v)"
  shows "one_object v v"
  unfolding one_object_def
proof (intro ballI impI)
  fix x y assume xy: "x \<in> parts v" "y \<in> parts v" "strict_eq x y" and "(\<exists>i xs. x = VArr i xs) \<or> (\<exists>i ps. x = VObj i ps)"
  then obtain i where "identity_of x = Some i" by (auto simp: identity_of_def)
  with xy strict_eq_identity show "x = y" by (blast intro: identities_unique [OF assms])
qed

text \<open>
  C34: What enters the evaluator is finite and plain whatever the host holds, a cyclic object included: arrays and
  objects are nested at most 21 deep, and each is freshly made, numbered without gaps from the next free identity, so that within a
  scope equal identities are one object, as the comparison by value relies on.
\<close>

theorem scope_value_is_plain:
  "height (fst (to_scope_value h i)) \<le> 21
   \<and> identities (fst (to_scope_value h i)) = [i..<snd (to_scope_value h i)]
   \<and> one_object (fst (to_scope_value h i)) (fst (to_scope_value h i))"
proof -
  obtain v j where v: "scope_value (Suc max_depth) h i = (v, j)" by (cases "scope_value (Suc max_depth) h i")
  have "height v \<le> 21" using scope_value_height [of "Suc max_depth" h i] v by (simp add: max_depth_def)
  moreover have ids: "identities v = [i..<j]" using scope_value_identities [OF v] by simp
  moreover have "one_object v v" by (rule one_object_of_unique) (simp_all add: ids)
  ultimately show ?thesis by (simp only: to_scope_value_def v fst_conv snd_conv)
qed

section \<open>The price of a cycle\<close>

text \<open>An object each of whose properties is the object itself.\<close>

primcorec knot :: "string list \<Rightarrow> host" where
  "knot ks = HObj (map (map_prod id (\<lambda>_. knot ks)) (map (\<lambda>k. (k, ())) ks))"

lemma knot_values: "map snd (map (map_prod id (\<lambda>_. c)) (map (\<lambda>k. (k, ())) ks)) = replicate (length ks) c"
  by (induction ks) auto

lemma knot_keys: "map fst (map (map_prod id (\<lambda>_. c)) (map (\<lambda>k. (k, ())) ks)) = ks"
  by (induction ks) auto

lemma scope_list_knots:
  assumes "\<And>i. c \<le> value_count (fst (f h i))"
  shows "scope_list f (replicate m h) i = (vs, j) \<Longrightarrow> m * c \<le> sum_list (map value_count vs) \<and> length vs = m"
proof (induction m arbitrary: i vs j)
  case (Suc m)
  then show ?case using assms [of i] by (fastforce split: prod.splits)
qed simp

lemma knot_cost: "length ks ^ n \<le> value_count (fst (scope_value n (knot ks) i))"
proof (induction n arbitrary: i)
  case (Suc n)
  obtain vs j where vs: "scope_list (scope_value n) (replicate (length ks) (knot ks)) (Suc i) = (vs, j)"
    by (cases "scope_list (scope_value n) (replicate (length ks) (knot ks)) (Suc i)")
  have "length ks * length ks ^ n \<le> sum_list (map value_count vs) \<and> length vs = length ks"
    by (rule scope_list_knots [OF Suc.IH vs])
  moreover have "fst (scope_value (Suc n) (knot ks) i) = VObj i (zip ks vs)"
    using vs by (subst knot.code) (simp add: knot_values knot_keys del: map_map)
  ultimately show ?case by (simp add: map_zip_values)
qed simp

text \<open>
  The depth limit stops a cycle, but not in time. Nothing remembers what was already copied, so an object with
  \<open>k\<close> references to itself is copied into more than \<open>k\<close> to the 21st values: over two million for two references, ten
  thousand million for three.
\<close>

theorem cycle_costs_exponential:
  "length ks ^ 21 \<le> value_count (fst (to_scope_value (knot ks) i))"
  using knot_cost [of ks 21 i] by (simp only: to_scope_value_def max_depth_def eval_nat_numeral)

end
