(* ===== verification/WfTypes.thy ===== *)
theory WfTypes
  imports ExprScope
begin

text \<open>
  Workflow documents (\<open>packages/protocol/src/workflow.ts\<close>): value expressions, predicates, the eight kinds of node,
  the document, and the checks the schema makes across nodes. Presentation (titles, canvas positions, the editor preference) is
  left out; a list field absent in the source is an empty list after parsing, as the schema's defaults make it.
\<close>

section \<open>Value expressions and predicates\<close>

text \<open>\<open>EFrom node path optional default\<close>: an absent \<open>default\<close> reads as \<open>undefined\<close>.\<close>

datatype value_expr =
    EConst rval
  | EParam ident
  | EFrom ident "string option" bool rval
  | ERunSummary
  | EExpr string

datatype predicate =
    PLeaf value_expr gate_op "value_expr option"
  | PAll "predicate list"
  | PAny "predicate list"
  | PNot predicate

definition max_predicate_depth :: nat where "max_predicate_depth = 3"
definition max_saw_keys :: nat where "max_saw_keys = 20"
definition max_switch_cases :: nat where "max_switch_cases = 10"
definition max_nodes :: nat where "max_nodes = 50"
definition max_delay_ms :: nat where "max_delay_ms = 5 * 60000"

fun predicate_depth :: "predicate \<Rightarrow> nat" where
  "predicate_depth (PAll ps) = 1 + fold max (map predicate_depth ps) 0"
| "predicate_depth (PAny ps) = 1 + fold max (map predicate_depth ps) 0"
| "predicate_depth (PNot p) = 1 + predicate_depth p"
| "predicate_depth (PLeaf _ _ _) = 1"

section \<open>Nodes\<close>

record switch_case =
  cs_when :: "predicate option"
  cs_weight :: "jsnum option"
  cs_to :: "ident option"

datatype switch_mode = ByPredicate | ByWeight

datatype finish_status = Succeed | Fail

text \<open>
  The body of a node by kind: \<open>Script ref params retries next onFailure\<close>, \<open>Gate when then else\<close>, \<open>Delay ms maxMs next\<close>,
  \<open>SetFields assignments keepOnlySet next\<close>, \<open>Shuffle members between betweenMaxMs continueOnMemberFailure next\<close>.
\<close>

datatype node_body =
    Start "ident option"
  | Script string "(string \<times> value_expr) list" "nat option" "ident option" "ident option"
  | Gate predicate "ident option" "ident option"
  | Switch switch_mode "switch_case list" "ident option"
  | Delay value_expr nat "ident option"
  | Finish finish_status string
  | SetFields "(value_expr \<times> value_expr) list" bool "ident option"
  | Shuffle "ident list" value_expr nat bool "ident option"

record node =
  n_id :: ident
  n_enabled :: bool
  n_body :: node_body

fun node_kind :: "node_body \<Rightarrow> string" where
  "node_kind (Start _) = ''start''"
| "node_kind (Script _ _ _ _ _) = ''script''"
| "node_kind (Gate _ _ _) = ''gate''"
| "node_kind (Switch _ _ _) = ''switch''"
| "node_kind (Delay _ _ _) = ''delay''"
| "node_kind (Finish _ _) = ''finish''"
| "node_kind (SetFields _ _ _) = ''set''"
| "node_kind (Shuffle _ _ _ _ _) = ''shuffle''"

fun is_start :: "node_body \<Rightarrow> bool" where
  "is_start (Start _) = True" | "is_start _ = False"

fun is_finish :: "node_body \<Rightarrow> bool" where
  "is_finish (Finish _ _) = True" | "is_finish _ = False"

fun is_shuffle :: "node_body \<Rightarrow> bool" where
  "is_shuffle (Shuffle _ _ _ _ _) = True" | "is_shuffle _ = False"

fun members_of :: "node_body \<Rightarrow> ident list" where
  "members_of (Shuffle ms _ _ _ _) = ms" | "members_of _ = []"

section \<open>The document\<close>

record wf_param =
  wp_name :: string
  wp_default :: "rval option"

record wf_doc =
  wd_name :: string
  wd_params :: "wf_param list"
  wd_entry :: ident
  wd_nodes :: "node list"
  wd_max_steps :: nat
  wd_on_fail :: "(string \<times> (string \<times> value_expr) list) option"

definition memberships :: "node list \<Rightarrow> (ident \<times> ident) list" where
  "memberships ns = concat (map (\<lambda>n. map (Pair (n_id n)) (members_of (n_body n))) ns)"

text \<open>What the refinement of the document schema reports, with the data its messages interpolate.\<close>

datatype doc_issue =
    DuplicateNodeId ident nat nat
  | EntryUnknown ident
  | EntryNotStart ident
  | StartCount nat
  | ListedTwice ident ident
  | MemberOfTwo ident ident
  | CaseNeedsWhen nat nat
  | WeightInPredicateMode nat nat
  | CaseNeedsWeight nat nat
  | WhenInWeightedMode nat nat

text \<open>\<open>firstSeenAt\<close>: the index of the first node of each id.\<close>

fun duplicate_ids :: "nat \<Rightarrow> (ident, nat) jmap \<Rightarrow> node list \<Rightarrow> doc_issue list" where
  "duplicate_ids i seen [] = []"
| "duplicate_ids i seen (n # ns) =
     (case jm_get seen (n_id n) of
        None \<Rightarrow> duplicate_ids (Suc i) (jm_set (n_id n) i seen) ns
      | Some first \<Rightarrow> DuplicateNodeId (n_id n) first i # duplicate_ids (Suc i) seen ns)"

definition entry_issues :: "wf_doc \<Rightarrow> doc_issue list" where
  "entry_issues d = (case find (\<lambda>n. n_id n = wd_entry d) (wd_nodes d) of
     None \<Rightarrow> [EntryUnknown (wd_entry d)]
   | Some n \<Rightarrow> if is_start (n_body n) then [] else [EntryNotStart (wd_entry d)])"

definition start_issues :: "wf_doc \<Rightarrow> doc_issue list" where
  "start_issues d = (let k = length (filter (is_start \<circ> n_body) (wd_nodes d)) in if k \<noteq> 1 then [StartCount k] else [])"

text \<open>\<open>claimedBy\<close>: the first shuffle that lists each member.\<close>

fun claim_issues :: "(ident, ident) jmap \<Rightarrow> (ident \<times> ident) list \<Rightarrow> doc_issue list" where
  "claim_issues claimed [] = []"
| "claim_issues claimed ((sh, m) # rest) =
     (case jm_get claimed m of
        None \<Rightarrow> claim_issues (jm_set m sh claimed) rest
      | Some own \<Rightarrow> (if own = sh then ListedTwice m sh else MemberOfTwo m own) # claim_issues claimed rest)"

definition case_issues :: "nat \<Rightarrow> switch_mode \<Rightarrow> nat \<times> switch_case \<Rightarrow> doc_issue list" where
  "case_issues i mode ic = (case ic of (ci, c) \<Rightarrow>
     (case mode of
        ByPredicate \<Rightarrow> (if cs_when c = None then [CaseNeedsWhen i ci] else [])
                       @ (if cs_weight c \<noteq> None then [WeightInPredicateMode i ci] else [])
      | ByWeight \<Rightarrow> (if cs_weight c = None then [CaseNeedsWeight i ci] else [])
                       @ (if cs_when c \<noteq> None then [WhenInWeightedMode i ci] else [])))"

definition switch_issues :: "nat \<times> node \<Rightarrow> doc_issue list" where
  "switch_issues ni = (case n_body (snd ni) of
     Switch mode cases _ \<Rightarrow> concat (map (case_issues (fst ni) mode) (enumerate 0 cases))
   | _ \<Rightarrow> [])"

definition doc_issues :: "wf_doc \<Rightarrow> doc_issue list" where
  "doc_issues d = duplicate_ids 0 [] (wd_nodes d) @ entry_issues d @ start_issues d
     @ claim_issues [] (memberships (wd_nodes d)) @ concat (map switch_issues (enumerate 0 (wd_nodes d)))"

section \<open>What an accepted document satisfies\<close>

lemma duplicate_ids_none:
  "duplicate_ids i seen ns = [] \<longleftrightarrow> distinct (map n_id ns) \<and> (\<forall>n \<in> set ns. jm_get seen (n_id n) = None)"
  by (induction i seen ns rule: duplicate_ids.induct) (auto split: option.splits if_splits simp: image_iff)

lemma claim_issues_none:
  "claim_issues claimed ps = [] \<longleftrightarrow> distinct (map snd ps) \<and> (\<forall>p \<in> set ps. jm_get claimed (snd p) = None)"
  by (induction claimed ps rule: claim_issues.induct) (auto split: option.splits if_splits simp: image_iff)

definition shuffle_owner :: "node list \<Rightarrow> ident \<Rightarrow> ident option" where
  "shuffle_owner ns m = map_of (rev (map prod.swap (memberships ns))) m"

definition node_of :: "wf_doc \<Rightarrow> ident \<Rightarrow> node option" where
  "node_of d k = map_of (rev (map (\<lambda>n. (n_id n, n)) (wd_nodes d))) k"

definition accepted :: "wf_doc \<Rightarrow> bool" where
  "accepted d \<longleftrightarrow> doc_issues d = []"

lemma accepted_distinct: "accepted d \<Longrightarrow> distinct (map n_id (wd_nodes d))"
  by (simp add: accepted_def doc_issues_def duplicate_ids_none)

lemma accepted_members_distinct: "accepted d \<Longrightarrow> distinct (map snd (memberships (wd_nodes d)))"
  by (simp add: accepted_def doc_issues_def claim_issues_none)

lemma node_of_in: "node_of d k = Some n \<Longrightarrow> n \<in> set (wd_nodes d) \<and> n_id n = k"
  by (auto simp: node_of_def dest: map_of_SomeD)

lemma accepted_node_of:
  assumes "accepted d" "n \<in> set (wd_nodes d)"
  shows "node_of d (n_id n) = Some n"
  using assms accepted_distinct [OF assms(1)]
  by (auto simp: node_of_def comp_def rev_map intro!: map_of_is_SomeI)
     (simp add: rev_map [symmetric])

lemma accepted_entry:
  assumes "accepted d"
  shows "\<exists>n nxt. node_of d (wd_entry d) = Some n \<and> n_body n = Start nxt"
proof -
  from assms have "entry_issues d = []" by (simp add: accepted_def doc_issues_def)
  then obtain n where f: "find (\<lambda>n. n_id n = wd_entry d) (wd_nodes d) = Some n" and s: "is_start (n_body n)"
    by (auto simp: entry_issues_def split: option.splits if_splits)
  from find_Some_in [OF f] have "n \<in> set (wd_nodes d)" "n_id n = wd_entry d" by simp_all
  with accepted_node_of [OF assms] s show ?thesis by (cases "n_body n") (auto, metis)
qed

lemma length_filter_one:
  "length (filter P xs) = 1 \<Longrightarrow> a \<in> set xs \<Longrightarrow> b \<in> set xs \<Longrightarrow> P a \<Longrightarrow> P b \<Longrightarrow> a = b"
proof -
  assume one: "length (filter P xs) = 1" and ab: "a \<in> set xs" "b \<in> set xs" "P a" "P b"
  obtain c where c: "filter P xs = [c]" using one by (cases "filter P xs") auto
  have "x \<in> set xs \<Longrightarrow> P x \<Longrightarrow> x = c" for x
    using arg_cong [OF c, of set] by auto
  with ab show "a = b" by metis
qed

lemma accepted_one_start:
  assumes "accepted d" "node_of d k = Some n" "is_start (n_body n)"
  shows "k = wd_entry d"
proof -
  obtain m nxt where m: "node_of d (wd_entry d) = Some m" "n_body m = Start nxt"
    using accepted_entry [OF assms(1)] by blast
  have "length (filter (is_start \<circ> n_body) (wd_nodes d)) = 1"
    using assms(1) by (auto simp: accepted_def doc_issues_def start_issues_def Let_def split: if_splits)
  from length_filter_one [OF this, of n m] m assms(2,3) have "n = m" by (auto dest!: node_of_in)
  with m assms(2) show ?thesis by (auto dest!: node_of_in)
qed

end
