(* ===== verification/WfResolve.thy ===== *)
theory WfResolve
  imports WfTypes
begin

text \<open>
  Reading a binding and deciding a predicate (\<open>packages/protocol/src/workflow-resolve.ts\<close>). A step has one resolution
  state: the next free object identity, the draws taken by \<open>rand()\<close>, and the expression scope once it is built. The run summary is one array
  that keeps growing while values hold on to it, so a value that is that array is a reference: identity 0, contents read
  from the summary of the moment. The prototypes of objects are not part of the model.
\<close>

section \<open>The summary and the scope\<close>

record summary_entry =
  se_identity :: nat
  se_node :: ident
  se_script :: "string option"
  se_status :: string
  se_started :: seconds
  se_finished :: seconds
  se_duration :: millis
  se_output :: rval

definition text_or_null :: "string option \<Rightarrow> rval" where
  "text_or_null s = (case s of None \<Rightarrow> VNull | Some x \<Rightarrow> VStr x)"

definition entry_value :: "summary_entry \<Rightarrow> rval" where
  "entry_value e = VObj (se_identity e)
     [(''nodeId'', VStr (se_node e)), (''script'', text_or_null (se_script e)), (''status'', VStr (se_status e)),
      (''startedAt'', VNum (js_of_int (se_started e))), (''finishedAt'', VNum (js_of_int (se_finished e))),
      (''durationMs'', VNum (js_of_int (se_duration e))), (''output'', se_output e)]"

definition summary_ref :: rval where
  "summary_ref = VArr 0 []"

text \<open>What a value is at the moment: the reference stands for the entries so far.\<close>

definition live :: "rval list \<Rightarrow> rval \<Rightarrow> rval" where
  "live S v = (case v of VArr i xs \<Rightarrow> if i = 0 then VArr 0 S else v | _ \<Rightarrow> v)"

fun elements :: "rval \<Rightarrow> rval list" where
  "elements (VArr _ xs) = xs" | "elements _ = []"

fun properties :: "rval \<Rightarrow> (string \<times> rval) list" where
  "properties (VObj _ ps) = ps" | "properties _ = []"

fun is_array :: "rval \<Rightarrow> bool" where
  "is_array (VArr _ _) = True" | "is_array _ = False"

fun is_object :: "rval \<Rightarrow> bool" where
  "is_object (VObj _ _) = True" | "is_object _ = False"

fun atom :: "rval \<Rightarrow> host" where
  "atom VUndef = HUndef" | "atom VNull = HNull" | "atom (VBool b) = HBool b" | "atom (VNum x) = HNum x"
| "atom (VStr s) = HStr s" | "atom _ = HOther"

primcorec host_of :: "rval list \<Rightarrow> rval \<Rightarrow> host" where
  "host_of S v =
     (if is_array (live S v) then HArr (map (host_of S) (elements (live S v)))
      else if is_object (live S v) then HObj (map (map_prod id (host_of S)) (properties (live S v)))
      else atom (live S v))"

record device_facts =
  df_number :: "jsnum option"
  df_stable_id :: "string option"
  df_label :: "string option"
  df_group :: "string option"
  df_labels :: "string list"

text \<open>Every caller supplies the start of the step; the other numbers have the defaults of the code.\<close>

record resolve_scope =
  rs_params :: "(string \<times> rval) list"
  rs_outputs :: "(ident, rval) jmap"
  rs_summary :: "summary_entry list"
  rs_now :: jsnum
  rs_random :: "jsnum option"
  rs_index :: "jsnum option"
  rs_count :: "jsnum option"
  rs_repeat :: "jsnum option"
  rs_device :: "device_facts option"

definition entries :: "resolve_scope \<Rightarrow> rval list" where
  "entries rs = map entry_value (rs_summary rs)"

record resolution =
  xs_next :: nat
  xs_draws :: nat
  xs_scope :: "scope option"

text \<open>The order in which an object lists its own properties: keys that are array indices first, ascending.\<close>

definition property_order :: "(string \<times> 'v) list \<Rightarrow> (string \<times> 'v) list" where
  "property_order ps =
     (let indexed = (\<lambda>p. case index_key (fst p) of None \<Rightarrow> False | Some i \<Rightarrow> i < 2 ^ 32 - 1) in
      sort_key (\<lambda>p. digits_value (fst p)) (filter indexed ps) @ filter (\<lambda>p. \<not> indexed p) ps)"

definition device_value :: "nat \<Rightarrow> device_facts option \<Rightarrow> rval" where
  "device_value i d =
     (let get = (\<lambda>f. text_or_null (case d of None \<Rightarrow> None | Some x \<Rightarrow> f x)) in
      VObj i [(''number'', case d of None \<Rightarrow> VNull | Some x \<Rightarrow> (case df_number x of None \<Rightarrow> VNull | Some q \<Rightarrow> VNum q)),
        (''stableId'', get df_stable_id), (''label'', get df_label), (''group'', get df_group),
        (''labels'', VArr (Suc i) (case d of None \<Rightarrow> [] | Some x \<Rightarrow> map VStr (df_labels x)))])"

text \<open>\<open>buildExprScope\<close>, with the next free identity.\<close>

definition build_scope :: "resolve_scope \<Rightarrow> nat \<Rightarrow> scope \<times> nat" where
  "build_scope rs i0 =
     (let copy = (\<lambda>v. to_scope_value (host_of (entries rs) v)) in
      case copy (VObj 1 (rs_params rs)) i0 of (ps, i1) \<Rightarrow>
      case copy (VObj 1 (property_order (rs_outputs rs))) i1 of (ns, i2) \<Rightarrow>
      case copy (if rs_summary rs = [] then VUndef else se_output (last (rs_summary rs))) i2 of (inp, i3) \<Rightarrow>
      case copy summary_ref i3 of (sm, i4) \<Rightarrow>
        (\<lparr>sc_params = ps, sc_nodes = ns, sc_input = inp,
          sc_run = VObj i4 [(''summary'', sm), (''index'', VNum (coalesce (rs_index rs) (JFin 0))),
                            (''count'', VNum (coalesce (rs_count rs) (JFin 1))), (''repeat'', VNum (coalesce (rs_repeat rs) (JFin 0)))],
          sc_now = rs_now rs, sc_random = coalesce (rs_random rs) (JFin 0),
          sc_device = device_value (Suc i4) (rs_device rs)\<rparr>, i4 + 3))"

text \<open>One scope per step, built at the first expression.\<close>

definition expr_scope :: "resolve_scope \<Rightarrow> resolution \<Rightarrow> scope \<times> resolution" where
  "expr_scope rs x = (case xs_scope x of
     Some sc \<Rightarrow> (sc, x)
   | None \<Rightarrow> (case build_scope rs (xs_next x) of (sc, i) \<Rightarrow> (sc, x\<lparr>xs_scope := Some sc, xs_next := i, xs_draws := 0\<rparr>)))"

section \<open>Value expressions\<close>

text \<open>Why a value could not be read, with the data of the message; the code is \<open>no_such_node\<close> for \<open>NeverRan\<close> and \<open>unresolved\<close> otherwise.\<close>

datatype unresolved =
    NotSupplied ident
  | NeverRan ident
  | NoPath string ident "string list option"
  | ExprRefused string parse_fail nat
  | ExprThrew string expr_error

type_synonym outcome = "unresolved + rval"

definition saw_keys :: "rval list \<Rightarrow> rval \<Rightarrow> string list option" where
  "saw_keys S v = (case live S v of
     VArr _ xs \<Rightarrow> Some (take max_saw_keys (map nat_digits [0..<length xs]))
   | VObj _ ps \<Rightarrow> Some (take max_saw_keys (map fst ps))
   | _ \<Rightarrow> None)"

fun walk_path :: "rval list \<Rightarrow> rval \<Rightarrow> string list \<Rightarrow> rval option" where
  "walk_path S cur [] = Some cur"
| "walk_path S cur (k # ks) = (case live S cur of
     VArr _ xs \<Rightarrow>
       if k \<noteq> [] \<and> list_all is_digit k \<and> digits_value k < 2 ^ 53 \<and> digits_value k < length xs
       then walk_path S (xs ! digits_value k) ks else None
   | VObj _ ps \<Rightarrow> (case map_of ps k of None \<Rightarrow> None | Some v \<Rightarrow> walk_path S v ks)
   | _ \<Rightarrow> None)"

definition resolve_path :: "rval list \<Rightarrow> rval \<Rightarrow> string option \<Rightarrow> rval option" where
  "resolve_path S v path = (case path of
     None \<Rightarrow> Some v
   | Some p \<Rightarrow> if p = [] then Some v else walk_path S v (split_text p ''.''))"

definition resolve_expr :: "library \<Rightarrow> resolve_scope \<Rightarrow> string \<Rightarrow> resolution \<Rightarrow> outcome \<times> resolution" where
  "resolve_expr lib rs src x = (case parse src of
     Parsed e _ _ \<Rightarrow>
       (case expr_scope rs x of (sc, x1) \<Rightarrow>
          case evaluate lib max_steps (xs_draws x1) (xs_next x1) sc e of (r, s) \<Rightarrow>
            (case r of Inl err \<Rightarrow> Inl (ExprThrew src err) | Inr v \<Rightarrow> Inr v,
             x1\<lparr>xs_draws := ev_draws s, xs_next := ev_next s\<rparr>))
   | Failed err off \<Rightarrow> (Inl (ExprRefused src err off), x)
   | Spent \<Rightarrow> (Inl (ExprRefused src TooDeep 0), x))"

definition resolve_value :: "library \<Rightarrow> resolve_scope \<Rightarrow> value_expr \<Rightarrow> resolution \<Rightarrow> outcome \<times> resolution" where
  "resolve_value lib rs e x = (case e of
     EConst v \<Rightarrow> (Inr v, x)
   | ERunSummary \<Rightarrow> (Inr summary_ref, x)
   | EExpr src \<Rightarrow> resolve_expr lib rs src x
   | EParam k \<Rightarrow> ((case map_of (rs_params rs) k of Some v \<Rightarrow> Inr v | None \<Rightarrow> Inl (NotSupplied k)), x)
   | EFrom node path opt dflt \<Rightarrow>
      ((case jm_get (rs_outputs rs) node of
          None \<Rightarrow> if opt then Inr dflt else Inl (NeverRan node)
        | Some out \<Rightarrow>
           (case resolve_path (entries rs) out path of
              Some v \<Rightarrow> Inr v
            | None \<Rightarrow> if opt then Inr dflt
                      else Inl (NoPath (coalesce path []) node (saw_keys (entries rs) out)))), x))"

section \<open>Comparisons\<close>

definition exists_as_value :: "outcome \<Rightarrow> bool" where
  "exists_as_value r = (case r of Inl _ \<Rightarrow> False | Inr v \<Rightarrow> \<not> nullish v)"

definition is_empty_value :: "rval list \<Rightarrow> rval \<Rightarrow> bool" where
  "is_empty_value S v = empty_value (live S v)"

text \<open>\<open>deepEqual\<close>; the first argument is how many more levels may be entered.\<close>

fun wf_equal :: "nat \<Rightarrow> rval list \<Rightarrow> rval \<Rightarrow> rval \<Rightarrow> bool" where
  "wf_equal 0 S a b = False"
| "wf_equal (Suc n) S a b =
     (strict_eq a b \<or> (case (live S a, live S b) of
        (VArr _ xs, VArr _ ys) \<Rightarrow> length xs = length ys \<and> list_all2 (wf_equal n S) xs ys
      | (VObj _ ps, VObj _ qs) \<Rightarrow> length ps = length qs
          \<and> list_all (\<lambda>(k, v). case map_of qs k of None \<Rightarrow> False | Some u \<Rightarrow> wf_equal n S v u) ps
      | _ \<Rightarrow> False))"

definition equal_depth :: nat where "equal_depth = 65"

definition contains_value :: "rval list \<Rightarrow> rval \<Rightarrow> rval \<Rightarrow> bool" where
  "contains_value S left right = (case live S left of
     VStr s \<Rightarrow> (case right of VStr t \<Rightarrow> has_substring s t | _ \<Rightarrow> False)
   | VArr _ xs \<Rightarrow> list_ex (\<lambda>x. wf_equal equal_depth S x right) xs
   | _ \<Rightarrow> False)"

definition length_equals :: "rval list \<Rightarrow> rval \<Rightarrow> rval \<Rightarrow> bool" where
  "length_equals S left right =
     (let len = (case live S left of VStr s \<Rightarrow> Some (length s) | VArr _ xs \<Rightarrow> Some (length xs) | _ \<Rightarrow> None) in
      case (len, right) of (Some n, VNum x) \<Rightarrow> finite_val x = Some (of_nat n) | _ \<Rightarrow> False)"

definition numeric_compare :: "(jsnum \<Rightarrow> jsnum \<Rightarrow> bool) \<Rightarrow> rval \<Rightarrow> rval \<Rightarrow> bool" where
  "numeric_compare r left right = (case (left, right) of
     (VNum a, VNum b) \<Rightarrow> \<not> js_is_nan a \<and> \<not> js_is_nan b \<and> r a b | _ \<Rightarrow> False)"

definition affix_of :: "(string \<Rightarrow> string \<Rightarrow> bool) \<Rightarrow> rval \<Rightarrow> rval \<Rightarrow> bool" where
  "affix_of r left right = (case (left, right) of (VStr s, VStr t) \<Rightarrow> r t s | _ \<Rightarrow> False)"

section \<open>Predicates\<close>

definition value_or_undef :: "outcome \<Rightarrow> rval" where
  "value_or_undef r = (case r of Inl _ \<Rightarrow> VUndef | Inr v \<Rightarrow> v)"

definition resolved :: "outcome \<Rightarrow> bool" where
  "resolved r = (case r of Inl _ \<Rightarrow> False | Inr _ \<Rightarrow> True)"

text \<open>The verdict of a leaf on its two outcomes; the right one is absent when the leaf has no right side.\<close>

definition leaf_verdict :: "rval list \<Rightarrow> gate_op \<Rightarrow> outcome \<Rightarrow> outcome option \<Rightarrow> bool" where
  "leaf_verdict S op l r =
     (let lv = value_or_undef l; rv = (case r of None \<Rightarrow> VUndef | Some o1 \<Rightarrow> value_or_undef o1);
          both = resolved l \<and> (case r of None \<Rightarrow> True | Some o1 \<Rightarrow> resolved o1) in
      case op of
        GExists \<Rightarrow> exists_as_value l
      | GNotExists \<Rightarrow> \<not> exists_as_value l
      | GIsEmpty \<Rightarrow> \<not> resolved l \<or> is_empty_value S lv
      | GNotEmpty \<Rightarrow> resolved l \<and> \<not> is_empty_value S lv
      | GEq \<Rightarrow> both \<and> wf_equal equal_depth S lv rv
      | GNe \<Rightarrow> both \<and> \<not> wf_equal equal_depth S lv rv
      | GLt \<Rightarrow> both \<and> numeric_compare js_lt lv rv
      | GLte \<Rightarrow> both \<and> numeric_compare js_le lv rv
      | GGt \<Rightarrow> both \<and> numeric_compare (\<lambda>a b. js_lt b a) lv rv
      | GGte \<Rightarrow> both \<and> numeric_compare (\<lambda>a b. js_le b a) lv rv
      | GContains \<Rightarrow> both \<and> contains_value S lv rv
      | GNotContains \<Rightarrow> both \<and> \<not> contains_value S lv rv
      | GStartsWith \<Rightarrow> both \<and> affix_of prefix lv rv
      | GEndsWith \<Rightarrow> both \<and> affix_of suffix lv rv
      | GLength \<Rightarrow> both \<and> length_equals S lv rv)"

text \<open>\<open>TLeaf op left right leftUnresolved rightUnresolved value\<close>.\<close>

datatype trace =
    TLeaf gate_op rval rval "unresolved option" "unresolved option" bool
  | TAll bool "trace list"
  | TAny bool "trace list"
  | TNot bool trace

fun trace_value :: "trace \<Rightarrow> bool" where
  "trace_value (TLeaf _ _ _ _ _ v) = v"
| "trace_value (TAll v _) = v"
| "trace_value (TAny v _) = v"
| "trace_value (TNot v _) = v"

definition reason :: "outcome \<Rightarrow> unresolved option" where
  "reason r = (case r of Inl e \<Rightarrow> Some e | Inr _ \<Rightarrow> None)"

definition evaluate_leaf :: "library \<Rightarrow> resolve_scope \<Rightarrow> value_expr \<Rightarrow> gate_op \<Rightarrow> value_expr option \<Rightarrow> resolution
    \<Rightarrow> trace \<times> resolution" where
  "evaluate_leaf lib rs left op right x =
     (case resolve_value lib rs left x of (l, x1) \<Rightarrow>
      case (case right of None \<Rightarrow> (None, x1) | Some e \<Rightarrow> map_prod Some id (resolve_value lib rs e x1)) of (r, x2) \<Rightarrow>
        (TLeaf op (value_or_undef l) (case r of None \<Rightarrow> VUndef | Some o1 \<Rightarrow> value_or_undef o1)
           (reason l) (case r of None \<Rightarrow> None | Some o1 \<Rightarrow> reason o1) (leaf_verdict (entries rs) op l r), x2))"

text \<open>\<open>xs.map(f)\<close> for a function with effects: every element, in order.\<close>

fun thread :: "('a \<Rightarrow> 's \<Rightarrow> 'b \<times> 's) \<Rightarrow> 'a list \<Rightarrow> 's \<Rightarrow> 'b list \<times> 's" where
  "thread f [] s = ([], s)"
| "thread f (x # xs) s = (case f x s of (y, s1) \<Rightarrow> case thread f xs s1 of (ys, s2) \<Rightarrow> (y # ys, s2))"

lemma thread_cong [fundef_cong]:
  "xs = ys \<Longrightarrow> s = t \<Longrightarrow> (\<And>x u. x \<in> set ys \<Longrightarrow> f x u = g x u) \<Longrightarrow> thread f xs s = thread g ys t"
  by (induction ys arbitrary: xs s t) (auto split: prod.splits)

fun evaluate_predicate :: "library \<Rightarrow> resolve_scope \<Rightarrow> predicate \<Rightarrow> resolution \<Rightarrow> trace \<times> resolution" where
  "evaluate_predicate lib rs (PAll ps) x =
     (case thread (evaluate_predicate lib rs) ps x of (ts, x1) \<Rightarrow> (TAll (list_all trace_value ts) ts, x1))"
| "evaluate_predicate lib rs (PAny ps) x =
     (case thread (evaluate_predicate lib rs) ps x of (ts, x1) \<Rightarrow> (TAny (list_ex trace_value ts) ts, x1))"
| "evaluate_predicate lib rs (PNot p) x =
     (case evaluate_predicate lib rs p x of (t, x1) \<Rightarrow> (TNot (\<not> trace_value t) t, x1))"
| "evaluate_predicate lib rs (PLeaf left op right) x = evaluate_leaf lib rs left op right x"

section \<open>Properties\<close>

text \<open>The connectives obey the laws of logic, the draws their operands take included.\<close>

lemma thread_negations:
  assumes "\<And>p x. p \<in> set ps \<Longrightarrow> evaluate_predicate lib rs (f p) x
      = (TNot (\<not> trace_value (fst (evaluate_predicate lib rs p x))) (fst (evaluate_predicate lib rs p x)),
         snd (evaluate_predicate lib rs p x))"
  shows "thread (\<lambda>p. evaluate_predicate lib rs (f p)) ps x
      = (map (\<lambda>t. TNot (\<not> trace_value t) t) (fst (thread (evaluate_predicate lib rs) ps x)),
         snd (thread (evaluate_predicate lib rs) ps x))"
  using assms by (induction ps arbitrary: x) (auto split: prod.splits)

lemma thread_map: "thread f (map g ps) x = thread (\<lambda>p. f (g p)) ps x"
  by (induction ps arbitrary: x) (auto split: prod.splits)

lemma thread_PNot:
  "thread (evaluate_predicate lib rs) (map PNot ps) x
     = (map (\<lambda>t. TNot (\<not> trace_value t) t) (fst (thread (evaluate_predicate lib rs) ps x)),
        snd (thread (evaluate_predicate lib rs) ps x))"
  unfolding thread_map by (rule thread_negations) (simp split: prod.split)

text \<open>
  De Morgan's laws hold of the predicates of a workflow as they are evaluated, on every scope: negating a
  conjunction gives the verdict of the disjunction of the negations, and the other way round, and leaves the same state of the step (draws taken,
  scope built), since every operand is evaluated whatever the others say.
\<close>

theorem predicates_de_morgan:
  "map_prod trace_value id (evaluate_predicate lib rs (PNot (PAll ps)) x)
     = map_prod trace_value id (evaluate_predicate lib rs (PAny (map PNot ps)) x)
   \<and> map_prod trace_value id (evaluate_predicate lib rs (PNot (PAny ps)) x)
     = map_prod trace_value id (evaluate_predicate lib rs (PAll (map PNot ps)) x)"
  by (simp add: thread_PNot list_ex_iff list_all_iff del: thread_PNot split: prod.split) (auto simp: thread_PNot)

section \<open>Two evaluators of the same operators\<close>

text \<open>A value that does not hold on to the run summary.\<close>

fun settled :: "rval \<Rightarrow> bool" where
  "settled (VArr i xs) \<longleftrightarrow> i \<noteq> 0 \<and> list_all settled xs"
| "settled (VObj i ps) \<longleftrightarrow> list_all (\<lambda>(k, v). settled v) ps"
| "settled _ \<longleftrightarrow> True"

lemma settled_live [simp]: "settled v \<Longrightarrow> live S v = v"
  by (cases v) (auto simp: live_def)

lemma fold_max_bound: "fold max xs (a::nat) \<le> n \<longleftrightarrow> a \<le> n \<and> (\<forall>x \<in> set xs. x \<le> n)"
  by (induction xs arbitrary: a) auto

lemma height_element: "x \<in> set xs \<Longrightarrow> height x < height (VArr i xs)"
  using fold_max_bound [of "map height xs" 0 "fold max (map height xs) 0"] by (auto simp: less_Suc_eq_le)

lemma height_property: "(k, v) \<in> set ps \<Longrightarrow> height v < height (VObj i ps)"
  using fold_max_bound [of "map (\<lambda>(k, v). height v) ps" 0 "fold max (map (\<lambda>(k, v). height v) ps) 0"]
  by (auto simp: less_Suc_eq_le)

lemma equal_to_gate_equal:
  "height a < n \<Longrightarrow> height a < m \<Longrightarrow> settled a \<Longrightarrow> settled b \<Longrightarrow> wf_equal m S a b = gate_equal n a b"
proof (induction n arbitrary: m a b)
  case (Suc n)
  then obtain m' where m: "m = Suc m'" by (cases m) auto
  have below: "wf_equal m' S u w = gate_equal n u w" if "height u < height a" "settled u" "settled w" for u w
    using Suc.prems m that by (intro Suc.IH) auto
  have elems: "list_all2 (wf_equal m' S) xs ys = list_all2 (gate_equal n) xs ys"
    if "a = VArr i xs" "b = VArr j ys" for i j xs ys
  proof -
    have "wf_equal m' S x y = gate_equal n x y" if "x \<in> set xs" "y \<in> set ys" for x y
      using Suc.prems that height_element [of x xs i] \<open>a = _\<close> \<open>b = _\<close> by (intro below) (auto simp: list_all_iff)
    then show ?thesis by (intro list.rel_cong) simp_all
  qed
  have props: "list_all (\<lambda>(k, v). case map_of qs k of None \<Rightarrow> False | Some u \<Rightarrow> wf_equal m' S v u) ps
      = list_all (\<lambda>(k, v). case map_of qs k of None \<Rightarrow> False | Some u \<Rightarrow> gate_equal n v u) ps"
    if "a = VObj i ps" "b = VObj j qs" for i j ps qs
  proof -
    have "wf_equal m' S v u = gate_equal n v u" if "(k, v) \<in> set ps" "map_of qs k = Some u" for k v u
      using Suc.prems that height_property [of k v ps i] \<open>a = _\<close> \<open>b = _\<close>
      by (intro below) (auto simp: list_all_iff dest!: map_of_SomeD)
    then show ?thesis by (auto simp: list_all_iff split: option.split)
  qed
  show ?case using Suc.prems m elems props by (auto split: rval.split)
qed simp

lemma contains_to_gate_contains:
  assumes "height a \<le> 20" "settled a" "settled b"
  shows "contains_value S a b = gate_contains (Some a) b"
proof (cases a)
  case (VArr i xs)
  have "wf_equal equal_depth S x b = gate_deep_equal x b" if "x \<in> set xs" for x
    unfolding gate_deep_equal_def
    using assms VArr that height_element [OF that, of i]
    by (intro equal_to_gate_equal) (auto simp: equal_depth_def max_depth_def list_all_iff)
  with assms VArr show ?thesis by (simp add: contains_value_def gate_contains_def list_ex_iff)
qed (use assms in \<open>auto simp: contains_value_def gate_contains_def live_def\<close>)

text \<open>
  C36: The two evaluators of the gate operators agree. On settled values nested at most 20 deep, a leaf of a
  workflow predicate whose sides resolve decides what \<open>filterWhere\<close> of the expression language decides; when the left side does not
  resolve they agree on every operator but \<open>notContains\<close>, which is false in a gate and true in the filter.
\<close>

theorem gate_operators_agree:
  assumes "settled a" "settled b" "height a \<le> 20"
  shows "leaf_verdict S op (Inr a) (Some (Inr b)) = gate_compare op (Some a) b
    \<and> (leaf_verdict S op (Inl why) (Some (Inr b)) = gate_compare op None b \<longleftrightarrow> op \<noteq> GNotContains)"
proof -
  have eq: "wf_equal equal_depth S a b = gate_deep_equal a b"
    unfolding gate_deep_equal_def using assms by (intro equal_to_gate_equal) (auto simp: equal_depth_def max_depth_def)
  have "length_equals S a b = gate_length (Some a) b" "is_empty_value S a = empty_value a"
    using assms by (simp_all add: length_equals_def gate_length_def is_empty_value_def)
  moreover have "numeric_compare f a b = gate_order f (Some a) b" for f
    by (auto simp: numeric_compare_def gate_order_def js_is_nan_def split: rval.split)
  moreover have "affix_of f a b = gate_affix f (Some a) b" for f
    by (auto simp: affix_of_def gate_affix_def split: rval.split)
  ultimately have "leaf_verdict S op (Inr a) (Some (Inr b)) = gate_compare op (Some a) b"
    using eq contains_to_gate_contains [OF assms(3,1,2)]
    by (cases op) (simp_all add: leaf_verdict_def gate_compare_def exists_as_value_def value_or_undef_def resolved_def)
  moreover have "leaf_verdict S op (Inl why) (Some (Inr b)) = gate_compare op None b \<longleftrightarrow> op \<noteq> GNotContains"
    by (cases op) (simp_all add: leaf_verdict_def gate_compare_def exists_as_value_def value_or_undef_def resolved_def
        gate_contains_def gate_order_def gate_affix_def gate_length_def)
  ultimately show ?thesis by blast
qed

definition demo_list :: rval where
  "demo_list = VArr 5 [VStr ''a'', VObj 6 [(''k'', VNum (JFin 1))]]"

theorem gate_operators_agree_witness:
  "leaf_verdict [] GContains (Inr demo_list) (Some (Inr (VObj 7 [(''k'', VNum (JFin 1))])))
   \<and> \<not> leaf_verdict [] GNotContains (Inl (NeverRan ''n'')) (Some (Inr VNull))"
proof -
  have "settled demo_list" "height demo_list \<le> 20" by (simp_all add: demo_list_def)
  note agree = gate_operators_agree [OF this(1) _ this(2)]
  have "gate_compare GContains (Some demo_list) (VObj 7 [(''k'', VNum (JFin 1))])"
    by (simp add: gate_compare_def gate_contains_def demo_list_def gate_deep_equal_def js_num_eq_def max_depth_def eval_nat_numeral)
  moreover have "gate_compare GNotContains None VNull" by (simp add: gate_compare_def gate_contains_def)
  ultimately show ?thesis
    using agree [of "VObj 7 [(''k'', VNum (JFin 1))]" "[]" GContains] agree [of VNull "[]" GNotContains "NeverRan ''n''"]
    by simp
qed

end
