(* ===== verification/WfSteps.thy ===== *)
theory WfSteps
  imports WfResolve "HOL-Library.Multiset"
begin

text \<open>
  What one node of a workflow computes: the dotted write of a \<open>set\<close> node (\<open>setPath\<close> of
  \<open>packages/protocol/src/workflow-set.ts\<close>) and the pure half of the control flow that the executor and the simulator share
  (\<open>packages/core/src/workflows/step-compute.ts\<close>).
\<close>

section \<open>The dotted write\<close>

datatype path_error = EmptySegment string | DigitsSegment string string

definition digits_only :: "string \<Rightarrow> bool" where
  "digits_only s \<longleftrightarrow> s \<noteq> [] \<and> list_all is_digit s"

definition path_segments :: "string \<Rightarrow> string list" where
  "path_segments name = split_text name ''.''"

fun bad_segment :: "string \<Rightarrow> string list \<Rightarrow> path_error option" where
  "bad_segment name [] = None"
| "bad_segment name (s # ss) = (if s = [] then Some (EmptySegment name)
     else if digits_only s then Some (DigitsSegment name s) else bad_segment name ss)"

text \<open>\<open>cursor[key] = value\<close>. A \<open>__proto__\<close> that is not an own property is the prototype, which is no part of the value.\<close>

definition set_own :: "string \<Rightarrow> rval \<Rightarrow> (string \<times> rval) list \<Rightarrow> (string \<times> rval) list" where
  "set_own k v ps = (if k = ''__proto__'' \<and> map_of ps k = None then ps else jm_set k v ps)"

text \<open>The write into a copy; every nested copy is a new object.\<close>

fun put_path :: "(string \<times> rval) list \<Rightarrow> string list \<Rightarrow> rval \<Rightarrow> nat \<Rightarrow> (string \<times> rval) list \<times> nat" where
  "put_path ps [] v i = (ps, i)"
| "put_path ps [k] v i = (set_own k v ps, i)"
| "put_path ps (k # k2 # ks) v i =
     (let sub = (case map_of ps k of Some (VObj _ qs) \<Rightarrow> qs | _ \<Rightarrow> []) in
      case put_path sub (k2 # ks) v (Suc i) of (qs, j) \<Rightarrow> (set_own k (VObj i qs) ps, j))"

definition set_path :: "(string \<times> rval) list \<Rightarrow> string \<Rightarrow> rval \<Rightarrow> nat \<Rightarrow> path_error + (string \<times> rval) list \<times> nat" where
  "set_path base name v i = (case bad_segment name (path_segments name) of
     Some e \<Rightarrow> Inl e
   | None \<Rightarrow> Inr (put_path base (path_segments name) v i))"

section \<open>Edges\<close>

text \<open>The names of the edges; \<open>Case i\<close> is \<open>case:i\<close> and \<open>Member m\<close> is \<open>member:m\<close>.\<close>

datatype edge = Next | Then | Else | Default | Case nat | Member ident | OnFailure

definition first_index :: "('a \<Rightarrow> bool) \<Rightarrow> 'a list \<Rightarrow> nat option" where
  "first_index P xs = find (\<lambda>i. P (xs ! i)) [0..<length xs]"

definition default_edge_for :: "node_body \<Rightarrow> edge" where
  "default_edge_for b = (case b of
     Gate _ th _ \<Rightarrow> if th \<noteq> None then Then else Else
   | Switch _ cases _ \<Rightarrow> (case first_index (\<lambda>c. cs_to c \<noteq> None) cases of None \<Rightarrow> Default | Some i \<Rightarrow> Case i)
   | Shuffle ms _ _ _ _ \<Rightarrow> (case ms of m # _ \<Rightarrow> Member m | [] \<Rightarrow> Next)
   | _ \<Rightarrow> Next)"

text \<open>
  The index a \<open>switch\<close> reads off an edge name: \<open>Number(edge.slice(5))\<close>, which is 0 for the four-letter names,
  whose slice is empty, and not a number for \<open>member:m\<close> and \<open>onFailure\<close>.
\<close>

definition case_index :: "edge \<Rightarrow> nat option" where
  "case_index e = (case e of Case i \<Rightarrow> Some i | Next \<Rightarrow> Some 0 | Then \<Rightarrow> Some 0 | Else \<Rightarrow> Some 0 | _ \<Rightarrow> None)"

definition successor_of :: "node_body \<Rightarrow> edge \<Rightarrow> ident option" where
  "successor_of b e = (case b of
     Gate _ th el \<Rightarrow> if e = Then then th else el
   | Switch _ cases dflt \<Rightarrow>
       if e = Default then dflt
       else (case case_index e of None \<Rightarrow> None
             | Some i \<Rightarrow> if i < length cases then cs_to (cases ! i) else None)
   | Script _ _ _ nxt _ \<Rightarrow> nxt
   | Delay _ _ nxt \<Rightarrow> nxt
   | SetFields _ _ nxt \<Rightarrow> nxt
   | Shuffle ms _ _ _ nxt \<Rightarrow> (case e of Member m \<Rightarrow> if m \<in> set ms then Some m else None | _ \<Rightarrow> nxt)
   | Start _ \<Rightarrow> None
   | Finish _ _ \<Rightarrow> None)"

section \<open>Gate and switch\<close>

definition fresh_object :: "(string \<times> rval) list \<Rightarrow> resolution \<Rightarrow> rval \<times> resolution" where
  "fresh_object ps x = (VObj (xs_next x) ps, x\<lparr>xs_next := Suc (xs_next x)\<rparr>)"

definition compute_gate :: "library \<Rightarrow> resolve_scope \<Rightarrow> predicate \<Rightarrow> ident option \<Rightarrow> ident option \<Rightarrow> resolution
    \<Rightarrow> (trace \<times> edge \<times> rval) \<times> resolution" where
  "compute_gate lib rs p th el x =
     (case evaluate_predicate lib rs p x of (t, x1) \<Rightarrow>
      case fresh_object [(''value'', VBool (trace_value t)),
                         (''branch'', text_or_null (if trace_value t then th else el))] x1 of (out, x2) \<Rightarrow>
        ((t, if trace_value t then Then else Else, out), x2))"

text \<open>The weighted draw: the first case at which the remainder is used up.\<close>

fun draw_case :: "jsnum \<Rightarrow> nat \<Rightarrow> jsnum list \<Rightarrow> nat option" where
  "draw_case remaining i [] = None"
| "draw_case remaining i (w # ws) =
     (let rest = js_sub remaining w in if js_le rest (JFin 0) then Some i else draw_case rest (Suc i) ws)"

definition weighted_case :: "resolve_scope \<Rightarrow> switch_case list \<Rightarrow> nat" where
  "weighted_case rs cases =
     (let weights = map (\<lambda>c. coalesce (cs_weight c) (JFin 0)) cases;
          total = foldl js_add (JFin 0) weights in
      coalesce (draw_case (js_mul (coalesce (rs_random rs) (JFin 0)) total) 0 weights) (length cases - 1))"

text \<open>Predicate mode: cases in order, the ones without a predicate skipped, until one holds.\<close>

fun first_case :: "library \<Rightarrow> resolve_scope \<Rightarrow> nat \<Rightarrow> switch_case list \<Rightarrow> resolution \<Rightarrow> nat option \<times> resolution" where
  "first_case lib rs i [] x = (None, x)"
| "first_case lib rs i (c # cs) x = (case cs_when c of
     None \<Rightarrow> first_case lib rs (Suc i) cs x
   | Some p \<Rightarrow> (case evaluate_predicate lib rs p x of (t, x1) \<Rightarrow>
       if trace_value t then (Some i, x1) else first_case lib rs (Suc i) cs x1))"

definition compute_switch :: "library \<Rightarrow> resolve_scope \<Rightarrow> switch_mode \<Rightarrow> switch_case list \<Rightarrow> ident option \<Rightarrow> resolution
    \<Rightarrow> (edge \<times> rval) \<times> resolution" where
  "compute_switch lib rs mode cases dflt x =
     (case (case mode of ByWeight \<Rightarrow> (Some (weighted_case rs cases), x) | ByPredicate \<Rightarrow> first_case lib rs 0 cases x) of
        (fired, x1) \<Rightarrow>
          let chosen = (case fired of None \<Rightarrow> dflt | Some i \<Rightarrow> if i < length cases then cs_to (cases ! i) else None) in
          case fresh_object [(''case'', case fired of None \<Rightarrow> VNull | Some i \<Rightarrow> num_of_nat i),
                             (''branch'', text_or_null chosen)] x1 of (out, x2) \<Rightarrow>
            ((case fired of None \<Rightarrow> Default | Some i \<Rightarrow> Case i, out), x2))"

section \<open>Set\<close>

datatype set_error =
    NameUnresolved unresolved
  | NameNotText rval
  | ValueUnresolved string unresolved
  | BadPath path_error

fun assign_all :: "library \<Rightarrow> resolve_scope \<Rightarrow> (string \<times> rval) list \<Rightarrow> (value_expr \<times> value_expr) list \<Rightarrow> resolution
    \<Rightarrow> (set_error + (string \<times> rval) list) \<times> resolution" where
  "assign_all lib rs base [] x = (Inr base, x)"
| "assign_all lib rs base ((name, val) # rest) x =
     (case resolve_value lib rs name x of
        (Inl why, x1) \<Rightarrow> (Inl (NameUnresolved why), x1)
      | (Inr nv, x1) \<Rightarrow>
          (case nv of
             VStr s \<Rightarrow>
               if s = [] then (Inl (NameNotText nv), x1)
               else (case resolve_value lib rs val x1 of
                  (Inl why, x2) \<Rightarrow> (Inl (ValueUnresolved s why), x2)
                | (Inr v, x2) \<Rightarrow>
                    (case set_path base s v (xs_next x2) of
                       Inl e \<Rightarrow> (Inl (BadPath e), x2)
                     | Inr (base', i) \<Rightarrow> assign_all lib rs base' rest (x2\<lparr>xs_next := i\<rparr>)))
           | _ \<Rightarrow> (Inl (NameNotText nv), x1)))"

definition compute_set :: "library \<Rightarrow> resolve_scope \<Rightarrow> (value_expr \<times> value_expr) list \<Rightarrow> bool \<Rightarrow> rval \<Rightarrow> resolution
    \<Rightarrow> (set_error + rval) \<times> resolution" where
  "compute_set lib rs assigns keep_only inp x =
     (let base = (if keep_only then [] else case live (entries rs) inp of VObj _ ps \<Rightarrow> ps | _ \<Rightarrow> []) in
      case assign_all lib rs base assigns x of
        (Inl e, x1) \<Rightarrow> (Inl e, x1)
      | (Inr ps, x1) \<Rightarrow> map_prod Inr id (fresh_object ps x1))"

section \<open>Waits\<close>

text \<open>A wait that is not a finite number is none, and the declared ceiling clamps it.\<close>

definition clamp_wait :: "outcome \<Rightarrow> nat \<Rightarrow> jsnum" where
  "clamp_wait r limit =
     (let raw = (case r of Inr (VNum q) \<Rightarrow> if finite_val q \<noteq> None then q else JFin 0 | _ \<Rightarrow> JFin 0) in
      js_max (JFin 0) (js_min raw (JFin (of_nat limit))))"

definition compute_delay :: "library \<Rightarrow> resolve_scope \<Rightarrow> value_expr \<Rightarrow> nat \<Rightarrow> resolution \<Rightarrow> jsnum \<times> resolution" where
  "compute_delay lib rs ms max_ms x = (case resolve_value lib rs ms x of (r, x1) \<Rightarrow> (clamp_wait r max_ms, x1))"

definition compute_between :: "library \<Rightarrow> resolve_scope \<Rightarrow> value_expr \<Rightarrow> nat \<Rightarrow> bool \<Rightarrow> resolution \<Rightarrow> jsnum \<times> resolution" where
  "compute_between lib rs between between_max is_first x =
     (if is_first then (JFin 0, x)
      else case resolve_value lib rs between x of (r, x1) \<Rightarrow> (clamp_wait r between_max, x1))"

section \<open>Shuffle\<close>

record shuffle_step =
  sh_edge :: edge
  sh_chosen :: "ident option"
  sh_done :: "ident list"
  sh_remaining :: nat

text \<open>One visit: draw the next of the enabled members not yet done, or leave. An index outside the list reads \<open>undefined\<close>.\<close>

definition compute_shuffle :: "ident list \<Rightarrow> ident set \<Rightarrow> jsnum \<Rightarrow> (ident \<Rightarrow> bool) \<Rightarrow> shuffle_step" where
  "compute_shuffle ms done seed enabled =
     (let remaining = filter (\<lambda>m. m \<notin> done \<and> enabled m) ms;
          done_list = filter (\<lambda>m. m \<in> done) ms;
          n = length remaining in
      if n = 0 then \<lparr>sh_edge = Next, sh_chosen = None, sh_done = done_list, sh_remaining = 0\<rparr>
      else let index = js_min (js_floor (js_mul seed (JFin (of_nat n)))) (JFin (of_nat (n - 1)));
               chosen = (case int_of_num index of
                  Some k \<Rightarrow> if 0 \<le> k \<and> k < int n then remaining ! nat k else ''undefined''
                | None \<Rightarrow> ''undefined'') in
           \<lparr>sh_edge = Member chosen, sh_chosen = Some chosen, sh_done = done_list, sh_remaining = n - 1\<rparr>)"

section \<open>Waits stay within their ceiling\<close>


section \<open>The dotted write is a write\<close>

lemma split_on_nonempty: "split_on sep part s \<noteq> []"
  by (induction sep part s rule: split_on.induct) (subst split_on.simps, auto split: list.split)

lemma path_segments_nonempty [simp]: "path_segments name \<noteq> []"
  by (simp add: path_segments_def split_text_def split_on_nonempty)

lemma bad_segment_iff: "bad_segment name ss \<noteq> None \<longleftrightarrow> list_ex (\<lambda>s. s = [] \<or> digits_only s) ss"
  by (induction ss) auto

lemma set_own_get: "k \<noteq> ''__proto__'' \<Longrightarrow> map_of (set_own k v ps) q = (if q = k then Some v else map_of ps q)"
  by (simp add: set_own_def)

lemma put_path_other_field: "k \<noteq> hd ks \<Longrightarrow> hd ks \<noteq> ''__proto__'' \<Longrightarrow> map_of (fst (put_path ps ks v i)) k = map_of ps k"
  by (induction ps ks v i rule: put_path.induct) (auto simp: set_own_get Let_def split: prod.split)

lemma put_path_read_back:
  "ks \<noteq> [] \<Longrightarrow> ''__proto__'' \<notin> set ks \<Longrightarrow> walk_path S (VObj x (fst (put_path ps ks v i))) ks = Some v"
  by (induction ps ks v i arbitrary: x rule: put_path.induct)
     (auto simp: set_own_get Let_def live_def split: prod.split)

lemma put_path_invents_nothing:
  "''__proto__'' \<notin> set ks \<Longrightarrow> parallel ks qs \<Longrightarrow> walk_path S (VObj x (fst (put_path ps ks v i))) qs = Some u
     \<Longrightarrow> walk_path S (VObj y ps) qs = Some u"
proof (induction ps ks v i arbitrary: x y qs rule: put_path.induct)
  case (2 ps k v i)
  then show ?case by (cases qs) (auto simp: set_own_get live_def split: option.splits if_splits)
next
  case (3 ps k k2 ks v i)
  define sub where "sub = (case map_of ps k of Some (VObj _ qs) \<Rightarrow> qs | _ \<Rightarrow> [])"
  obtain r j where r: "put_path sub (k2 # ks) v (Suc i) = (r, j)" by (cases "put_path sub (k2 # ks) v (Suc i)")
  from 3(3) obtain q rest where qs: "qs = q # rest" by (cases qs) auto
  have new: "fst (put_path ps (k # k2 # ks) v i) = set_own k (VObj i r) ps" using r by (simp add: sub_def)
  show ?case
  proof (cases "q = k")
    case False
    with 3 qs new show ?thesis by (auto simp: set_own_get live_def split: option.splits)
  next
    case True
    with 3(2-4) qs new have par: "parallel (k2 # ks) rest" and w: "walk_path S (VObj i r) rest = Some u"
      by (auto simp: set_own_get live_def parallel_def)
    have "walk_path S (VObj y sub) rest = Some u" for y
      using 3(1) [OF sub_def _ par, of i y] 3(2) w r by simp
    moreover have "rest \<noteq> []" using par by auto
    ultimately show ?thesis using qs True
      by (cases rest) (auto simp: sub_def live_def split: option.splits rval.splits)
  qed
qed auto


lemma demo_segments: "path_segments ''a.b'' = [''a'', ''b'']"
  by (simp add: path_segments_def split_text_def split_on.simps)


section \<open>A shuffle runs every enabled member exactly once\<close>

text \<open>The visits of one shuffle, each with the word its draw is made of.\<close>

fun shuffle_visits :: "ident list \<Rightarrow> (ident \<Rightarrow> bool) \<Rightarrow> ident set \<Rightarrow> word32 list \<Rightarrow> shuffle_step list" where
  "shuffle_visits ms enabled done [] = []"
| "shuffle_visits ms enabled done (w # ws) =
     (let s = compute_shuffle ms done (unit_interval w) enabled in
      s # shuffle_visits ms enabled (case sh_chosen s of None \<Rightarrow> done | Some m \<Rightarrow> insert m done) ws)"

definition left_over :: "ident list \<Rightarrow> (ident \<Rightarrow> bool) \<Rightarrow> ident set \<Rightarrow> ident list" where
  "left_over ms enabled done = filter (\<lambda>m. m \<notin> done \<and> enabled m) ms"

lemma compute_shuffle_leaves: "left_over ms enabled done = [] \<Longrightarrow> sh_edge (compute_shuffle ms done q enabled) = Next
    \<and> sh_chosen (compute_shuffle ms done q enabled) = None"
  by (simp add: compute_shuffle_def left_over_def)

lemma compute_shuffle_draws:
  assumes "left_over ms enabled done = r" "r \<noteq> []" "length r \<le> 2 ^ 21"
  shows "sh_chosen (compute_shuffle ms done (unit_interval w) enabled) = Some (r ! (unat w * length r div 2 ^ 32))
    \<and> sh_edge (compute_shuffle ms done (unit_interval w) enabled) = Member (r ! (unat w * length r div 2 ^ 32))
    \<and> unat w * length r div 2 ^ 32 < length r"
proof -
  define k where "k = unat w * length r div 2 ^ 32"
  have k: "js_floor (js_mul (unit_interval w) (JFin (of_nat (length r)))) = JFin (of_nat k)" "k < length r"
    using unit_draw_index [of "length r" w] assms(2,3) by (simp_all add: k_def)
  then have "js_min (JFin (of_nat k)) (JFin (of_nat (length r - 1))) = JFin (of_nat k)"
    by (auto simp: js_min_def js_lt_def)
  moreover have "int_of_num (JFin (of_nat k)) = Some (int k)"
    using int_of_num_int [of "int k"] by simp
  ultimately show ?thesis unfolding k_def [symmetric]
    using k assms by (simp add: compute_shuffle_def left_over_def Let_def)
qed

lemma left_over_insert: "left_over ms enabled (insert m done) = filter (\<lambda>x. x \<noteq> m) (left_over ms enabled done)"
  by (auto simp: left_over_def intro: filter_cong)

lemma filter_nth_distinct: "distinct r \<Longrightarrow> k < length r \<Longrightarrow> mset r = add_mset (r ! k) (mset (filter (\<lambda>x. x \<noteq> r ! k) r))"
proof -
  assume r: "distinct r" "k < length r"
  have "filter (\<lambda>x. x \<noteq> r ! k) r = remove1 (r ! k) r"
    by (simp add: distinct_remove1_removeAll [OF r(1)] removeAll_filter_not_eq eq_commute)
  with r show ?thesis by simp
qed

lemma left_over_nonempty: "left_over ms enabled done = r \<Longrightarrow> r \<noteq> [] \<Longrightarrow> length r \<le> 2 ^ 21 \<Longrightarrow>
    shuffle_visits ms enabled done (w # ws) = (let m = r ! (unat w * length r div 2 ^ 32) in
      compute_shuffle ms done (unit_interval w) enabled # shuffle_visits ms enabled (insert m done) ws)"
  using compute_shuffle_draws [of ms enabled "done" r w] by (simp add: Let_def)

lemma visits_after_the_last:
  "left_over ms enabled done = [] \<Longrightarrow> s \<in> set (shuffle_visits ms enabled done ws) \<Longrightarrow> sh_edge s = Next"
proof (induction ws)
  case (Cons w ws)
  note leaves = compute_shuffle_leaves [OF Cons.prems(1), of "unit_interval w"]
  from Cons.prems leaves have "s = compute_shuffle ms done (unit_interval w) enabled \<or> s \<in> set (shuffle_visits ms enabled done ws)"
    by (simp add: Let_def)
  then show ?case using Cons leaves by blast
qed simp

lemma visits_are_a_permutation:
  assumes "distinct ms" "length ms \<le> 2 ^ 21"
  shows "length (left_over ms enabled done) \<le> length ws \<Longrightarrow>
    (\<exists>picks. mset picks = mset (left_over ms enabled done)
      \<and> map sh_edge (take (length picks) (shuffle_visits ms enabled done ws)) = map Member picks
      \<and> (\<forall>s \<in> set (drop (length picks) (shuffle_visits ms enabled done ws)). sh_edge s = Next))"
proof (induction ws arbitrary: "done")
  case Nil
  then show ?case by auto
next
  case (Cons w ws)
  define r where "r = left_over ms enabled done"
  show ?case
  proof (cases "r = []")
    case True
    then show ?thesis using visits_after_the_last [of ms enabled "done"]
      by (intro exI [of _ "[]"]) (auto simp: r_def simp del: shuffle_visits.simps)
  next
    case False
    have len: "length r \<le> 2 ^ 21" unfolding r_def left_over_def using assms(2) by (rule order.trans [OF length_filter_le])
    define m where "m = r ! (unat w * length r div 2 ^ 32)"
    note draws = compute_shuffle_draws [OF r_def [symmetric] False len, of w]
    have visits: "shuffle_visits ms enabled done (w # ws)
        = compute_shuffle ms done (unit_interval w) enabled # shuffle_visits ms enabled (insert m done) ws"
      using left_over_nonempty [OF r_def [symmetric] False len] by (simp add: m_def)
    have dist: "distinct r" using assms(1) by (simp add: r_def left_over_def)
    have ms: "mset r = add_mset m (mset (left_over ms enabled (insert m done)))"
      using filter_nth_distinct [OF dist] draws by (simp add: left_over_insert m_def r_def)
    have "length (left_over ms enabled (insert m done)) \<le> length ws"
      using arg_cong [OF ms, of size] Cons.prems by (simp add: r_def)
    from Cons.IH [OF this] obtain picks where "mset picks = mset (left_over ms enabled (insert m done))"
        "map sh_edge (take (length picks) (shuffle_visits ms enabled (insert m done) ws)) = map Member picks"
        "\<forall>s \<in> set (drop (length picks) (shuffle_visits ms enabled (insert m done) ws)). sh_edge s = Next" by blast
    with ms draws show ?thesis unfolding r_def [symmetric]
      by (intro exI [of _ "m # picks"]) (simp add: visits m_def)
  qed
qed

text \<open>Every position of a list is drawn by some word.\<close>

lemma some_word_draws:
  assumes "k < n" "n \<le> 2 ^ 21"
  shows "\<exists>w :: word32. unat w * n div 2 ^ 32 = k"
proof -
  define u where "u = (k * 2 ^ 32 + (n - 1)) div n"
  have n: "0 < n" using assms by simp
  have lo: "k * 2 ^ 32 \<le> u * n"
  proof -
    have "k * 2 ^ 32 + (n - 1) < (u + 1) * n" using n dividend_less_div_times [of n "k * 2 ^ 32 + (n - 1)"] by (simp add: u_def)
    then show ?thesis using n by simp
  qed
  have hi: "u * n \<le> k * 2 ^ 32 + (n - 1)" by (simp add: u_def)
  have "u * n < (k + 1) * 2 ^ 32" using hi assms n by simp
  then have q: "u * n div 2 ^ 32 = k" using lo by (intro div_nat_eqI) (simp_all add: mult.commute)
  have "u * n < n * 2 ^ 32" using \<open>u * n < (k + 1) * 2 ^ 32\<close> assms by (intro less_le_trans [OF _ mult_right_mono [of "k + 1" n]]) simp_all
  then have "u < 2 ^ 32" using n by (simp add: mult.commute)
  then have "unat (of_nat u :: word32) = u" by (simp add: unat_of_nat take_bit_nat_eq_self)
  with q show ?thesis by (intro exI [of _ "of_nat u"]) simp
qed

lemma every_order_is_drawn:
  assumes "distinct ms" "length ms \<le> 2 ^ 21"
  shows "mset picks = mset (left_over ms enabled done) \<Longrightarrow>
    \<exists>ws. map sh_edge (shuffle_visits ms enabled done ws) = map Member picks"
proof (induction picks arbitrary: "done")
  case Nil
  show ?case by (intro exI [of _ "[]"]) simp
next
  case (Cons m picks)
  define r where "r = left_over ms enabled done"
  have len: "length r \<le> 2 ^ 21" unfolding r_def left_over_def using assms(2) by (rule order.trans [OF length_filter_le])
  have "m \<in> set r" using Cons.prems by (metis list.set_intros(1) r_def set_mset_mset)
  then obtain k where k: "k < length r" "r ! k = m" by (auto simp: in_set_conv_nth)
  then have ne: "r \<noteq> []" by auto
  obtain w :: word32 where w: "unat w * length r div 2 ^ 32 = k" using some_word_draws [OF k(1) len] by blast
  have dist: "distinct r" using assms(1) by (simp add: r_def left_over_def)
  have "mset picks = mset (left_over ms enabled (insert m done))"
    using filter_nth_distinct [OF dist k(1)] Cons.prems unfolding left_over_insert k(2) r_def [symmetric]
    by (metis add_mset_add_mset_same_iff mset.simps(2))
  from Cons.IH [OF this] obtain ws where "map sh_edge (shuffle_visits ms enabled (insert m done) ws) = map Member picks" by blast
  then show ?case
    using compute_shuffle_draws [OF r_def [symmetric] ne len, of w] left_over_nonempty [OF r_def [symmetric] ne len, of w ws]
    unfolding w k(2) by (intro exI [of _ "w # ws"]) (simp only: list.map Let_def)
qed

text \<open>
  C14: A shuffle runs every enabled member exactly once and then leaves. Whatever the draws are, once there were as many visits
  as enabled members, the members dispatched are a permutation of them, and every later visit takes the \<open>next\<close> edge;
  and every order of the enabled members is the order of some draws.
\<close>

theorem shuffle_exactly_once:
  assumes "distinct ms" "length ms \<le> max_switch_cases"
  shows "(\<forall>ws. length (filter enabled ms) \<le> length ws \<longrightarrow>
      (\<exists>picks. mset picks = mset (filter enabled ms)
        \<and> map sh_edge (take (length picks) (shuffle_visits ms enabled {} ws)) = map Member picks
        \<and> (\<forall>s \<in> set (drop (length picks) (shuffle_visits ms enabled {} ws)). sh_edge s = Next)))
    \<and> (\<forall>picks. mset picks = mset (filter enabled ms) \<longrightarrow>
      (\<exists>ws. map sh_edge (shuffle_visits ms enabled {} ws) = map Member picks))"
proof -
  have all: "left_over ms enabled {} = filter enabled ms" by (simp add: left_over_def)
  have len: "length ms \<le> 2 ^ 21" using assms(2) by (simp add: max_switch_cases_def)
  show ?thesis
    using visits_are_a_permutation [OF assms(1) len, of enabled "{}"] every_order_is_drawn [OF assms(1) len, of _ enabled "{}"]
    unfolding all by blast
qed

theorem shuffle_exactly_once_witness:
  "\<exists>ws. map sh_edge (shuffle_visits [''a'', ''b'', ''c''] (\<lambda>m. m \<noteq> ''b'') {} ws) = [Member ''c'', Member ''a'']"
  using shuffle_exactly_once [of "[''a'', ''b'', ''c'']" "\<lambda>m. m \<noteq> ''b''"]
  by (auto simp: max_switch_cases_def dest!: spec [of _ "[''c'', ''a'']"])

end
