(* ===== verification/WfGraph.thy ===== *)
theory WfGraph
  imports WfSteps
begin

text \<open>
  The transition graph of a workflow document and the searches over it
  (\<open>packages/protocol/src/workflow-check.ts\<close>): what the entry reaches, whether one node can run before another, whether the
  document can loop. A set is the list of its elements in insertion order. A finding carries the data
  its message interpolates instead of the text.
\<close>

section \<open>Findings\<close>

datatype finding_code =
    DupNodeId ident nat
  | EntryUnknownCode ident
  | EntryNotStartCode ident
  | UnknownNode ident
  | EdgeDangling finish_status
  | NodeUnreachable ident
  | ShuffleEmpty ident nat
  | ShuffleMember ident string
  | LoopCode ident nat
  | BudgetUnknown "string list"
  | BudgetImpossible nat nat
  | LatestRef string
  | UnknownParam string
  | SetNameNotText rval
  | SetNameEmpty string
  | SetNameDigits string string
  | NotAssignable string "string list" string string "string list"
  | DisabledBinding ident
  | ForwardRef ident ident
  | BindingUnresolvable string string "string list"
  | UncheckedBinding string
  | ExprParse parse_fail nat
  | ExprUnknownNode ident
  | ExprForwardRef ident ident
  | IndexAsIdentity

fun is_warning :: "finding_code \<Rightarrow> bool" where
  "is_warning (EdgeDangling _) = True" | "is_warning (NodeUnreachable _) = True" | "is_warning (ShuffleEmpty _ _) = True"
| "is_warning (LoopCode _ _) = True" | "is_warning (BudgetUnknown _) = True" | "is_warning (LatestRef _) = True"
| "is_warning (DisabledBinding _) = True" | "is_warning (UncheckedBinding _) = True" | "is_warning IndexAsIdentity = True"
| "is_warning _ = False"

record finding =
  f_path :: string
  f_code :: finding_code

definition finding_at :: "string \<Rightarrow> finding_code \<Rightarrow> finding" where
  "finding_at path c = \<lparr>f_path = path, f_code = c\<rparr>"

section \<open>The graph\<close>

type_synonym graph = "(ident, ident list) jmap"

definition successors :: "graph \<Rightarrow> ident \<Rightarrow> ident list" where
  "successors g k = coalesce (jm_get g k) []"

definition add_edge :: "graph \<Rightarrow> ident \<Rightarrow> ident option \<Rightarrow> graph" where
  "add_edge g a b = (case b of
     None \<Rightarrow> g
   | Some t \<Rightarrow> (case jm_get g a of
       Some ts \<Rightarrow> if t \<in> set ts then g else jm_set a (ts @ [t]) g
     | None \<Rightarrow> jm_set a [t] g))"

record edge_field =
  ef_target :: "ident option"
  ef_path :: string
  ef_ends_as :: finish_status
  ef_unwired_ok :: bool

definition edge_at :: "ident option \<Rightarrow> string \<Rightarrow> finish_status \<Rightarrow> bool \<Rightarrow> edge_field" where
  "edge_at t p e ok = \<lparr>ef_target = t, ef_path = p, ef_ends_as = e, ef_unwired_ok = ok\<rparr>"

definition resolve_edge :: "ident set \<Rightarrow> edge_field \<Rightarrow> ident option \<times> finding list" where
  "resolve_edge ids f = (case ef_target f of
     None \<Rightarrow> (None, if ef_unwired_ok f then [] else [finding_at (ef_path f) (EdgeDangling (ef_ends_as f))])
   | Some t \<Rightarrow> if t \<notin> ids then (None, [finding_at (ef_path f) (UnknownNode t)]) else (Some t, []))"

definition node_path :: "nat \<Rightarrow> string \<Rightarrow> string" where
  "node_path i field = ''nodes['' @ nat_digits i @ ''].'' @ field"

text \<open>The edge fields of a node in the order the graph reads them.\<close>

definition edge_fields :: "ident set \<Rightarrow> nat \<times> node \<Rightarrow> edge_field list" where
  "edge_fields members ni =
     (case ni of (i, n) \<Rightarrow>
      let owned = (n_id n \<in> members); plain = (\<lambda>t f. edge_at t (node_path i f) Succeed False) in
      case n_body n of
        Start nxt \<Rightarrow> [plain nxt ''next'']
      | Script _ _ _ nxt fl \<Rightarrow> [edge_at nxt (node_path i ''next'') Succeed owned, edge_at fl (node_path i ''onFailure'') Fail False]
      | Gate _ th el \<Rightarrow> [plain th ''then'', plain el ''else'']
      | Switch _ cases dflt \<Rightarrow>
          map (\<lambda>(ci, c). plain (cs_to c) (''cases['' @ nat_digits ci @ ''].to'')) (enumerate 0 cases) @ [plain dflt ''default'']
      | Delay _ _ nxt \<Rightarrow> [edge_at nxt (node_path i ''next'') Succeed owned]
      | SetFields _ _ nxt \<Rightarrow> [edge_at nxt (node_path i ''next'') Succeed owned]
      | Shuffle ms _ _ _ nxt \<Rightarrow>
          map (\<lambda>(mi, m). plain (Some m) (''members['' @ nat_digits mi @ '']'')) (enumerate 0 ms) @ [plain nxt ''next'']
      | Finish _ _ \<Rightarrow> [])"

definition add_fields :: "ident set \<Rightarrow> ident set \<Rightarrow> graph \<times> finding list \<Rightarrow> nat \<times> node \<Rightarrow> graph \<times> finding list" where
  "add_fields ids members =
     (\<lambda>acc ni. foldl (\<lambda>(g, fs) f. case resolve_edge ids f of (t, new) \<Rightarrow> (add_edge g (n_id (snd ni)) t, fs @ new))
        acc (edge_fields members ni))"

definition build_edges :: "wf_doc \<Rightarrow> ident set \<Rightarrow> graph \<times> finding list" where
  "build_edges d ids =
     (let members = set (map snd (memberships (wd_nodes d))) in
      foldl (add_fields ids members) ([], []) (enumerate 0 (wd_nodes d)))"

section \<open>What the entry reaches\<close>

definition discover :: "ident list \<times> ident list \<Rightarrow> ident \<Rightarrow> ident list \<times> ident list" where
  "discover rq n = (case rq of (reached, queue) \<Rightarrow> if n \<in> set reached then rq else (reached @ [n], queue @ [n]))"

definition targets :: "graph \<Rightarrow> ident set" where
  "targets g = set (concat (map snd g))"

lemma finite_targets [simp]: "finite (targets g)"
  by (simp add: targets_def)

lemma successors_targets: "set (successors g k) \<subseteq> targets g"
  by (auto simp: successors_def targets_def coalesce_def split: option.splits) (metis map_of_SomeD snd_conv)

lemma discover_all:
  assumes "foldl discover (reached, queue) ns = (reached', queue')"
  shows "\<exists>new. reached' = reached @ new \<and> queue' = queue @ new \<and> distinct new \<and> set new = set ns - set reached"
  using assms
proof (induction ns arbitrary: reached queue)
  case (Cons n ns)
  show ?case
  proof (cases "n \<in> set reached")
    case True
    with Cons.prems have "foldl discover (reached, queue) ns = (reached', queue')" by (simp add: discover_def [of _ n])
    from Cons.IH [OF this] True show ?thesis by auto
  next
    case False
    with Cons.prems have "foldl discover (reached @ [n], queue @ [n]) ns = (reached', queue')" by (simp add: discover_def [of _ n])
    from Cons.IH [OF this] obtain new where "reached' = (reached @ [n]) @ new" "queue' = (queue @ [n]) @ new"
      "distinct new" "set new = set ns - set (reached @ [n])" by blast
    with False show ?thesis by (intro exI [of _ "n # new"]) auto
  qed
qed simp

function bfs :: "graph \<Rightarrow> ident list \<Rightarrow> ident list \<Rightarrow> ident list" where
  "bfs g reached [] = reached"
| "bfs g reached (cur # queue) =
     (let rq = foldl discover (reached, queue) (successors g cur) in bfs g (fst rq) (snd rq))"
  by pat_completeness auto

lemma bfs_measure:
  fixes g reached queue cur
  defines "rq \<equiv> foldl discover (reached, queue) (successors g cur)"
  shows "card (targets g - set (fst rq)) < card (targets g - set reached)
    \<or> card (targets g - set (fst rq)) = card (targets g - set reached) \<and> length (snd rq) < Suc (length queue)"
proof -
  obtain new where new: "fst rq = reached @ new" "snd rq = queue @ new" "set new = set (successors g cur) - set reached"
    using discover_all [of reached queue "successors g cur" "fst rq" "snd rq"] by (auto simp: rq_def)
  show ?thesis
  proof (cases "new = []")
    case False
    then obtain y where "y \<in> set new" by (meson last_in_set)
    with new successors_targets [of g cur]
    have "y \<in> targets g - set reached" "y \<notin> targets g - set (fst rq)" "targets g - set (fst rq) \<subseteq> targets g - set reached" by auto
    then have "targets g - set (fst rq) \<subset> targets g - set reached" by blast
    then show ?thesis by (simp add: psubset_card_mono)
  qed (use new in simp)
qed

termination bfs
  by (relation "measures [\<lambda>(g, reached, queue). card (targets g - set reached), \<lambda>(g, reached, queue). length queue]")
     (use bfs_measure in \<open>auto simp: case_prod_beta'\<close>)

definition reachable_from :: "graph \<Rightarrow> ident set \<Rightarrow> ident \<Rightarrow> ident list" where
  "reachable_from g ids entry = (if entry \<in> ids then bfs g [entry] [entry] else [])"

section \<open>Whether one node can run before another\<close>

text \<open>\<open>pathExists\<close>; the top of the stack is the head of the list.\<close>

function search :: "graph \<Rightarrow> ident \<Rightarrow> ident list \<Rightarrow> ident list \<Rightarrow> bool" where
  "search g to visited [] = False"
| "search g to visited (cur # stack) =
     (if cur = to then True
      else if cur \<in> set visited then search g to visited stack
      else search g to (cur # visited) (rev (successors g cur) @ stack))"
  by pat_completeness auto

definition unvisited :: "graph \<Rightarrow> ident list \<Rightarrow> ident list \<Rightarrow> nat" where
  "unvisited g visited stack = card ((targets g \<union> set stack) - set visited)"

lemma unvisited_skip: "cur \<in> set visited \<Longrightarrow> unvisited g visited (cur # stack) = unvisited g visited stack"
  by (auto simp: unvisited_def intro: arg_cong [of _ _ card])

lemma unvisited_visit:
  assumes "cur \<notin> set visited"
  shows "unvisited g (cur # visited) (rev (successors g cur) @ stack) < unvisited g visited (cur # stack)"
proof -
  have "(targets g \<union> set (rev (successors g cur) @ stack)) - set (cur # visited) \<subset> (targets g \<union> set (cur # stack)) - set visited"
    using assms successors_targets [of g cur] by auto
  then show ?thesis unfolding unvisited_def by (intro psubset_card_mono) auto
qed

termination search
  by (relation "measures [\<lambda>(g, to, visited, stack). unvisited g visited stack, \<lambda>(g, to, visited, stack). length stack]")
     (simp_all add: unvisited_skip unvisited_visit)

definition path_exists :: "graph \<Rightarrow> ident \<Rightarrow> ident \<Rightarrow> bool" where
  "path_exists g a b = search g b [] (rev (successors g a))"

section \<open>Whether the document can loop\<close>

text \<open>
  The depth-first search of \<open>findCycle\<close>. \<open>scan\<close> is the loop of \<open>visit\<close> over the nodes it still has to look at, with the
  recursive call of the loop body in place; a node is \<open>OnStack\<close> while its own loop runs.
\<close>

datatype color = OnStack | Explored

record cycle_search =
  cy_color :: "(ident, color) jmap"
  cy_found :: "ident option"

definition paint :: "ident \<Rightarrow> color \<Rightarrow> cycle_search \<Rightarrow> cycle_search" where
  "paint n c st = st\<lparr>cy_color := jm_set n c (cy_color st)\<rparr>"

definition color_of :: "cycle_search \<Rightarrow> ident \<Rightarrow> color option" where
  "color_of st = jm_get (cy_color st)"

lemma paint_simps [simp]:
  "color_of (paint n c st) = (color_of st)(n \<mapsto> c)" "cy_found (paint n c st) = cy_found st"
  "color_of (st\<lparr>cy_found := f\<rparr>) = color_of st"
  by (auto simp: paint_def color_of_def)

lemma dom_paint: "dom (color_of (paint n c st)) = insert n (dom (color_of st))"
  by auto

function scan :: "graph \<Rightarrow> ident list \<Rightarrow> cycle_search \<Rightarrow> cycle_search" where
  "scan g [] st = st"
| "scan g (n # ns) st =
     (if cy_found st \<noteq> None then st
      else if color_of st n = Some OnStack then st\<lparr>cy_found := Some n\<rparr>
      else if color_of st n = Some Explored then scan g ns st
      else (let st1 = scan g (successors g n) (paint n OnStack st) in
            if cy_found st1 \<noteq> None then st1 else scan g ns (paint n Explored st1)))"
  by pat_completeness auto

lemma scan_colors: "scan_dom (g, ns, st) \<Longrightarrow> dom (color_of st) \<subseteq> dom (color_of (scan g ns st))"
proof (induction g ns st rule: scan.pinduct)
  case (2 g n ns st)
  note unfold = scan.psimps(2) [OF 2(1)]
  show ?case
  proof (cases "cy_found st = None \<and> color_of st n \<noteq> Some OnStack \<and> color_of st n \<noteq> Some Explored")
    case True
    define st1 where "st1 = scan g (successors g n) (paint n OnStack st)"
    have "dom (color_of (paint n OnStack st)) \<subseteq> dom (color_of st1)"
      unfolding st1_def using True by (intro 2(3)) auto
    then have one: "dom (color_of st) \<subseteq> dom (color_of st1)" by auto
    show ?thesis
    proof (cases "cy_found st1 = None")
      case False
      with True one show ?thesis by (simp add: unfold Let_def st1_def [symmetric])
    next
      case None: True
      have "dom (color_of (paint n Explored st1)) \<subseteq> dom (color_of (scan g ns (paint n Explored st1)))"
        using True None by (intro 2(4) [OF _ _ _ st1_def]) auto
      then have "dom (color_of st) \<subseteq> dom (color_of (scan g ns (paint n Explored st1)))"
        using one unfolding dom_paint by blast
      with True None show ?thesis by (simp add: unfold Let_def st1_def [symmetric])
    qed
  next
    case False
    with 2(2) show ?thesis by (auto simp: unfold)
  qed
qed (simp add: scan.psimps)

definition uncolored :: "graph \<Rightarrow> ident list \<Rightarrow> cycle_search \<Rightarrow> nat" where
  "uncolored g ns st = card ((targets g \<union> set ns) - dom (color_of st))"

lemma uncolored_later:
  "dom (color_of st) \<subseteq> dom (color_of st') \<Longrightarrow> uncolored g ns st' < uncolored g (n # ns) st \<or> uncolored g ns st' = uncolored g (n # ns) st"
  unfolding uncolored_def le_less [symmetric] by (intro card_mono) auto

lemma uncolored_paint:
  assumes "color_of st n \<noteq> Some OnStack" "color_of st n \<noteq> Some Explored"
  shows "uncolored g (successors g n) (paint n OnStack st) < uncolored g (n # ns) st"
proof -
  have "color_of st n = None" using assms by (metis color.exhaust option.exhaust)
  then have n: "n \<notin> dom (color_of st)" by auto
  have "(targets g \<union> set (successors g n)) - insert n (dom (color_of st)) \<subset> (targets g \<union> set (n # ns)) - dom (color_of st)"
    using n successors_targets [of g n] by (intro psubsetI) auto
  then have "card ((targets g \<union> set (successors g n)) - insert n (dom (color_of st))) < card ((targets g \<union> set (n # ns)) - dom (color_of st))"
    by (intro psubset_card_mono) auto
  then show ?thesis by (simp add: uncolored_def)
qed

lemma scan_measure:
  assumes "scan_dom (g, successors g n, paint n OnStack st)" "cy_found (scan g (successors g n) (paint n OnStack st)) = None"
  shows "uncolored g ns (paint n Explored (scan g (successors g n) (paint n OnStack st))) < uncolored g (n # ns) st
    \<or> uncolored g ns (paint n Explored (scan g (successors g n) (paint n OnStack st))) = uncolored g (n # ns) st"
  using scan_colors [OF assms(1)] by (intro uncolored_later) auto

termination scan
  by (relation "measures [\<lambda>(g, ns, st). uncolored g ns st, \<lambda>(g, ns, st). length ns]")
     (use uncolored_later uncolored_paint scan_measure in auto)

definition find_cycle :: "graph \<Rightarrow> ident \<Rightarrow> ident option" where
  "find_cycle g start = cy_found (scan g [start] \<lparr>cy_color = [], cy_found = None\<rparr>)"

section \<open>The searches are correct\<close>

definition steps :: "graph \<Rightarrow> (ident \<times> ident) set" where
  "steps g = {(a, b). b \<in> set (successors g a)}"

lemma in_steps [simp]: "(a, b) \<in> steps g \<longleftrightarrow> b \<in> set (successors g a)"
  by (simp add: steps_def)

definition closed_in :: "graph \<Rightarrow> ident set \<Rightarrow> bool" where
  "closed_in g V \<longleftrightarrow> (\<forall>v \<in> V. set (successors g v) \<subseteq> V)"

lemma closed_in_rtrancl: "closed_in g V \<Longrightarrow> a \<in> V \<Longrightarrow> (a, b) \<in> (steps g)\<^sup>* \<Longrightarrow> b \<in> V"
  by (erule rtrancl_induct) (auto simp: closed_in_def)

lemma bfs_closed:
  "set queue \<subseteq> set reached \<Longrightarrow> \<forall>v \<in> set reached - set queue. set (successors g v) \<subseteq> set reached \<Longrightarrow>
     set reached \<subseteq> set (bfs g reached queue) \<and> closed_in g (set (bfs g reached queue))"
proof (induction g reached queue rule: bfs.induct)
  case (2 g reached cur queue)
  obtain reached' queue' where rq: "foldl discover (reached, queue) (successors g cur) = (reached', queue')"
    by (cases "foldl discover (reached, queue) (successors g cur)")
  then obtain new where "reached' = reached @ new" "queue' = queue @ new" "set new = set (successors g cur) - set reached"
    using discover_all by blast
  with 2 rq show ?case by auto
qed (auto simp: closed_in_def)

lemma bfs_sound: "set queue \<subseteq> (steps g)\<^sup>* `` A \<Longrightarrow> set reached \<subseteq> (steps g)\<^sup>* `` A \<Longrightarrow> set (bfs g reached queue) \<subseteq> (steps g)\<^sup>* `` A"
proof (induction g reached queue rule: bfs.induct)
  case (2 g reached cur queue)
  obtain reached' queue' where rq: "foldl discover (reached, queue) (successors g cur) = (reached', queue')"
    by (cases "foldl discover (reached, queue) (successors g cur)")
  then obtain new where new: "reached' = reached @ new" "queue' = queue @ new" "set new = set (successors g cur) - set reached"
    using discover_all by blast
  have step: "set (successors g cur) \<subseteq> (steps g)\<^sup>* `` A"
  proof
    fix x assume x: "x \<in> set (successors g cur)"
    from 2(2) obtain a where "a \<in> A" "(a, cur) \<in> (steps g)\<^sup>*" by auto
    with x show "x \<in> (steps g)\<^sup>* `` A" by (meson ImageI in_steps rtrancl_into_rtrancl)
  qed
  have "set new \<subseteq> (steps g)\<^sup>* `` A" using step new by blast
  then have "set queue' \<subseteq> (steps g)\<^sup>* `` A" "set reached' \<subseteq> (steps g)\<^sup>* `` A" using 2(2,3) new by auto
  with 2(1) rq show ?case by simp
qed simp

lemma set_reachable_from: "entry \<in> ids \<Longrightarrow> set (reachable_from g ids entry) = (steps g)\<^sup>* `` {entry}"
  using bfs_closed [of "[entry]" "[entry]" g] bfs_sound [of "[entry]" g "{entry}" "[entry]"] closed_in_rtrancl [of g "set (bfs g [entry] [entry])" entry]
  by (auto simp: reachable_from_def)

lemma search_sound: "search g to visited stack \<Longrightarrow> \<exists>x \<in> set stack. (x, to) \<in> (steps g)\<^sup>*"
proof (induction g to visited stack rule: search.induct)
  case (2 g to visited cur stack)
  show ?case
  proof (cases "cur = to \<or> cur \<in> set visited")
    case False
    with 2 obtain x where "x \<in> set (rev (successors g cur) @ stack)" "(x, to) \<in> (steps g)\<^sup>*" by auto
    then show ?thesis by (auto intro: converse_rtrancl_into_rtrancl)
  qed (use 2 in \<open>auto split: if_splits\<close>)
qed simp

lemma search_complete:
  "\<not> search g to visited stack \<Longrightarrow> to \<notin> set visited \<Longrightarrow> \<forall>v \<in> set visited. set (successors g v) \<subseteq> set visited \<union> set stack \<Longrightarrow>
     \<exists>V. set visited \<union> set stack \<subseteq> V \<and> closed_in g V \<and> to \<notin> V"
proof (induction g to visited stack rule: search.induct)
  case (1 g to visited)
  then show ?case by (intro exI [of _ "set visited"]) (auto simp: closed_in_def)
next
  case (2 g to visited cur stack)
  show ?case
  proof (cases "cur \<in> set visited")
    case True
    with 2 show ?thesis by (auto split: if_splits)
  next
    case False
    with 2 have "\<exists>V. set (cur # visited) \<union> set (rev (successors g cur) @ stack) \<subseteq> V \<and> closed_in g V \<and> to \<notin> V"
      by (intro 2(2)) (auto split: if_splits)
    then show ?thesis by auto
  qed
qed

lemma path_exists_iff: "path_exists g a b \<longleftrightarrow> (a, b) \<in> (steps g)\<^sup>+"
proof
  assume "path_exists g a b"
  then obtain x where "x \<in> set (successors g a)" "(x, b) \<in> (steps g)\<^sup>*"
    using search_sound unfolding path_exists_def by fastforce
  then show "(a, b) \<in> (steps g)\<^sup>+" by (intro rtrancl_into_trancl2 [of _ x]) auto
next
  assume ab: "(a, b) \<in> (steps g)\<^sup>+"
  show "path_exists g a b"
  proof (rule ccontr)
    assume "\<not> path_exists g a b"
    then obtain V where V: "set (successors g a) \<subseteq> V" "closed_in g V" "b \<notin> V"
      using search_complete [of g b "[]" "rev (successors g a)"] by (auto simp: path_exists_def)
    from ab obtain x where "(a, x) \<in> steps g" "(x, b) \<in> (steps g)\<^sup>*" by (meson tranclD)
    with V closed_in_rtrancl show False by fastforce
  qed
qed

text \<open>
  The search for a cycle. A finished node has finished successors and lies on no cycle; every node on the stack leads to
  the node whose successors are being looked at, here any node with an edge to all of them.
\<close>

definition explored :: "cycle_search \<Rightarrow> ident set" where
  "explored st = {k. color_of st k = Some Explored}"

definition on_stack :: "cycle_search \<Rightarrow> ident set" where
  "on_stack st = {k. color_of st k = Some OnStack}"

lemma explored_paint [simp]:
  "explored (paint n Explored st) = insert n (explored st)"
  "color_of st n = None \<Longrightarrow> explored (paint n OnStack st) = explored st"
  by (auto simp: explored_def)

lemma on_stack_paint [simp]:
  "on_stack (paint n OnStack st) = insert n (on_stack st)"
  "on_stack (paint n Explored st) = on_stack st - {n}"
  by (auto simp: on_stack_def)

definition settled_search :: "graph \<Rightarrow> cycle_search \<Rightarrow> bool" where
  "settled_search g st \<longleftrightarrow> closed_in g (explored st) \<and> (\<forall>k \<in> explored st. (k, k) \<notin> (steps g)\<^sup>+)"

lemma settled_insert:
  assumes "settled_search g st" "set (successors g n) \<subseteq> explored st" "n \<notin> explored st"
  shows "closed_in g (insert n (explored st)) \<and> (\<forall>k \<in> insert n (explored st). (k, k) \<notin> (steps g)\<^sup>+)"
proof -
  have closed: "closed_in g (explored st)" using assms(1) by (simp add: settled_search_def)
  have "(n, n) \<notin> (steps g)\<^sup>+"
  proof
    assume "(n, n) \<in> (steps g)\<^sup>+"
    then obtain x where "(n, x) \<in> steps g" "(x, n) \<in> (steps g)\<^sup>*" by (meson tranclD)
    with assms closed_in_rtrancl [OF closed] show False by auto
  qed
  with assms closed show ?thesis by (auto simp: settled_search_def closed_in_def)
qed

lemma scan_found: "cy_found st \<noteq> None \<Longrightarrow> scan g ns st = st"
  by (cases ns) auto

lemma scan_stack: "cy_found (scan g ns st) = None \<Longrightarrow> on_stack (scan g ns st) = on_stack st"
proof (induction g ns st rule: scan.induct)
  case (2 g n ns st)
  have st: "cy_found st = None" using 2(4) scan_found by (metis option.exhaust)
  show ?case
  proof (cases "color_of st n")
    case None
    define st1 where "st1 = scan g (successors g n) (paint n OnStack st)"
    have st1: "cy_found st1 = None" using 2(4) st None by (auto simp: st1_def Let_def split: if_splits)
    with 2(2,3,4) st None have "on_stack st1 = insert n (on_stack st)"
        "on_stack (scan g ns (paint n Explored st1)) = on_stack st1 - {n}"
      by (simp_all add: st1_def [symmetric] Let_def)
    with st st1 None show ?thesis by (simp add: st1_def [symmetric] Let_def) (auto simp: on_stack_def)
  next
    case (Some c)
    with 2 st show ?thesis by (cases c) auto
  qed
qed simp

lemma scan_none:
  "cy_found (scan g ns st) = None \<Longrightarrow> settled_search g st \<Longrightarrow>
     settled_search g (scan g ns st) \<and> set ns \<subseteq> explored (scan g ns st) \<and> explored st \<subseteq> explored (scan g ns st)"
proof (induction g ns st rule: scan.induct)
  case (2 g n ns st)
  have st: "cy_found st = None" using 2(4) scan_found by (metis option.exhaust)
  show ?case
  proof (cases "color_of st n")
    case None
    define st1 where "st1 = scan g (successors g n) (paint n OnStack st)"
    have st1: "cy_found st1 = None" using 2(4) st None by (auto simp: st1_def Let_def split: if_splits)
    have "settled_search g (paint n OnStack st)" using 2(5) None by (simp add: settled_search_def)
    with 2(2) st st1 None have one: "settled_search g st1" "set (successors g n) \<subseteq> explored st1" "explored st \<subseteq> explored st1"
      by (simp_all add: st1_def)
    have "n \<in> on_stack st1" using scan_stack [of g "successors g n" "paint n OnStack st"] st1 by (simp add: st1_def)
    then have "n \<notin> explored st1" by (simp add: on_stack_def explored_def)
    with one settled_insert [of g st1 n] have "settled_search g (paint n Explored st1)" by (simp add: settled_search_def)
    with 2(3) [OF _ _ _ st1_def] 2(4) st st1 None one show ?thesis
      by (simp add: st1_def [symmetric] Let_def) blast
  next
    case (Some c)
    with 2 st show ?thesis by (cases c) (auto simp: explored_def)
  qed
qed auto

lemma scan_some:
  "cy_found st = None \<Longrightarrow> cy_found (scan g ns st) = Some k \<Longrightarrow> (\<And>n x. n \<in> set ns \<Longrightarrow> x \<in> on_stack st \<Longrightarrow> (x, n) \<in> (steps g)\<^sup>+) \<Longrightarrow>
     (k, k) \<in> (steps g)\<^sup>+ \<and> (k \<in> on_stack st \<or> (\<exists>n \<in> set ns. (n, k) \<in> (steps g)\<^sup>*))"
proof (induction g ns st rule: scan.induct)
  case (2 g n ns st)
  show ?case
  proof (cases "color_of st n")
    case None
    define st1 where "st1 = scan g (successors g n) (paint n OnStack st)"
    have unf: "scan g (n # ns) st = (if cy_found st1 \<noteq> None then st1 else scan g ns (paint n Explored st1))"
      using 2(4) None by (simp add: st1_def Let_def)
    show ?thesis
    proof (cases "cy_found st1")
      case (Some k')
      with unf 2(5) have "k' = k" by simp
      have above: "(x, m) \<in> (steps g)\<^sup>+" if "m \<in> set (successors g n)" "x \<in> on_stack (paint n OnStack st)" for m x
        using that 2(6) [of n x] by (auto intro: trancl_into_trancl)
      have "(k, k) \<in> (steps g)\<^sup>+ \<and> (k \<in> on_stack (paint n OnStack st) \<or> (\<exists>m \<in> set (successors g n). (m, k) \<in> (steps g)\<^sup>*))"
        by (rule 2(2) [OF _ _ _ _ _ above]) (use 2(4) None Some \<open>k' = k\<close> in \<open>simp_all add: st1_def\<close>)
      then show ?thesis by (auto intro: converse_rtrancl_into_rtrancl)
    next
      case none: None
      have "on_stack st1 = insert n (on_stack st)"
        using scan_stack [of g "successors g n" "paint n OnStack st"] none by (simp add: st1_def)
      moreover have "n \<notin> on_stack st" using None by (simp add: on_stack_def)
      ultimately have stack: "on_stack (paint n Explored st1) = on_stack st" by simp
      have "(k, k) \<in> (steps g)\<^sup>+ \<and> (k \<in> on_stack (paint n Explored st1) \<or> (\<exists>m \<in> set ns. (m, k) \<in> (steps g)\<^sup>*))"
      proof (rule 2(3) [OF _ _ _ st1_def])
        show "(x, m) \<in> (steps g)\<^sup>+" if "m \<in> set ns" "x \<in> on_stack (paint n Explored st1)" for m x
          using 2(6) [of m x] that unfolding stack by simp
      qed (use 2(4,5) None none unf in simp_all)
      then show ?thesis unfolding stack by auto
    qed
  next
    case (Some c)
    show ?thesis
    proof (cases c)
      case OnStack
      with Some 2(4,5) have "k = n" by simp
      with Some OnStack 2(6) [of n n] show ?thesis by (auto simp: on_stack_def)
    next
      case Explored
      with Some 2(4-6) have "(k, k) \<in> (steps g)\<^sup>+ \<and> (k \<in> on_stack st \<or> (\<exists>n \<in> set ns. (n, k) \<in> (steps g)\<^sup>*))"
        by (intro 2(1)) auto
      then show ?thesis by auto
    qed
  qed
qed auto

definition blank_search :: cycle_search where
  "blank_search = \<lparr>cy_color = [], cy_found = None\<rparr>"

lemma blank_search [simp]: "explored blank_search = {}" "on_stack blank_search = {}" "cy_found blank_search = None" "settled_search g blank_search"
  by (simp_all add: blank_search_def explored_def on_stack_def color_of_def settled_search_def closed_in_def)

lemma find_cycle_none:
  assumes "find_cycle g entry = None" "(entry, k) \<in> (steps g)\<^sup>*"
  shows "(k, k) \<notin> (steps g)\<^sup>+"
proof -
  have "cy_found (scan g [entry] blank_search) = None" using assms(1) by (simp add: find_cycle_def blank_search_def)
  then have "settled_search g (scan g [entry] blank_search)" "entry \<in> explored (scan g [entry] blank_search)"
    using scan_none [of g "[entry]" blank_search] by auto
  then show ?thesis using assms(2) closed_in_rtrancl unfolding settled_search_def by blast
qed

lemma find_cycle_some:
  assumes "find_cycle g entry = Some k"
  shows "(entry, k) \<in> (steps g)\<^sup>* \<and> (k, k) \<in> (steps g)\<^sup>+"
  using scan_some [of blank_search g "[entry]" k] assms by (simp add: find_cycle_def blank_search_def [symmetric])


definition demo_graph :: graph where
  "demo_graph = [(''a'', [''b'']), (''b'', [''c'', ''b'']), (''d'', [''a''])]"


end
