(* ===== verification/WfCheck.thy ===== *)
theory WfCheck
  imports WfGraph
begin

text \<open>
  The publish check of a workflow document (\<open>checkWorkflow\<close> of \<open>packages/protocol/src/workflow-check.ts\<close>): the time
  arithmetic, the comparisons of JSON schemas, the places a value can be bound, and the findings in the order the check
  reports them. \<open>compileWorkflowParams\<close>, which calls the schema library, is an argument: the schema of the document's own parameters.
\<close>

section \<open>Declared time\<close>

text \<open>What the caller looked up for a script reference; an absent schema or time limit is \<open>None\<close>.\<close>

record resolved_script =
  rv_params :: "rval option"
  rv_output :: "rval option"
  rv_timeout :: "nat option"

type_synonym resolved_refs = "string \<Rightarrow> resolved_script option"

definition timeout_of :: "resolved_refs \<Rightarrow> string \<Rightarrow> nat option" where
  "timeout_of res ref = (case res ref of None \<Rightarrow> None | Some r \<Rightarrow> rv_timeout r)"

definition node_cost :: "resolved_refs \<Rightarrow> node_body \<Rightarrow> nat option" where
  "node_cost res b = (case b of Script ref _ _ _ _ \<Rightarrow> timeout_of res ref | Delay _ max_ms _ \<Rightarrow> Some max_ms | _ \<Rightarrow> Some 0)"

definition costs_of :: "resolved_refs \<Rightarrow> wf_doc \<Rightarrow> (ident, nat option) jmap" where
  "costs_of res d = foldl (\<lambda>m n. jm_set (n_id n) (node_cost res (n_body n)) m) [] (wd_nodes d)"

text \<open>\<open>costOf.get(id) ?? 0\<close>: an unknown cost reads as zero too, so the tests for \<open>null\<close> that follow it never hold.\<close>

definition own_cost :: "(ident, nat option) jmap \<Rightarrow> ident \<Rightarrow> nat" where
  "own_cost cm k = coalesce (coalesce (jm_get cm k) None) 0"

record shuffle_span =
  sp_members :: "ident list"
  sp_exits :: "ident list"
  sp_between :: nat

definition failure_edge :: "node_body \<Rightarrow> ident list" where
  "failure_edge b = (case b of Script _ _ _ _ (Some k) \<Rightarrow> [k] | _ \<Rightarrow> [])"

definition opt_list :: "'a option \<Rightarrow> 'a list" where
  "opt_list x = (case x of None \<Rightarrow> [] | Some y \<Rightarrow> [y])"

definition span_of :: "wf_doc \<Rightarrow> node_body \<Rightarrow> shuffle_span option" where
  "span_of d b = (case b of
     Shuffle ms _ between_max _ nxt \<Rightarrow>
       Some \<lparr>sp_members = ms,
             sp_exits = opt_list nxt @ concat (map (\<lambda>m. case node_of d m of None \<Rightarrow> [] | Some n \<Rightarrow> failure_edge (n_body n)) ms),
             sp_between = (length ms - 1) * between_max\<rparr>
   | _ \<Rightarrow> None)"

definition shuffle_spans :: "wf_doc \<Rightarrow> (ident, shuffle_span) jmap" where
  "shuffle_spans d = foldl (\<lambda>m n. case span_of d (n_body n) of None \<Rightarrow> m | Some s \<Rightarrow> jm_set (n_id n) s m) [] (wd_nodes d)"

text \<open>
  \<open>longestPathMs\<close>: \<open>visit\<close> with its memo. \<open>best_of\<close> is the loop over alternatives. The first argument of \<open>longest_visit\<close> bounds the
  depth of the recursion, which the code leaves to the graph having no cycle.
\<close>

type_synonym memo = "(ident, nat) jmap"

fun best_of :: "(ident \<Rightarrow> memo \<Rightarrow> (nat \<times> memo) option) \<Rightarrow> ident list \<Rightarrow> nat \<Rightarrow> memo \<Rightarrow> (nat \<times> memo) option" where
  "best_of visit [] best memo = Some (best, memo)"
| "best_of visit (k # ks) best memo = (case visit k memo of
     None \<Rightarrow> None
   | Some (c, memo') \<Rightarrow> best_of visit ks (max c best) memo')"

primrec longest_visit :: "nat \<Rightarrow> graph \<Rightarrow> (ident, nat option) jmap \<Rightarrow> (ident, shuffle_span) jmap \<Rightarrow> ident \<Rightarrow> memo \<Rightarrow> (nat \<times> memo) option" where
  "longest_visit 0 g cm spans k memo = None"
| "longest_visit (Suc f) g cm spans k memo = (case jm_get memo k of
     Some c \<Rightarrow> Some (c, memo)
   | None \<Rightarrow>
      (case jm_get spans k of
         Some sp \<Rightarrow>
           (let members = sum_list (map (own_cost cm) (sp_members sp)) + sp_between sp in
            case best_of (longest_visit f g cm spans) (sp_exits sp) 0 memo of
              None \<Rightarrow> None
            | Some (exit, memo') \<Rightarrow> let total = own_cost cm k + members + exit in Some (total, jm_set k total memo'))
       | None \<Rightarrow>
           (case best_of (longest_visit f g cm spans) (successors g k) 0 memo of
              None \<Rightarrow> None
            | Some (best, memo') \<Rightarrow> let total = own_cost cm k + best in Some (total, jm_set k total memo'))))"

definition longest_path :: "nat \<Rightarrow> graph \<Rightarrow> (ident, nat option) jmap \<Rightarrow> (ident, shuffle_span) jmap \<Rightarrow> ident \<Rightarrow> nat option" where
  "longest_path f g cm spans start = map_option fst (longest_visit f g cm spans start [])"

definition script_refs_unknown :: "resolved_refs \<Rightarrow> wf_doc \<Rightarrow> ident set \<Rightarrow> string list" where
  "script_refs_unknown res d reachable =
     map n_id (filter (\<lambda>n. n_id n \<in> reachable \<and> (case n_body n of Script _ _ _ _ _ \<Rightarrow> True | _ \<Rightarrow> False)
        \<and> jm_get (costs_of res d) (n_id n) = Some None) (wd_nodes d))"

definition on_fail_cost :: "resolved_refs \<Rightarrow> wf_doc \<Rightarrow> nat option" where
  "on_fail_cost res d = (case wd_on_fail d of None \<Rightarrow> Some 0 | Some (ref, _) \<Rightarrow> timeout_of res ref)"

text \<open>The depth given to the walk: a path without a cycle visits a node of the document, or an end, at most once.\<close>

definition walk_depth :: "wf_doc \<Rightarrow> nat" where
  "walk_depth d = length (wd_nodes d) + 2"

definition budget_findings :: "resolved_refs \<Rightarrow> nat \<Rightarrow> wf_doc \<Rightarrow> graph \<Rightarrow> ident set \<Rightarrow> finding list" where
  "budget_findings res max_total d g reachable =
     (let unknown = script_refs_unknown res d reachable
            @ (case wd_on_fail d of Some (ref, _) \<Rightarrow> if on_fail_cost res d = None then [''onFail ('' @ ref @ '')''] else [] | None \<Rightarrow> []) in
      if unknown \<noteq> [] then [finding_at [] (BudgetUnknown unknown)]
      else let worst = coalesce (longest_path (walk_depth d) g (costs_of res d) (shuffle_spans d) (wd_entry d)) 0
                       + coalesce (on_fail_cost res d) 0 in
           if max_total < worst then [finding_at [] (BudgetImpossible max_total worst)] else [])"

section \<open>JSON schemas\<close>

definition schema_field :: "rval \<Rightarrow> string \<Rightarrow> rval" where
  "schema_field v k = (case v of VObj _ ps \<Rightarrow> get_property ps k | _ \<Rightarrow> VUndef)"

definition add_new :: "'a list \<Rightarrow> 'a list \<Rightarrow> 'a list" where
  "add_new xs ys = foldl (\<lambda>acc y. if y \<in> set acc then acc else acc @ [y]) xs ys"

definition enum_type :: "rval \<Rightarrow> string list" where
  "enum_type v = (case v of
     VStr _ \<Rightarrow> [''string'']
   | VNum q \<Rightarrow> [if int_of_num q \<noteq> None then ''integer'' else ''number'']
   | VBool _ \<Rightarrow> [''boolean'']
   | _ \<Rightarrow> [])"

definition text_elements :: "rval \<Rightarrow> string list" where
  "text_elements v = concat (map (\<lambda>x. case x of VStr s \<Rightarrow> [s] | _ \<Rightarrow> []) (elements v))"

text \<open>\<open>extractJsonTypes\<close>; the first argument bounds the nesting of \<open>anyOf\<close>, and the size of the schema is enough.\<close>

fun json_types :: "nat \<Rightarrow> rval \<Rightarrow> string list" where
  "json_types 0 v = []"
| "json_types (Suc f) v = (case v of
     VObj _ _ \<Rightarrow>
       (let declared = (case schema_field v ''type'' of VStr t \<Rightarrow> [t] | ts \<Rightarrow> text_elements ts);
            variants = concat (map (json_types f) (elements (schema_field v ''anyOf'')));
            members = concat (map enum_type (elements (schema_field v ''enum'')));
            out = add_new [] (declared @ variants @ members) in
        if out = [] \<and> ((case schema_field v ''prefixItems'' of VArr _ _ \<Rightarrow> True | _ \<Rightarrow> False) \<or> schema_field v ''items'' \<noteq> VUndef)
        then [''array''] else out)
   | _ \<Rightarrow> [])"

definition extract_json_types :: "rval \<Rightarrow> string list" where
  "extract_json_types v = json_types (size v) v"

definition types_compatible :: "string list \<Rightarrow> string list \<Rightarrow> bool" where
  "types_compatible source target \<longleftrightarrow>
     source = [] \<or> target = [] \<or> list_ex (\<lambda>t. t \<in> set target \<or> t = ''integer'' \<and> ''number'' \<in> set target) source"

definition schema_or_none :: "rval \<Rightarrow> rval" where
  "schema_or_none v = (case v of VObj _ _ \<Rightarrow> v | _ \<Rightarrow> VUndef)"

fun segments_resolve :: "rval \<Rightarrow> string list \<Rightarrow> bool" where
  "segments_resolve v [] = True"
| "segments_resolve v (seg # rest) = (case v of
     VObj _ _ \<Rightarrow>
       if digits_only seg then
         (case schema_field v ''prefixItems'' of
            VArr _ xs \<Rightarrow>
              if digits_value seg < length xs then segments_resolve (xs ! digits_value seg) rest
              else if schema_field v ''items'' = VBool False then False
              else segments_resolve (schema_or_none (schema_field v ''items'')) rest
          | _ \<Rightarrow> segments_resolve (schema_or_none (schema_field v ''items'')) rest)
       else (case schema_field v ''properties'' of
            VObj _ ps \<Rightarrow> (case map_of ps seg of
                Some w \<Rightarrow> segments_resolve w rest
              | None \<Rightarrow> schema_field v ''additionalProperties'' \<noteq> VBool False)
          | _ \<Rightarrow> True)
   | _ \<Rightarrow> True)"

definition path_resolves :: "rval \<Rightarrow> string option \<Rightarrow> bool" where
  "path_resolves schema path = (case path of None \<Rightarrow> True | Some p \<Rightarrow> p = [] \<or> segments_resolve schema (split_text p ''.''))"

definition property_names :: "rval \<Rightarrow> string list" where
  "property_names v = (case schema_field v ''properties'' of VObj _ ps \<Rightarrow> map fst ps | _ \<Rightarrow> [])"

definition param_schema :: "rval \<Rightarrow> string \<Rightarrow> rval" where
  "param_schema schema k = schema_field (schema_field schema ''properties'') k"

section \<open>Expressions\<close>

fun params_rooted :: "expr \<Rightarrow> bool" where
  "params_rooted (Root r) = (r = RParams)"
| "params_rooted (expr.Member e _) = params_rooted e"
| "params_rooted _ = False"

fun mentions_run_index :: "expr \<Rightarrow> bool" where
  "mentions_run_index (Lit _) = False"
| "mentions_run_index (Root _) = False"
| "mentions_run_index (expr.Member e k) = (e = Root RRun \<and> k = ''index'' \<or> mentions_run_index e)"
| "mentions_run_index (Index e i) = (mentions_run_index e \<or> mentions_run_index i)"
| "mentions_run_index (Unary _ e) = mentions_run_index e"
| "mentions_run_index (Bin _ l r) = (mentions_run_index l \<or> mentions_run_index r)"
| "mentions_run_index (Cond c a b) = (mentions_run_index c \<or> mentions_run_index a \<or> mentions_run_index b)"
| "mentions_run_index (Call _ args) = list_ex mentions_run_index args"

definition indexes_params :: "string \<Rightarrow> expr list \<Rightarrow> bool" where
  "indexes_params f args = (case args of
     a # b # _ \<Rightarrow> (f = ''at'' \<or> f = ''get'') \<and> params_rooted a \<and> mentions_run_index b
   | _ \<Rightarrow> False)"

text \<open>\<open>usesRunIndexAsParamIndex\<close>: a workflow parameter indexed by the position in the batch.\<close>

fun index_as_identity :: "expr \<Rightarrow> bool" where
  "index_as_identity (Lit _) = False"
| "index_as_identity (Root _) = False"
| "index_as_identity (Index e i) = (params_rooted e \<and> mentions_run_index i \<or> index_as_identity e \<or> index_as_identity i)"
| "index_as_identity (expr.Member e _) = index_as_identity e"
| "index_as_identity (Unary _ e) = index_as_identity e"
| "index_as_identity (Bin _ l r) = (index_as_identity l \<or> index_as_identity r)"
| "index_as_identity (Cond c a b) = (index_as_identity c \<or> index_as_identity a \<or> index_as_identity b)"
| "index_as_identity (Call f args) = (indexes_params f args \<or> list_ex index_as_identity args)"

text \<open>\<open>collectExprNodeRefs\<close>, in insertion order.\<close>

fun node_refs :: "expr \<Rightarrow> ident list" where
  "node_refs (Lit _) = []"
| "node_refs (Root _) = []"
| "node_refs (expr.Member e k) = (if e = Root RNodes then [k] else node_refs e)"
| "node_refs (Index e i) = node_refs e @ node_refs i"
| "node_refs (Unary _ e) = node_refs e"
| "node_refs (Bin _ l r) = node_refs l @ node_refs r"
| "node_refs (Cond c a b) = node_refs c @ node_refs a @ node_refs b"
| "node_refs (Call _ args) = concat (map node_refs args)"

section \<open>Where a value can be bound\<close>

fun predicate_exprs :: "predicate \<Rightarrow> value_expr list" where
  "predicate_exprs (PLeaf l _ r) = l # opt_list r"
| "predicate_exprs (PAll ps) = concat (map predicate_exprs ps)"
| "predicate_exprs (PAny ps) = concat (map predicate_exprs ps)"
| "predicate_exprs (PNot p) = predicate_exprs p"

record binding_site =
  bs_from :: "ident option"
  bs_path :: string
  bs_expr :: value_expr
  bs_target :: "(string \<times> string) option"

definition site_at :: "ident option \<Rightarrow> string \<Rightarrow> value_expr \<Rightarrow> binding_site" where
  "site_at k path e = \<lparr>bs_from = k, bs_path = path, bs_expr = e, bs_target = None\<rparr>"

definition param_sites :: "ident option \<Rightarrow> string \<Rightarrow> string \<Rightarrow> (string \<times> value_expr) list \<Rightarrow> binding_site list" where
  "param_sites k prefix_path ref ps =
     map (\<lambda>(key, e). \<lparr>bs_from = k, bs_path = prefix_path @ key, bs_expr = e, bs_target = Some (ref, key)\<rparr>) ps"

definition node_sites :: "nat \<times> node \<Rightarrow> binding_site list" where
  "node_sites ni = (case ni of (i, n) \<Rightarrow>
     (case n_body n of
        Script ref ps _ _ _ \<Rightarrow> param_sites (Some (n_id n)) (node_path i ''params.'') ref ps
      | Gate p _ _ \<Rightarrow> map (site_at (Some (n_id n)) (node_path i ''when'')) (predicate_exprs p)
      | Switch _ cases _ \<Rightarrow>
          concat (map (\<lambda>(ci, c). case cs_when c of
              None \<Rightarrow> []
            | Some p \<Rightarrow> map (site_at (Some (n_id n)) (node_path i (''cases['' @ nat_digits ci @ ''].when''))) (predicate_exprs p))
            (enumerate 0 cases))
      | SetFields assigns _ _ \<Rightarrow>
          concat (map (\<lambda>(ai, nm, v).
              [site_at (Some (n_id n)) (node_path i (''assignments['' @ nat_digits ai @ ''].name'')) nm,
               site_at (Some (n_id n)) (node_path i (''assignments['' @ nat_digits ai @ ''].value'')) v])
            (enumerate 0 assigns))
      | Delay ms _ _ \<Rightarrow> [site_at (Some (n_id n)) (node_path i ''ms'') ms]
      | _ \<Rightarrow> []))"

definition binding_sites :: "wf_doc \<Rightarrow> binding_site list" where
  "binding_sites d = concat (map node_sites (enumerate 0 (wd_nodes d)))
     @ (case wd_on_fail d of None \<Rightarrow> [] | Some (ref, ps) \<Rightarrow> param_sites None ''onFail.params.'' ref ps)"

section \<open>Findings about one binding\<close>

text \<open>\<open>nodeById\<close> keeps the first node of an id.\<close>

definition first_node :: "wf_doc \<Rightarrow> ident \<Rightarrow> node option" where
  "first_node d k = find (\<lambda>n. n_id n = k) (wd_nodes d)"

definition check_param :: "resolved_refs \<Rightarrow> rval \<Rightarrow> wf_doc \<Rightarrow> binding_site \<Rightarrow> string \<Rightarrow> finding list" where
  "check_param res compiled d site p =
     (if find (\<lambda>q. wp_name q = p) (wd_params d) = None then [finding_at (bs_path site) (UnknownParam p)]
      else (case bs_target site of
        None \<Rightarrow> []
      | Some (ref, key) \<Rightarrow>
         (let source = extract_json_types (param_schema compiled p);
              target = extract_json_types (case res ref of None \<Rightarrow> VUndef | Some r \<Rightarrow> param_schema (coalesce (rv_params r) VUndef) key) in
          if types_compatible source target then [] else [finding_at (bs_path site) (NotAssignable p source ref key target)])))"

definition check_reader :: "wf_doc \<Rightarrow> binding_site \<Rightarrow> ident \<Rightarrow> finding list" where
  "check_reader d site k =
     (let reader = (case bs_from site of None \<Rightarrow> None | Some r \<Rightarrow> first_node d r) in
      case first_node d k of
        Some n \<Rightarrow> if \<not> n_enabled n \<and> (case reader of None \<Rightarrow> True | Some r \<Rightarrow> n_enabled r)
                  then [finding_at (bs_path site) (DisabledBinding k)] else []
      | None \<Rightarrow> [])"

definition check_output :: "resolved_refs \<Rightarrow> wf_doc \<Rightarrow> binding_site \<Rightarrow> ident \<Rightarrow> string option \<Rightarrow> finding list" where
  "check_output res d site k path = (case first_node d k of
     None \<Rightarrow> []
   | Some n \<Rightarrow> (case n_body n of
       Script ref _ _ _ _ \<Rightarrow>
         (case (case res ref of None \<Rightarrow> None | Some r \<Rightarrow> rv_output r) of
            None \<Rightarrow> [finding_at (bs_path site) (UncheckedBinding ref)]
          | Some schema \<Rightarrow>
              if path_resolves schema path then []
              else [finding_at (bs_path site) (BindingUnresolvable (coalesce path []) ref (property_names schema))])
     | _ \<Rightarrow> []))"

definition runs_before :: "graph \<Rightarrow> binding_site \<Rightarrow> ident \<Rightarrow> bool" where
  "runs_before g site k = (case bs_from site of None \<Rightarrow> True | Some r \<Rightarrow> path_exists g k r)"

definition check_from :: "resolved_refs \<Rightarrow> wf_doc \<Rightarrow> graph \<Rightarrow> binding_site \<Rightarrow> ident \<Rightarrow> string option \<Rightarrow> finding list" where
  "check_from res d g site k path =
     (if k \<notin> n_id ` set (wd_nodes d) then [finding_at (bs_path site) (UnknownNode k)]
      else check_reader d site k
        @ (if \<not> runs_before g site k then [finding_at (bs_path site) (ForwardRef k (coalesce (bs_from site) []))]
           else check_output res d site k path))"

definition check_ref :: "wf_doc \<Rightarrow> graph \<Rightarrow> binding_site \<Rightarrow> ident \<Rightarrow> finding list" where
  "check_ref d g site k =
     (if k \<notin> n_id ` set (wd_nodes d) then [finding_at (bs_path site) (ExprUnknownNode k)]
      else if \<not> runs_before g site k then [finding_at (bs_path site) (ExprForwardRef k (coalesce (bs_from site) []))] else [])"

definition check_expr :: "wf_doc \<Rightarrow> graph \<Rightarrow> binding_site \<Rightarrow> string \<Rightarrow> finding list" where
  "check_expr d g site src = (case parse src of
     Failed err off \<Rightarrow> [finding_at (bs_path site) (ExprParse err off)]
   | Spent \<Rightarrow> [finding_at (bs_path site) (ExprParse TooDeep 0)]
   | Parsed e _ _ \<Rightarrow>
       (if index_as_identity e then [finding_at (bs_path site) IndexAsIdentity] else [])
       @ concat (map (check_ref d g site) (add_new [] (node_refs e))))"

definition check_site :: "resolved_refs \<Rightarrow> rval \<Rightarrow> wf_doc \<Rightarrow> graph \<Rightarrow> binding_site \<Rightarrow> finding list" where
  "check_site res compiled d g site = (case bs_expr site of
     EParam p \<Rightarrow> check_param res compiled d site p
   | EFrom k path _ _ \<Rightarrow> check_from res d g site k path
   | EExpr src \<Rightarrow> check_expr d g site src
   | EConst _ \<Rightarrow> []
   | ERunSummary \<Rightarrow> [])"

section \<open>Findings about nodes\<close>

fun check_ids :: "nat \<Rightarrow> (ident, nat) jmap \<Rightarrow> node list \<Rightarrow> finding list" where
  "check_ids i seen [] = []"
| "check_ids i seen (n # ns) = (case jm_get seen (n_id n) of
     Some first \<Rightarrow> finding_at (node_path i ''id'') (DupNodeId (n_id n) first) # check_ids (Suc i) seen ns
   | None \<Rightarrow> check_ids (Suc i) (jm_set (n_id n) i seen) ns)"

definition check_entry :: "wf_doc \<Rightarrow> finding list" where
  "check_entry d = (case first_node d (wd_entry d) of
     None \<Rightarrow> [finding_at ''entry'' (EntryUnknownCode (wd_entry d))]
   | Some n \<Rightarrow> if is_start (n_body n) then [] else [finding_at ''entry'' (EntryNotStartCode (wd_entry d))])"

definition check_reachable :: "wf_doc \<Rightarrow> ident set \<Rightarrow> finding list" where
  "check_reachable d reachable =
     concat (map (\<lambda>(i, n). if n_id n \<in> reachable then [] else [finding_at (node_path i ''id'') (NodeUnreachable (n_id n))])
       (enumerate 0 (wd_nodes d)))"

text \<open>The declared \<open>next\<close> of a kind that has one.\<close>

definition declared_next :: "node_body \<Rightarrow> ident option" where
  "declared_next b = (case b of Script _ _ _ nxt _ \<Rightarrow> nxt | Delay _ _ nxt \<Rightarrow> nxt | SetFields _ _ nxt \<Rightarrow> nxt
     | Start nxt \<Rightarrow> nxt | Shuffle _ _ _ _ nxt \<Rightarrow> nxt | _ \<Rightarrow> None)"

definition member_refusal :: "node_body \<Rightarrow> string option" where
  "member_refusal b =
     (if is_shuffle b then Some ''is a shuffle''
      else if is_start b \<or> is_finish b then Some ''is not a step''
      else if declared_next b \<noteq> None then Some ''declares next''
      else (case b of Gate _ _ _ \<Rightarrow> Some ''branches'' | Switch _ _ _ \<Rightarrow> Some ''branches'' | _ \<Rightarrow> None))"

definition check_shuffle :: "wf_doc \<Rightarrow> nat \<times> node \<Rightarrow> finding list" where
  "check_shuffle d ni = (case ni of (i, n) \<Rightarrow>
     if \<not> is_shuffle (n_body n) then []
     else (if length (members_of (n_body n)) < 2
           then [finding_at (node_path i ''members'') (ShuffleEmpty (n_id n) (length (members_of (n_body n))))] else [])
       @ concat (map (\<lambda>(mi, m). case node_of d m of
            None \<Rightarrow> []
          | Some mn \<Rightarrow> (case member_refusal (n_body mn) of
              None \<Rightarrow> []
            | Some why \<Rightarrow> [finding_at (node_path i (''members['' @ nat_digits mi @ '']'')) (ShuffleMember m why)]))
          (enumerate 0 (members_of (n_body n)))))"

definition check_latest :: "string \<Rightarrow> string \<Rightarrow> finding list" where
  "check_latest path ref = (if suffix ''@latest'' ref then [finding_at path (LatestRef ref)] else [])"

definition check_refs :: "wf_doc \<Rightarrow> finding list" where
  "check_refs d =
     concat (map (\<lambda>(i, n). case n_body n of Script ref _ _ _ _ \<Rightarrow> check_latest (node_path i ''script'') ref | _ \<Rightarrow> [])
       (enumerate 0 (wd_nodes d)))
     @ (case wd_on_fail d of None \<Rightarrow> [] | Some (ref, _) \<Rightarrow> check_latest ''onFail.script'' ref)"

fun bad_name :: "string \<Rightarrow> string list \<Rightarrow> finding_code option" where
  "bad_name name [] = None"
| "bad_name name (s # ss) = (if s = [] then Some (SetNameEmpty name)
     else if digits_only s then Some (SetNameDigits name s) else bad_name name ss)"

definition check_name :: "string \<Rightarrow> value_expr \<Rightarrow> finding list" where
  "check_name path e = (case e of
     EConst (VStr s) \<Rightarrow>
       (if s = [] then [finding_at path (SetNameNotText (VStr s))]
        else case bad_name s (split_text s ''.'') of None \<Rightarrow> [] | Some c \<Rightarrow> [finding_at path c])
   | EConst v \<Rightarrow> [finding_at path (SetNameNotText v)]
   | _ \<Rightarrow> [])"

definition check_names :: "nat \<times> node \<Rightarrow> finding list" where
  "check_names ni = (case ni of (i, n) \<Rightarrow> (case n_body n of
     SetFields assigns _ _ \<Rightarrow>
       concat (map (\<lambda>(ai, nm, v). check_name (node_path i (''assignments['' @ nat_digits ai @ ''].name'')) nm) (enumerate 0 assigns))
   | _ \<Rightarrow> []))"

section \<open>The check\<close>

definition doc_ids :: "wf_doc \<Rightarrow> ident set" where
  "doc_ids d = n_id ` set (wd_nodes d)"

definition doc_graph :: "wf_doc \<Rightarrow> graph" where
  "doc_graph d = fst (build_edges d (doc_ids d))"

definition doc_reachable :: "wf_doc \<Rightarrow> ident set" where
  "doc_reachable d = set (reachable_from (doc_graph d) (doc_ids d) (wd_entry d))"

definition doc_cycle :: "wf_doc \<Rightarrow> ident option" where
  "doc_cycle d = (if wd_entry d \<in> doc_ids d then find_cycle (doc_graph d) (wd_entry d) else None)"

text \<open>The budget is optional, and its check runs only for a document that cannot loop.\<close>

definition check_workflow :: "resolved_refs \<Rightarrow> rval \<Rightarrow> nat option \<Rightarrow> wf_doc \<Rightarrow> finding list" where
  "check_workflow res compiled budget d =
     check_ids 0 [] (wd_nodes d) @ check_entry d @ snd (build_edges d (doc_ids d)) @ check_reachable d (doc_reachable d)
     @ concat (map (check_shuffle d) (enumerate 0 (wd_nodes d)))
     @ (case doc_cycle d of Some k \<Rightarrow> [finding_at [] (LoopCode k (wd_max_steps d))] | None \<Rightarrow> [])
     @ (case budget of
          Some max_total \<Rightarrow> if doc_cycle d = None \<and> wd_entry d \<in> doc_ids d
                            then budget_findings res max_total d (doc_graph d) (doc_reachable d) else []
        | None \<Rightarrow> [])
     @ check_refs d @ concat (map check_names (enumerate 0 (wd_nodes d)))
     @ concat (map (check_site res compiled d (doc_graph d)) (binding_sites d))"

end
