(* ===== verification/WfExecutor.thy ===== *)
theory WfExecutor
  imports WfSteps
begin

text \<open>
  The workflow orchestrator (\<open>packages/core/src/jobs/executors/workflow.ts\<close>): the loop that walks the cursor through a document, writes one
  row per step and decides how the run ends. One iteration is one turn; everything that comes from outside in it (the abort signal, the
  clock, the settings, the script registry, the checked parameters, the settled child run, the end of a wait) is the turn's input. A turn that throws
  hands the exception to the catch block.
\<close>

section \<open>State\<close>

datatype step_status = StepRunning | StepSuccess | StepFailed | StepSkipped | StepCarriedOver | StepCancelled

datatype cap_note = NotSerialisable | TooLarge nat

record step_row =
  sw_seq :: nat
  sw_step :: ident
  sw_kind :: string
  sw_child :: "(ident \<times> ident) option"
  sw_status :: step_status
  sw_started :: "millis option"
  sw_finished :: "millis option"
  sw_output :: rval
  sw_truncated :: "cap_note option"
  sw_input :: rval
  sw_edge :: "edge option"
  sw_pinned :: bool
  sw_verdict :: "trace option"
  sw_code :: "string option"

text \<open>What a failed run reports besides its code, with the data of the message.\<close>

datatype script_failure =
    RegistrySays string
  | ParamUnresolved ident string unresolved
  | ParamsRefused ident string
  | ChildFailed string

datatype fail_detail =
    BudgetSpent ident millis millis
  | StepsSpent ident nat "(ident \<times> nat) list"
  | NoSuchStep ident
  | FinishMessage string ident
  | SetFailed ident set_error
  | ScriptFailed ident script_failure
  | CancelledBy script_failure
  | Thrown string

record wf_run =
  wr_cursor :: "ident option"
  wr_step :: nat
  wr_offset :: nat
  wr_outputs :: "(ident, rval) jmap"
  wr_summary :: "summary_entry list"
  wr_counts :: "(ident, nat) jmap"
  wr_shuffled :: "(ident, ident list) jmap"
  wr_carried :: "ident list"
  wr_rows :: "step_row list"
  wr_next :: nat
  wr_failure :: "(string \<times> fail_detail) option"
  wr_cancelled :: bool

record wf_env =
  we_lib :: library
  we_json :: "host \<Rightarrow> nat option"
  we_doc :: wf_doc
  we_params :: "(string \<times> rval) list"
  we_index :: jsnum
  we_count :: jsnum
  we_repeat :: jsnum
  we_device :: device_facts
  we_seed :: jsnum
  we_pins :: "(ident, rval) jmap"

definition max_output_bytes :: nat where "max_output_bytes = 256 * 1024"

text \<open>\<open>capOutput\<close>: \<open>we_json\<close> is the length of the JSON text in bytes, or none where the serialiser throws.\<close>

definition or_null :: "rval \<Rightarrow> rval" where
  "or_null v = (if nullish v then VNull else v)"

definition cap_output :: "wf_env \<Rightarrow> wf_run \<Rightarrow> rval \<Rightarrow> rval \<times> cap_note option" where
  "cap_output env st v =
     (case we_json env (host_of (map entry_value (wr_summary st)) (or_null v)) of
        None \<Rightarrow> (VNull, Some NotSerialisable)
      | Some n \<Rightarrow> if n \<le> max_output_bytes then (or_null v, None) else (VNull, Some (TooLarge n)))"

definition current_input :: "wf_run \<Rightarrow> rval" where
  "current_input st = (if wr_summary st = [] then VNull else or_null (se_output (last (wr_summary st))))"

section \<open>Moving the cursor\<close>

definition enabled_in :: "wf_doc \<Rightarrow> ident \<Rightarrow> bool" where
  "enabled_in d k = (case node_of d k of None \<Rightarrow> True | Some n \<Rightarrow> n_enabled n)"

text \<open>The last shuffle that lists a member owns it.\<close>

definition owner_of :: "wf_doc \<Rightarrow> ident \<Rightarrow> ident option" where
  "owner_of d m = shuffle_owner (wd_nodes d) m"

fun keeps_going :: "node_body \<Rightarrow> bool" where
  "keeps_going (Shuffle _ _ _ cont _) = cont" | "keeps_going _ = False"

definition survives_failure :: "wf_doc \<Rightarrow> ident \<Rightarrow> ident option" where
  "survives_failure d k = (case owner_of d k of
     None \<Rightarrow> None
   | Some s \<Rightarrow> if list_ex (\<lambda>n. n_id n = s \<and> keeps_going (n_body n)) (wd_nodes d) then Some s else None)"

definition advance_cursor :: "wf_doc \<Rightarrow> node \<Rightarrow> edge \<Rightarrow> ident option" where
  "advance_cursor d n e = (case successor_of (n_body n) e of
     Some k \<Rightarrow> Some k
   | None \<Rightarrow> if e = Next \<and> \<not> is_shuffle (n_body n) then owner_of d (n_id n) else None)"

definition shuffled :: "wf_run \<Rightarrow> ident \<Rightarrow> ident list" where
  "shuffled st k = coalesce (jm_get (wr_shuffled st) k) []"

definition mark_shuffled :: "ident \<Rightarrow> edge option \<Rightarrow> (ident, ident list) jmap \<Rightarrow> (ident, ident list) jmap" where
  "mark_shuffled s e done = (case e of
     Some (Member m) \<Rightarrow> jm_set s (List.insert m (coalesce (jm_get done s) [])) done
   | _ \<Rightarrow> done)"

section \<open>The outside of a turn\<close>

record script_entry =
  en_id :: ident
  en_name :: string
  en_version :: string

text \<open>The settled row of a child run.\<close>

record child_run =
  ch_job :: ident
  ch_run :: ident
  ch_success :: bool
  ch_cancelled :: bool
  ch_result :: rval
  ch_error :: "string option"
  ch_class :: "string option"

datatype wf_exception = SignalAborted string | Enkaku string string | OtherThrow string

datatype wait_answer = WaitDone | WaitAborted string

text \<open>
  \<open>ti_registry\<close> resolves a script reference or says why not, with the code; \<open>ti_check\<close> fills the script's defaults into the
  parameters and validates them; \<open>ti_child\<close> is the enqueued child run once it is terminal, or what enqueuing or waiting threw.
\<close>

record turn_input =
  ti_aborted :: "string option"
  ti_max_total :: millis
  ti_elapsed :: millis
  ti_start :: millis
  ti_finish :: millis
  ti_wait :: wait_answer
  ti_registry :: "string \<Rightarrow> (string \<times> string) + script_entry"
  ti_check :: "script_entry \<Rightarrow> (string \<times> rval) list \<Rightarrow> string + (string \<times> rval) list"
  ti_child :: "script_entry \<Rightarrow> (string \<times> rval) list \<Rightarrow> wf_exception + child_run"

section \<open>One step\<close>

definition scope_at :: "wf_env \<Rightarrow> wf_run \<Rightarrow> millis \<Rightarrow> nat \<Rightarrow> resolve_scope" where
  "scope_at env st now seq =
     \<lparr>rs_params = we_params env, rs_outputs = wr_outputs st, rs_summary = wr_summary st, rs_now = js_of_int now,
      rs_random = Some (derive_random (we_seed env) (js_of_int (int seq))), rs_index = Some (we_index env),
      rs_count = Some (we_count env), rs_repeat = Some (we_repeat env), rs_device = Some (we_device env)\<rparr>"

definition fresh_resolution :: "wf_run \<Rightarrow> resolution" where
  "fresh_resolution st = \<lparr>xs_next = wr_next st, xs_draws = 0, xs_scope = None\<rparr>"

definition insert_row :: "step_row \<Rightarrow> wf_run \<Rightarrow> wf_run" where
  "insert_row r st = st\<lparr>wr_rows := wr_rows st @ [r]\<rparr>"

definition blank_row :: "nat \<Rightarrow> ident \<Rightarrow> string \<Rightarrow> step_status \<Rightarrow> step_row" where
  "blank_row seq step kind status =
     \<lparr>sw_seq = seq, sw_step = step, sw_kind = kind, sw_child = None, sw_status = status, sw_started = None, sw_finished = None,
      sw_output = VNull, sw_truncated = None, sw_input = VNull, sw_edge = None, sw_pinned = False, sw_verdict = None, sw_code = None\<rparr>"

text \<open>The row of the step in flight is the last one written.\<close>

definition update_row :: "(step_row \<Rightarrow> step_row) \<Rightarrow> wf_run \<Rightarrow> wf_run" where
  "update_row f st = st\<lparr>wr_rows := butlast (wr_rows st) @ map f (if wr_rows st = [] then [] else [last (wr_rows st)])\<rparr>"

definition push_summary :: "ident \<Rightarrow> string option \<Rightarrow> string \<Rightarrow> millis \<Rightarrow> millis \<Rightarrow> rval \<Rightarrow> wf_run \<Rightarrow> wf_run" where
  "push_summary k script status a b out st =
     st\<lparr>wr_summary := wr_summary st @
          [\<lparr>se_identity = wr_next st, se_node = k, se_script = script, se_status = status, se_started = to_sec a,
            se_finished = to_sec b, se_duration = b - a, se_output = out\<rparr>],
        wr_next := Suc (wr_next st)\<rparr>"

definition move_to :: "ident option \<Rightarrow> wf_run \<Rightarrow> wf_run" where
  "move_to k st = st\<lparr>wr_cursor := k\<rparr>"

definition fail_run :: "string \<Rightarrow> fail_detail \<Rightarrow> wf_run \<Rightarrow> wf_run" where
  "fail_run code why st = st\<lparr>wr_cursor := None, wr_failure := Some (code, why)\<rparr>"

definition count_step :: "wf_run \<Rightarrow> wf_run" where
  "count_step st = st\<lparr>wr_step := Suc (wr_step st)\<rparr>"

definition set_output :: "ident \<Rightarrow> rval \<Rightarrow> wf_run \<Rightarrow> wf_run" where
  "set_output k v st = st\<lparr>wr_outputs := jm_set k v (wr_outputs st)\<rparr>"

definition after_resolution :: "resolution \<Rightarrow> wf_run \<Rightarrow> wf_run" where
  "after_resolution x st = st\<lparr>wr_next := xs_next x\<rparr>"

text \<open>A step that succeeded: settle its row, add it to the summary, count it, move on.\<close>

definition complete_step :: "wf_env \<Rightarrow> turn_input \<Rightarrow> node \<Rightarrow> string option \<Rightarrow> edge \<Rightarrow> rval \<Rightarrow> rval \<Rightarrow> (step_row \<Rightarrow> step_row)
    \<Rightarrow> wf_run \<Rightarrow> wf_run" where
  "complete_step env ti n script e row_out sum_out f st =
     move_to (advance_cursor (we_doc env) n e) (count_step
       (push_summary (n_id n) script ''success'' (ti_start ti) (ti_finish ti) sum_out
         (update_row (\<lambda>r. f (r\<lparr>sw_status := StepSuccess, sw_finished := Some (ti_finish ti), sw_output := row_out, sw_edge := Some e\<rparr>)) st)))"

definition waiting :: "wait_answer \<Rightarrow> wf_run \<Rightarrow> wf_run \<Rightarrow> wf_run \<times> wf_exception option" where
  "waiting w st st' = (case w of WaitDone \<Rightarrow> (st', None) | WaitAborted why \<Rightarrow> (st, Some (SignalAborted why)))"

definition shuffle_output :: "nat \<Rightarrow> shuffle_step \<Rightarrow> jsnum \<Rightarrow> rval" where
  "shuffle_output i s waited = VObj i
     [(''chosen'', text_or_null (sh_chosen s)), (''done'', VArr (Suc i) (map VStr (sh_done s))),
      (''remaining'', num_of_nat (sh_remaining s)), (''waitedMs'', VNum waited)]"

definition is_member_edge :: "edge \<Rightarrow> bool" where
  "is_member_edge e = (case e of Member _ \<Rightarrow> True | _ \<Rightarrow> False)"

text \<open>A wait of no length is not awaited.\<close>

definition shuffle_turn :: "wf_env \<Rightarrow> turn_input \<Rightarrow> nat \<Rightarrow> node \<Rightarrow> ident list \<Rightarrow> value_expr \<Rightarrow> nat \<Rightarrow> wf_run
    \<Rightarrow> wf_run \<times> wf_exception option" where
  "shuffle_turn env ti seq n ms between between_max st =
     (let rs = scope_at env st (ti_start ti) seq; done = shuffled st (n_id n);
          s = compute_shuffle ms (set done) (coalesce (rs_random rs) (JFin 0)) (enabled_in (we_doc env)) in
      case (if is_member_edge (sh_edge s) then compute_between (we_lib env) rs between between_max (done = []) (fresh_resolution st)
            else (JFin 0, fresh_resolution st)) of (wait, x) \<Rightarrow>
        let st1 = after_resolution x st;
            st2 = st1\<lparr>wr_shuffled := mark_shuffled (n_id n) (Some (sh_edge s)) (wr_shuffled st1), wr_next := wr_next st1 + 2\<rparr>;
            out = shuffle_output (wr_next st1) s wait;
            st3 = complete_step env ti n None (sh_edge s) out out id st2 in
        if js_lt (JFin 0) wait then waiting (ti_wait ti) st1 st3 else (st3, None))"

definition gate_turn :: "wf_env \<Rightarrow> turn_input \<Rightarrow> nat \<Rightarrow> node \<Rightarrow> predicate \<Rightarrow> ident option \<Rightarrow> ident option \<Rightarrow> wf_run \<Rightarrow> wf_run" where
  "gate_turn env ti seq n p th el st =
     (case compute_gate (we_lib env) (scope_at env st (ti_start ti) seq) p th el (fresh_resolution st) of ((t, e, out), x) \<Rightarrow>
        complete_step env ti n None e out out (\<lambda>r. r\<lparr>sw_verdict := Some t\<rparr>) (after_resolution x st))"

definition switch_turn :: "wf_env \<Rightarrow> turn_input \<Rightarrow> nat \<Rightarrow> node \<Rightarrow> switch_mode \<Rightarrow> switch_case list \<Rightarrow> ident option \<Rightarrow> wf_run \<Rightarrow> wf_run" where
  "switch_turn env ti seq n mode cases dflt st =
     (case compute_switch (we_lib env) (scope_at env st (ti_start ti) seq) mode cases dflt (fresh_resolution st) of ((e, out), x) \<Rightarrow>
        complete_step env ti n None e out out id (after_resolution x st))"

definition delay_turn :: "wf_env \<Rightarrow> turn_input \<Rightarrow> nat \<Rightarrow> node \<Rightarrow> value_expr \<Rightarrow> nat \<Rightarrow> wf_run \<Rightarrow> wf_run \<times> wf_exception option" where
  "delay_turn env ti seq n ms max_ms st =
     (case compute_delay (we_lib env) (scope_at env st (ti_start ti) seq) ms max_ms (fresh_resolution st) of (wait, x) \<Rightarrow>
      case fresh_object [(''ms'', VNum wait)] x of (out, x1) \<Rightarrow>
        waiting (ti_wait ti) (after_resolution x st) (complete_step env ti n None Next out out id (after_resolution x1 st)))"

definition set_turn :: "wf_env \<Rightarrow> turn_input \<Rightarrow> nat \<Rightarrow> node \<Rightarrow> (value_expr \<times> value_expr) list \<Rightarrow> bool \<Rightarrow> wf_run \<Rightarrow> wf_run" where
  "set_turn env ti seq n assigns keep_only st =
     (case compute_set (we_lib env) (scope_at env st (ti_start ti) seq) assigns keep_only (current_input st) (fresh_resolution st) of
        (Inl e, x) \<Rightarrow>
          fail_run ''E_WORKFLOW_SET_FAILED'' (SetFailed (n_id n) e) (count_step
            (push_summary (n_id n) None ''failed'' (ti_start ti) (ti_finish ti) VNull
              (update_row (\<lambda>r. r\<lparr>sw_status := StepFailed, sw_finished := Some (ti_finish ti), sw_code := Some ''E_WORKFLOW_SET_FAILED''\<rparr>)
                (after_resolution x st))))
      | (Inr v, x) \<Rightarrow>
          (case cap_output env st v of (out, note) \<Rightarrow>
             complete_step env ti n None Next out out (\<lambda>r. r\<lparr>sw_truncated := note\<rparr>) (set_output (n_id n) out (after_resolution x st))))"

section \<open>A script step\<close>

datatype script_outcome =
    ScriptOk child_run script_entry
  | ScriptNot string script_failure "child_run option" "script_entry option"
  | ScriptThrew wf_exception

text \<open>The parameters in order, until one does not resolve.\<close>

fun resolve_params :: "library \<Rightarrow> resolve_scope \<Rightarrow> (string \<times> value_expr) list \<Rightarrow> resolution
    \<Rightarrow> (string \<times> unresolved + (string \<times> rval) list) \<times> resolution" where
  "resolve_params lib rs [] x = (Inr [], x)"
| "resolve_params lib rs ((k, e) # rest) x = (case resolve_value lib rs e x of
     (Inl why, x1) \<Rightarrow> (Inl (k, why), x1)
   | (Inr v, x1) \<Rightarrow> (case resolve_params lib rs rest x1 of
       (Inl bad, x2) \<Rightarrow> (Inl bad, x2)
     | (Inr ps, x2) \<Rightarrow> (Inr ((k, v) # ps), x2)))"

definition run_script :: "wf_env \<Rightarrow> turn_input \<Rightarrow> nat \<Rightarrow> node \<Rightarrow> string \<Rightarrow> (string \<times> value_expr) list \<Rightarrow> wf_run
    \<Rightarrow> script_outcome \<times> resolution" where
  "run_script env ti seq n script params st =
     (case ti_registry ti script of
        Inl (code, msg) \<Rightarrow> (ScriptNot code (RegistrySays msg) None None, fresh_resolution st)
      | Inr en \<Rightarrow>
         (case resolve_params (we_lib env) (scope_at env st (ti_start ti) seq) params (fresh_resolution st) of
            (Inl (k, why), x) \<Rightarrow> (ScriptNot ''E_WORKFLOW_BINDING_UNRESOLVED'' (ParamUnresolved (n_id n) k why) None (Some en), x)
          | (Inr ps, x) \<Rightarrow>
             (case ti_check ti en ps of
                Inl issues \<Rightarrow> (ScriptNot ''invalid_job_params'' (ParamsRefused (n_id n) issues) None (Some en), x)
              | Inr filled \<Rightarrow>
                 (case ti_child ti en filled of
                    Inl e \<Rightarrow> (ScriptThrew e, x)
                  | Inr c \<Rightarrow>
                      (if ch_success c then ScriptOk c en
                       else ScriptNot (coalesce (ch_class c) ''SCRIPT_FAILED'')
                              (ChildFailed (coalesce (ch_error c) ''the step failed'')) (Some c) (Some en), x)))))"

definition script_label :: "script_entry \<Rightarrow> string" where
  "script_label en = en_name en @ ''@'' @ en_version en"

definition was_cancelled :: "string \<Rightarrow> child_run option \<Rightarrow> bool" where
  "was_cancelled code c \<longleftrightarrow> (case c of None \<Rightarrow> False | Some run \<Rightarrow> ch_cancelled run) \<or> code = ''job_cancelled''"

text \<open>Where a failed step leads: its own failure edge, back to a shuffle that keeps going, or the end of the run.\<close>

definition after_failure :: "wf_env \<Rightarrow> node \<Rightarrow> ident option \<Rightarrow> string \<Rightarrow> script_failure \<Rightarrow> wf_run \<Rightarrow> wf_run" where
  "after_failure env n on_failure code why st =
     (case on_failure of
        Some k \<Rightarrow> move_to (Some k) st
      | None \<Rightarrow> (case survives_failure (we_doc env) (n_id n) of
          Some s \<Rightarrow> move_to (Some s) st
        | None \<Rightarrow> fail_run code (ScriptFailed (n_id n) why) st))"

definition child_ids :: "child_run option \<Rightarrow> (ident \<times> ident) option" where
  "child_ids c = (case c of None \<Rightarrow> None | Some run \<Rightarrow> Some (ch_job run, ch_run run))"

definition script_turn :: "wf_env \<Rightarrow> turn_input \<Rightarrow> nat \<Rightarrow> node \<Rightarrow> string \<Rightarrow> (string \<times> value_expr) list \<Rightarrow> ident option \<Rightarrow> wf_run
    \<Rightarrow> wf_run \<times> wf_exception option" where
  "script_turn env ti seq n script params on_failure st =
     (case run_script env ti seq n script params st of
        (ScriptThrew e, x) \<Rightarrow> (after_resolution x st, Some e)
      | (ScriptOk c en, x) \<Rightarrow>
          (case cap_output env st (ch_result c) of (out, note) \<Rightarrow>
            (complete_step env ti n (Some (script_label en)) Next out (or_null (ch_result c))
               (\<lambda>r. r\<lparr>sw_child := child_ids (Some c), sw_truncated := note\<rparr>)
               (set_output (n_id n) (ch_result c) (after_resolution x st)), None))
      | (ScriptNot code why c en, x) \<Rightarrow>
          (let cancelled = was_cancelled code c;
               run_cancelled = (case c of None \<Rightarrow> False | Some run \<Rightarrow> ch_cancelled run);
               st1 = count_step (push_summary (n_id n) (Some (case en of None \<Rightarrow> script | Some e \<Rightarrow> script_label e)) ''failed''
                 (ti_start ti) (ti_finish ti) VNull
                 (update_row (\<lambda>r. r\<lparr>sw_status := if run_cancelled then StepCancelled else StepFailed, sw_finished := Some (ti_finish ti),
                      sw_code := Some code, sw_edge := if cancelled then None else Some OnFailure, sw_child := child_ids c\<rparr>)
                   (after_resolution x st))) in
           ((if cancelled then (fail_run ''job_cancelled'' (CancelledBy why) st1)\<lparr>wr_cancelled := True\<rparr>
             else after_failure env n on_failure code why st1), None)))"

section \<open>One turn of the loop\<close>

text \<open>A node that is switched off: a row and a summary entry, no output, no step counted.\<close>

definition skip_turn :: "wf_env \<Rightarrow> turn_input \<Rightarrow> node \<Rightarrow> wf_run \<Rightarrow> wf_run" where
  "skip_turn env ti n st =
     (let r = (blank_row (wr_step st + wr_offset st) (n_id n) (node_kind (n_body n)) StepSkipped)
                \<lparr>sw_started := Some (ti_start ti), sw_finished := Some (ti_start ti), sw_edge := Some Next\<rparr>;
          script = (case n_body n of Script ref _ _ _ _ \<Rightarrow> Some ref | _ \<Rightarrow> None);
          st1 = (insert_row r st)\<lparr>wr_offset := Suc (wr_offset st)\<rparr> in
      move_to (advance_cursor (we_doc env) n Next) (push_summary (n_id n) script ''skipped'' (ti_start ti) (ti_start ti) VNull st1))"

definition pinned_turn :: "wf_env \<Rightarrow> turn_input \<Rightarrow> node \<Rightarrow> rval \<Rightarrow> wf_run \<Rightarrow> wf_run" where
  "pinned_turn env ti n v st =
     (let script = (case n_body n of Script ref _ _ _ _ \<Rightarrow> Some (ref @ '' (pinned)'') | _ \<Rightarrow> None) in
      complete_step env ti n script (default_edge_for (n_body n)) (or_null v) (or_null v) (\<lambda>r. r\<lparr>sw_pinned := True\<rparr>)
        (set_output (n_id n) (or_null v) st))"

definition open_step :: "wf_env \<Rightarrow> turn_input \<Rightarrow> node \<Rightarrow> wf_run \<Rightarrow> wf_run" where
  "open_step env ti n st =
     insert_row ((blank_row (wr_step st + wr_offset st) (n_id n) (node_kind (n_body n)) StepRunning)
        \<lparr>sw_started := Some (ti_start ti), sw_input := fst (cap_output env st (current_input st))\<rparr>)
       (st\<lparr>wr_counts := jm_set (n_id n) (Suc (coalesce (jm_get (wr_counts st) (n_id n)) 0)) (wr_counts st)\<rparr>)"

definition step_turn :: "wf_env \<Rightarrow> turn_input \<Rightarrow> node \<Rightarrow> wf_run \<Rightarrow> wf_run \<times> wf_exception option" where
  "step_turn env ti n st =
     (let seq = wr_step st + wr_offset st; st1 = open_step env ti n st in
      case jm_get (we_pins env) (n_id n) of
        Some v \<Rightarrow> (pinned_turn env ti n v st1, None)
      | None \<Rightarrow> (case n_body n of
          Shuffle ms between between_max _ _ \<Rightarrow> shuffle_turn env ti seq n ms between between_max st1
        | Gate p th el \<Rightarrow> (gate_turn env ti seq n p th el st1, None)
        | Switch mode cases dflt \<Rightarrow> (switch_turn env ti seq n mode cases dflt st1, None)
        | Delay ms max_ms _ \<Rightarrow> delay_turn env ti seq n ms max_ms st1
        | SetFields assigns keep_only _ \<Rightarrow> (set_turn env ti seq n assigns keep_only st1, None)
        | Script script params _ _ fl \<Rightarrow> script_turn env ti seq n script params fl st1
        | Start _ \<Rightarrow> (st1, None)
        | Finish _ _ \<Rightarrow> (st1, None)))"

definition wf_turn :: "wf_env \<Rightarrow> turn_input \<Rightarrow> ident \<Rightarrow> wf_run \<Rightarrow> wf_run \<times> wf_exception option" where
  "wf_turn env ti cur st =
     (let d = we_doc env in
      case ti_aborted ti of
        Some why \<Rightarrow> (st, Some (SignalAborted why))
      | None \<Rightarrow>
         if ti_max_total ti < ti_elapsed ti
         then (fail_run ''E_WORKFLOW_BUDGET_EXCEEDED'' (BudgetSpent cur (ti_max_total ti) (ti_elapsed ti)) st, None)
         else if wd_max_steps d \<le> wr_step st
         then (fail_run ''E_WORKFLOW_STEP_BUDGET'' (StepsSpent cur (wd_max_steps d) (wr_counts st)) st, None)
         else (case node_of d cur of
            None \<Rightarrow> (fail_run ''E_WORKFLOW_INVALID'' (NoSuchStep cur) st, None)
          | Some n \<Rightarrow>
             (case n_body n of
                Start nxt \<Rightarrow> (move_to nxt st, None)
              | Finish status msg \<Rightarrow>
                  (if status = Fail then fail_run ''E_WORKFLOW_FINISH_FAILED'' (FinishMessage msg (n_id n)) st
                   else move_to None st, None)
              | _ \<Rightarrow> if \<not> n_enabled n then (skip_turn env ti n st, None) else step_turn env ti n st)))"

fun wf_loop :: "wf_env \<Rightarrow> turn_input list \<Rightarrow> wf_run \<Rightarrow> wf_run \<times> wf_exception option" where
  "wf_loop env [] st = (st, None)"
| "wf_loop env (ti # tis) st = (case wr_cursor st of
     None \<Rightarrow> (st, None)
   | Some cur \<Rightarrow> (case wf_turn env ti cur st of
       (st', Some e) \<Rightarrow> (st', Some e)
     | (st', None) \<Rightarrow> wf_loop env tis st'))"

section \<open>Before the loop\<close>

text \<open>
  The parameters: the document's defaults under what was supplied. A resumed run copies the finished steps of the earlier run below
  the step it resumes at; a node test is seeded with one output.
\<close>

definition start_params :: "wf_doc \<Rightarrow> rval \<Rightarrow> (string \<times> rval) list" where
  "start_params d raw =
     (let supplied = filter (\<lambda>(k, v). k \<noteq> ''__nodeTest'') (properties raw);
          defaults = foldl (\<lambda>m p. case wp_default p of None \<Rightarrow> m | Some v \<Rightarrow> if v = VUndef then m else jm_set (wp_name p) v m) [] (wd_params d) in
      property_order (foldl (\<lambda>m (k, v). jm_set k v m) defaults supplied))"

definition initial_run :: "wf_doc \<Rightarrow> nat \<Rightarrow> wf_run" where
  "initial_run d i =
     \<lparr>wr_cursor = Some (wd_entry d), wr_step = 0, wr_offset = 0, wr_outputs = [], wr_summary = [], wr_counts = [], wr_shuffled = [],
      wr_carried = [], wr_rows = [], wr_next = i, wr_failure = None, wr_cancelled = False\<rparr>"

definition seed_node_test :: "ident \<Rightarrow> rval \<Rightarrow> millis \<Rightarrow> wf_run \<Rightarrow> wf_run" where
  "seed_node_test pred v now st = push_summary pred None ''success'' now now v (set_output pred v st)"

fun carry_over :: "nat \<Rightarrow> step_row list \<Rightarrow> wf_run \<Rightarrow> wf_run" where
  "carry_over from [] st = st"
| "carry_over from (r # rs) st =
     (if from \<le> sw_seq r then st
      else if sw_status r \<noteq> StepSuccess \<and> sw_status r \<noteq> StepCarriedOver then carry_over from rs st
      else carry_over from rs
        ((insert_row (r\<lparr>sw_seq := wr_offset st, sw_status := StepCarriedOver, sw_code := None\<rparr>) (set_output (sw_step r) (sw_output r) st))
          \<lparr>wr_offset := Suc (wr_offset st), wr_carried := List.insert (sw_step r) (wr_carried st),
           wr_shuffled := (if sw_kind r = ''shuffle'' then mark_shuffled (sw_step r) (sw_edge r) (wr_shuffled st) else wr_shuffled st)\<rparr>))"

definition resume_run :: "wf_doc \<Rightarrow> nat \<Rightarrow> step_row list \<Rightarrow> wf_run \<Rightarrow> wf_run" where
  "resume_run d from prior st =
     (carry_over from (sort_key sw_seq prior) st)
       \<lparr>wr_cursor := Some (case find (\<lambda>r. sw_seq r = from) (sort_key sw_seq prior) of None \<Rightarrow> wd_entry d | Some r \<Rightarrow> sw_step r)\<rparr>"

text \<open>How the run begins, by its trigger.\<close>

datatype run_start = FromEntry | NodeTest ident rval millis | Resumed nat "step_row list"

definition begin_run :: "wf_doc \<Rightarrow> nat \<Rightarrow> run_start \<Rightarrow> wf_run" where
  "begin_run d i how = (case how of
     FromEntry \<Rightarrow> initial_run d i
   | NodeTest pred v now \<Rightarrow> seed_node_test pred v now (initial_run d i)
   | Resumed from prior \<Rightarrow> resume_run d from prior (initial_run d i))"

section \<open>After the loop\<close>

text \<open>The catch block; the flag says whether the signal is aborted by then.\<close>

definition catch_exception :: "bool \<Rightarrow> wf_exception \<Rightarrow> wf_run \<Rightarrow> wf_run" where
  "catch_exception aborted e st =
     (let cancelled = (aborted \<and> (case e of Enkaku code _ \<Rightarrow> code = ''E_CANCELLED'' \<or> code = ''job_cancelled'' | _ \<Rightarrow> True));
          code = (if cancelled then ''job_cancelled'' else case e of Enkaku c _ \<Rightarrow> c | _ \<Rightarrow> ''E_WORKFLOW_INTERNAL'');
          msg = (case e of SignalAborted m \<Rightarrow> m | Enkaku _ m \<Rightarrow> m | OtherThrow m \<Rightarrow> m) in
      st\<lparr>wr_failure := Some (code, Thrown msg), wr_cancelled := cancelled\<rparr>)"

definition never_reached :: "wf_doc \<Rightarrow> wf_run \<Rightarrow> node list" where
  "never_reached d st =
     filter (\<lambda>n. \<not> is_start (n_body n) \<and> \<not> is_finish (n_body n) \<and> jm_get (wr_counts st) (n_id n) = None
               \<and> n_id n \<notin> set (wr_carried st)) (wd_nodes d)"

definition skip_seq :: "wf_run \<Rightarrow> nat" where
  "skip_seq st = max (wr_step st + wr_offset st) (fold max (map (\<lambda>r. Suc (sw_seq r)) (wr_rows st)) 0)"

definition write_skipped :: "wf_doc \<Rightarrow> wf_run \<Rightarrow> wf_run" where
  "write_skipped d st =
     st\<lparr>wr_rows := wr_rows st @ map (\<lambda>(seq, n). blank_row seq (n_id n) (node_kind (n_body n)) StepSkipped)
          (enumerate (skip_seq st) (never_reached d st))\<rparr>"

text \<open>
  The cleanup of a run that failed for real. Whatever goes wrong in it is only logged; the scope of its
  parameters has no device. Its wait cannot be aborted, so what \<open>ti_child\<close> throws here is thrown before the row is written.
\<close>

definition cleanup :: "wf_env \<Rightarrow> turn_input \<Rightarrow> wf_run \<Rightarrow> wf_run" where
  "cleanup env ti st = (case wd_on_fail (we_doc env) of
     None \<Rightarrow> st
   | Some (script, params) \<Rightarrow>
       if wr_failure st = None \<or> wr_cancelled st then st
       else (case ti_registry ti script of
          Inl _ \<Rightarrow> st
        | Inr en \<Rightarrow>
           (let seq = skip_seq st; rs = (scope_at env st (ti_start ti) seq)\<lparr>rs_device := None\<rparr> in
            case resolve_params (we_lib env) rs params (fresh_resolution st) of
              (Inl _, x) \<Rightarrow> after_resolution x st
            | (Inr ps, x) \<Rightarrow>
               (case ti_check ti en ps of
                  Inl _ \<Rightarrow> after_resolution x st
                | Inr filled \<Rightarrow>
                   (case ti_child ti en filled of
                      Inl _ \<Rightarrow> after_resolution x st
                    | Inr c \<Rightarrow>
                        insert_row ((blank_row seq ''_on_fail'' ''script'' (if ch_success c then StepSuccess else StepFailed))
                          \<lparr>sw_child := child_ids (Some c), sw_started := Some (ti_start ti), sw_finished := Some (ti_finish ti),
                           sw_code := if ch_success c then None else Some (coalesce (ch_class c) ''CLEANUP_FAILED'')\<rparr>)
                          (after_resolution x st))))))"

definition wind_down :: "wf_env \<Rightarrow> bool \<Rightarrow> turn_input \<Rightarrow> wf_run \<times> wf_exception option \<Rightarrow> wf_run" where
  "wind_down env aborted ti r =
     (let st = (case r of (st, None) \<Rightarrow> st | (st, Some e) \<Rightarrow> catch_exception aborted e st) in
      cleanup env ti (write_skipped (we_doc env) st))"

definition run_result :: "wf_run \<Rightarrow> (string \<times> fail_detail) + rval list" where
  "run_result st = (case wr_failure st of Some f \<Rightarrow> Inl f | None \<Rightarrow> Inr (map entry_value (wr_summary st)))"

end
