(* ===== verification/WfRuns.thy ===== *)
theory WfRuns
  imports WfExecutor
begin

text \<open>What every run of the workflow orchestrator keeps: the numbering of its rows, and the end of the loop.\<close>

section \<open>What the pieces of a turn leave alone\<close>

named_theorems turn_simps
  \<open>the fields a piece of a turn does not touch\<close>

text \<open>The number and the node of every row; which nodes the run counted or carried over.\<close>

definition labels :: "wf_run \<Rightarrow> (nat \<times> ident) list" where
  "labels st = map (\<lambda>r. (sw_seq r, sw_step r)) (wr_rows st)"

definition touched :: "wf_run \<Rightarrow> ident set" where
  "touched st = {k. jm_get (wr_counts st) k \<noteq> None} \<union> set (wr_carried st)"

lemma labels_update_row [turn_simps]: "(\<And>r. sw_seq (f r) = sw_seq r \<and> sw_step (f r) = sw_step r) \<Longrightarrow> labels (update_row f st) = labels st"
  by (cases "wr_rows st" rule: rev_cases) (simp_all add: labels_def update_row_def)

lemma labels_pieces [turn_simps]:
  "labels (push_summary k s w a b v st) = labels st" "labels (move_to c st) = labels st" "labels (fail_run code why st) = labels st"
  "labels (count_step st) = labels st" "labels (set_output k v st) = labels st" "labels (after_resolution x st) = labels st"
  "labels (insert_row r st) = labels st @ [(sw_seq r, sw_step r)]"
  by (simp_all add: labels_def push_summary_def move_to_def fail_run_def count_step_def set_output_def after_resolution_def insert_row_def)

lemma labels_fields [turn_simps]:
  "labels (st\<lparr>wr_counts := c\<rparr>) = labels st" "labels (st\<lparr>wr_carried := cs\<rparr>) = labels st" "labels (st\<lparr>wr_shuffled := d\<rparr>) = labels st" "labels (st\<lparr>wr_next := i\<rparr>) = labels st"
  "labels (st\<lparr>wr_shuffled := d, wr_next := i\<rparr>) = labels st"
  "labels (st\<lparr>wr_offset := n\<rparr>) = labels st" "labels (st\<lparr>wr_cancelled := b\<rparr>) = labels st" "labels (st\<lparr>wr_failure := f, wr_cancelled := b\<rparr>) = labels st"
  by (simp_all add: labels_def)

lemma step_pieces [turn_simps]:
  "wr_step (push_summary k s w a b v st) = wr_step st" "wr_step (move_to c st) = wr_step st" "wr_step (fail_run code why st) = wr_step st"
  "wr_step (count_step st) = Suc (wr_step st)" "wr_step (set_output k v st) = wr_step st" "wr_step (after_resolution x st) = wr_step st"
  "wr_step (insert_row r st) = wr_step st" "wr_step (update_row f st) = wr_step st"
  by (simp_all add: push_summary_def move_to_def fail_run_def count_step_def set_output_def after_resolution_def insert_row_def update_row_def)

lemma offset_pieces [turn_simps]:
  "wr_offset (push_summary k s w a b v st) = wr_offset st" "wr_offset (move_to c st) = wr_offset st"
  "wr_offset (fail_run code why st) = wr_offset st" "wr_offset (count_step st) = wr_offset st"
  "wr_offset (set_output k v st) = wr_offset st" "wr_offset (after_resolution x st) = wr_offset st"
  "wr_offset (insert_row r st) = wr_offset st" "wr_offset (update_row f st) = wr_offset st"
  by (simp_all add: push_summary_def move_to_def fail_run_def count_step_def set_output_def after_resolution_def insert_row_def update_row_def)

lemma rows_pieces [turn_simps]: "wr_rows (after_resolution x st) = wr_rows st" "wr_rows (set_output k v st) = wr_rows st"
  by (simp_all add: after_resolution_def set_output_def)

lemma touched_pieces [turn_simps]:
  "touched (push_summary k s w a b v st) = touched st" "touched (move_to c st) = touched st"
  "touched (fail_run code why st) = touched st" "touched (count_step st) = touched st"
  "touched (set_output k v st) = touched st" "touched (after_resolution x st) = touched st"
  "touched (insert_row r st) = touched st" "touched (update_row f st) = touched st"
  "touched (st\<lparr>wr_offset := n\<rparr>) = touched st" "touched (st\<lparr>wr_cancelled := b0\<rparr>) = touched st"
  "touched (st\<lparr>wr_shuffled := d, wr_next := i\<rparr>) = touched st"
  by (simp_all add: touched_def push_summary_def move_to_def fail_run_def count_step_def set_output_def after_resolution_def
        insert_row_def update_row_def)

text \<open>A turn that ends a step counts it; a turn that throws in the middle of a step does not. Neither writes another row.\<close>

definition stepped :: "wf_run \<Rightarrow> wf_run \<Rightarrow> bool" where
  "stepped st st' \<longleftrightarrow> labels st' = labels st \<and> wr_step st' = Suc (wr_step st) \<and> wr_offset st' = wr_offset st \<and> touched st' = touched st"

definition held_up :: "wf_run \<Rightarrow> wf_run \<Rightarrow> bool" where
  "held_up st st' \<longleftrightarrow> labels st' = labels st \<and> wr_rows st' = wr_rows st \<and> wr_step st' = wr_step st \<and> wr_offset st' = wr_offset st \<and> touched st' = touched st"

lemma complete_step_stepped:
  "(\<And>r. sw_seq (f r) = sw_seq r \<and> sw_step (f r) = sw_step r) \<Longrightarrow> held_up st st' \<Longrightarrow> stepped st (complete_step env ti n script e ro so f st')"
  by (simp add: stepped_def held_up_def complete_step_def turn_simps)

lemma held_up_pieces [simp]:
  "held_up st st" "held_up st (after_resolution x st') = held_up st st'" "held_up st (set_output k v st') = held_up st st'"
  "held_up st (st'\<lparr>wr_shuffled := d, wr_next := i\<rparr>) = held_up st st'"
  by (simp_all add: held_up_def turn_simps)

definition turn_ok :: "wf_run \<Rightarrow> wf_run \<times> wf_exception option \<Rightarrow> bool" where
  "turn_ok st r \<longleftrightarrow> (case r of (st', None) \<Rightarrow> stepped st st' | (st', Some _) \<Rightarrow> held_up st st')"

lemma turn_ok_waiting: "held_up st before \<Longrightarrow> stepped st after \<Longrightarrow> turn_ok st (waiting w before after)"
  by (cases w) (simp_all add: turn_ok_def waiting_def)

lemma gate_turn_ok: "stepped st (gate_turn env ti seq n p th el st)"
  by (auto simp: gate_turn_def intro!: complete_step_stepped split: prod.split)

lemma switch_turn_ok: "stepped st (switch_turn env ti seq n mode cases dflt st)"
  by (auto simp: switch_turn_def intro!: complete_step_stepped split: prod.split)

lemma delay_turn_ok: "turn_ok st (delay_turn env ti seq n ms max_ms st)"
  by (auto simp: delay_turn_def intro!: turn_ok_waiting complete_step_stepped split: prod.split)

lemma shuffle_turn_ok: "turn_ok st (shuffle_turn env ti seq n ms between between_max st)"
  unfolding shuffle_turn_def Let_def
  by (auto intro!: turn_ok_waiting complete_step_stepped split: prod.split) (auto simp: turn_ok_def intro!: complete_step_stepped)

lemma set_turn_ok: "stepped st (set_turn env ti seq n assigns keep_only st)"
  by (auto simp: set_turn_def intro!: complete_step_stepped split: prod.split sum.split) (simp_all add: stepped_def turn_simps)

lemma after_failure_fields [turn_simps]:
  "labels (after_failure env n fl code why st) = labels st" "wr_step (after_failure env n fl code why st) = wr_step st"
  "wr_offset (after_failure env n fl code why st) = wr_offset st" "touched (after_failure env n fl code why st) = touched st"
  by (simp_all add: after_failure_def turn_simps split: option.split)

lemma script_turn_ok: "turn_ok st (script_turn env ti seq n script params fl st)"
  by (auto simp: script_turn_def turn_ok_def Let_def intro!: complete_step_stepped split: prod.split script_outcome.split)
     (simp_all add: stepped_def turn_simps)

lemma pinned_turn_ok: "stepped st (pinned_turn env ti n v st)"
  by (auto simp: pinned_turn_def intro!: complete_step_stepped)

lemmas turns_ok = gate_turn_ok switch_turn_ok delay_turn_ok shuffle_turn_ok set_turn_ok script_turn_ok pinned_turn_ok

lemma turn_ok_done: "stepped st st' \<Longrightarrow> turn_ok st (st', None)"
  by (simp add: turn_ok_def)

lemma step_turn_ok:
  "is_start (n_body n) = False \<Longrightarrow> is_finish (n_body n) = False \<Longrightarrow> turn_ok (open_step env ti n st) (step_turn env ti n st)"
  by (cases "n_body n") (auto simp: step_turn_def Let_def intro!: turns_ok turn_ok_done split: option.split)

lemma open_step_fields:
  "labels (open_step env ti n st) = labels st @ [(wr_step st + wr_offset st, n_id n)]" "wr_step (open_step env ti n st) = wr_step st"
  "wr_offset (open_step env ti n st) = wr_offset st"
  "touched (open_step env ti n st) = insert (n_id n) (touched st)"
  by (auto simp: open_step_def turn_simps blank_row_def) (auto simp: touched_def split: if_splits)

section \<open>Rows are numbered without gaps\<close>

definition seqs :: "wf_run \<Rightarrow> nat list" where
  "seqs st = map sw_seq (wr_rows st)"

lemma seqs_labels: "seqs st = map fst (labels st)"
  by (simp add: seqs_def labels_def)

definition numbered :: "wf_run \<Rightarrow> bool" where
  "numbered st \<longleftrightarrow> seqs st = [0..<wr_step st + wr_offset st]"

text \<open>After an exception there may be one row more, the one of the step it interrupted.\<close>

definition interrupted :: "wf_run \<Rightarrow> bool" where
  "interrupted st \<longleftrightarrow> seqs st = [0..<Suc (wr_step st + wr_offset st)]"

definition rows_ok :: "wf_run \<times> wf_exception option \<Rightarrow> bool" where
  "rows_ok r \<longleftrightarrow> numbered (fst r) \<or> snd r \<noteq> None \<and> interrupted (fst r)"

lemma rows_ok_simps [simp]:
  "rows_ok (st, None) \<longleftrightarrow> numbered st" "rows_ok (st, Some e) \<longleftrightarrow> numbered st \<or> interrupted st"
  by (simp_all add: rows_ok_def)

lemma step_turn_rows:
  assumes "numbered st" "is_start (n_body n) = False" "is_finish (n_body n) = False"
  shows "rows_ok (step_turn env ti n st)"
proof -
  obtain s1 e1 where r: "step_turn env ti n st = (s1, e1)" by (cases "step_turn env ti n st")
  show ?thesis
    using step_turn_ok [OF assms(2,3), of env ti st] assms(1) r
    by (cases e1) (auto simp: turn_ok_def stepped_def held_up_def open_step_fields numbered_def interrupted_def seqs_labels)
qed

lemma skip_turn_numbered: "numbered st \<Longrightarrow> numbered (skip_turn env ti n st)"
  by (simp add: numbered_def seqs_labels skip_turn_def Let_def turn_simps blank_row_def)

lemma numbered_stays: "numbered (fail_run code why st) = numbered st" "numbered (move_to c st) = numbered st"
  by (simp_all add: numbered_def seqs_labels turn_simps)

lemma wf_turn_rows:
  assumes "numbered st"
  shows "rows_ok (wf_turn env ti cur st)"
proof (cases "node_of (we_doc env) cur")
  case None
  then show ?thesis using assms by (auto simp: wf_turn_def Let_def numbered_stays split: option.split)
next
  case (Some n)
  then show ?thesis
    using assms by (cases "n_body n") (auto simp: wf_turn_def Let_def numbered_stays step_turn_rows skip_turn_numbered split: option.split)
qed

lemma wf_loop_rows: "numbered st \<Longrightarrow> rows_ok (wf_loop env tis st)"
proof (induction env tis st rule: wf_loop.induct)
  case (2 env ti tis st)
  show ?case
  proof (cases "wr_cursor st")
    case (Some cur)
    obtain s1 e1 where turn: "wf_turn env ti cur st = (s1, e1)" by (cases "wf_turn env ti cur st")
    with wf_turn_rows [OF 2(2), of env ti cur] 2 Some show ?thesis by (cases e1) auto
  qed (use 2 in auto)
qed auto

lemma carry_over_numbered: "numbered st \<Longrightarrow> wr_step st = 0 \<Longrightarrow> numbered (carry_over from rows st) \<and> wr_step (carry_over from rows st) = 0"
  by (induction "from" rows st rule: carry_over.induct) (auto simp: numbered_def seqs_def insert_row_def set_output_def)

lemma fold_max_upt: "fold max (map Suc [0..<n]) 0 = n"
  by (induction n) (auto simp: fold_append)

lemma skip_seq_next:
  assumes "numbered st \<or> interrupted st"
  shows "skip_seq st = length (wr_rows st) \<and> seqs st = [0..<length (wr_rows st)]"
proof -
  obtain n where n: "seqs st = [0..<n]" "wr_step st + wr_offset st \<le> n"
    using assms unfolding numbered_def interrupted_def by (metis le_refl le_SucI)
  have len: "length (wr_rows st) = n" using arg_cong [OF n(1), of length] by (simp add: seqs_def)
  have "map (\<lambda>r. Suc (sw_seq r)) (wr_rows st) = map Suc (seqs st)" by (simp add: seqs_def)
  then show ?thesis using n len by (simp add: skip_seq_def fold_max_upt max_def)
qed

text \<open>What a run leaves behind, whichever way it began and ended.\<close>

definition finished_run :: "wf_env \<Rightarrow> nat \<Rightarrow> run_start \<Rightarrow> turn_input list \<Rightarrow> bool \<Rightarrow> turn_input \<Rightarrow> wf_run" where
  "finished_run env i how tis aborted ti = wind_down env aborted ti (wf_loop env tis (begin_run (we_doc env) i how))"

lemma begin_run_numbered: "numbered (begin_run d i how) \<and> wr_step (begin_run d i how) = 0"
proof -
  have fresh: "numbered (initial_run d i)" "wr_step (initial_run d i) = 0"
    by (simp_all add: numbered_def seqs_def initial_run_def)
  have seed: "numbered (seed_node_test p v t (initial_run d i))" "wr_step (seed_node_test p v t (initial_run d i)) = 0" for p v t
    using fresh by (simp_all add: seed_node_test_def numbered_def seqs_labels turn_simps)
  show ?thesis
  proof (cases how)
    case (Resumed m prior)
    with carry_over_numbered [OF fresh, of m "sort_key sw_seq prior"] show ?thesis
      by (simp add: begin_run_def resume_run_def numbered_def seqs_def)
  qed (use fresh seed in \<open>simp_all add: begin_run_def\<close>)
qed

definition gapless :: "wf_run \<Rightarrow> bool" where
  "gapless st \<longleftrightarrow> seqs st = [0..<length (wr_rows st)] \<and> wr_step st + wr_offset st \<le> length (wr_rows st)"

lemma gapless_skip_seq: "gapless st \<Longrightarrow> skip_seq st = length (wr_rows st)"
proof -
  assume g: "gapless st"
  have "map (\<lambda>r. Suc (sw_seq r)) (wr_rows st) = map Suc (seqs st)" by (simp add: seqs_def)
  with g show ?thesis by (simp add: gapless_def skip_seq_def fold_max_upt max_def)
qed

lemma gapless_upto: "seqs st = [0..<n] \<Longrightarrow> wr_step st + wr_offset st \<le> n \<Longrightarrow> gapless st"
  by (metis diff_zero gapless_def length_map length_upt seqs_def)

lemma rows_ok_gapless: "numbered st \<or> interrupted st \<Longrightarrow> gapless st"
  unfolding numbered_def interrupted_def by (metis gapless_upto le_refl le_SucI)

lemma numbers_of_skipped:
  "map sw_seq (map (\<lambda>(seq, n). blank_row seq (n_id n) (node_kind (n_body n)) StepSkipped) (enumerate m ns)) = [m..<m + length ns]"
proof (induction ns arbitrary: m)
  case (Cons n ns)
  show ?case using Cons [of "Suc m"] upt_conv_Cons [of m "m + length (n # ns)"] by (simp add: blank_row_def)
qed simp

lemma write_skipped_gapless:
  assumes "gapless st"
  shows "gapless (write_skipped d st)"
proof (rule gapless_upto)
  show "seqs (write_skipped d st) = [0..<length (wr_rows st) + length (never_reached d st)]"
    using assms gapless_skip_seq [OF assms] upt_add_eq_append [of 0 "length (wr_rows st)" "length (never_reached d st)"]
    by (simp add: gapless_def write_skipped_def seqs_def numbers_of_skipped del: map_map)
qed (use assms in \<open>simp add: gapless_def write_skipped_def\<close>)

lemma insert_row_gapless: "gapless st \<Longrightarrow> sw_seq r = length (wr_rows st) \<Longrightarrow> gapless (insert_row r st)"
  by (simp add: gapless_def insert_row_def seqs_def)

lemma after_resolution_gapless [simp]: "gapless (after_resolution x st) = gapless st"
  by (simp add: gapless_def seqs_labels turn_simps)

lemma cleanup_gapless: "gapless st \<Longrightarrow> gapless (cleanup env ti st)"
  by (auto simp: cleanup_def Let_def gapless_skip_seq blank_row_def turn_simps intro!: insert_row_gapless split: option.split sum.split prod.split)


section \<open>The loop ends\<close>

text \<open>Where the cursor goes without a step being counted: through a start node, and past a node that is switched off.\<close>

definition idle_next :: "wf_doc \<Rightarrow> node \<Rightarrow> ident option option" where
  "idle_next d n = (case n_body n of
     Start nxt \<Rightarrow> Some nxt
   | Finish _ _ \<Rightarrow> None
   | _ \<Rightarrow> if n_enabled n then None else Some (advance_cursor d n Next))"

text \<open>From this node the cursor comes to a step, or to an end, within that many turns.\<close>

fun settles :: "wf_doc \<Rightarrow> nat \<Rightarrow> ident \<Rightarrow> bool" where
  "settles d 0 k = False"
| "settles d (Suc b) k = (case node_of d k of
     None \<Rightarrow> True
   | Some n \<Rightarrow> (case idle_next d n of Some (Some k') \<Rightarrow> settles d b k' | _ \<Rightarrow> True))"

definition over :: "wf_run \<times> wf_exception option \<Rightarrow> bool" where
  "over r \<longleftrightarrow> snd r \<noteq> None \<or> wr_cursor (fst r) = None"

lemma over_simps [simp]: "over (st, Some e)" "over (st, None) \<longleftrightarrow> wr_cursor st = None"
  by (simp_all add: over_def)

lemma cursor_pieces [simp]:
  "wr_cursor (move_to c st) = c" "wr_cursor (fail_run code why st) = None" "wr_step (move_to c st) = wr_step st"
  by (simp_all add: move_to_def fail_run_def)

lemma skip_turn_moves [simp]:
  "wr_cursor (skip_turn env ti n st) = advance_cursor (we_doc env) n Next" "wr_step (skip_turn env ti n st) = wr_step st"
  by (simp_all add: skip_turn_def Let_def turn_simps)

lemma step_turn_counts:
  assumes "step_turn env ti n st = (st', None)" "is_start (n_body n) = False" "is_finish (n_body n) = False"
  shows "wr_step st' = Suc (wr_step st)"
  using step_turn_ok [OF assms(2,3), of env ti st] assms(1) by (simp add: turn_ok_def stepped_def open_step_fields)

text \<open>A turn ends the loop, or moves an idle cursor along, or counts a step.\<close>

lemma wf_turn_progress:
  "over (wf_turn env ti cur st)
   \<or> (\<exists>n k. node_of (we_doc env) cur = Some n \<and> idle_next (we_doc env) n = Some (Some k) \<and> snd (wf_turn env ti cur st) = None
        \<and> wr_cursor (fst (wf_turn env ti cur st)) = Some k \<and> wr_step (fst (wf_turn env ti cur st)) = wr_step st)
   \<or> (snd (wf_turn env ti cur st) = None \<and> wr_step st < wd_max_steps (we_doc env)
        \<and> wr_step (fst (wf_turn env ti cur st)) = Suc (wr_step st))"
proof (cases "node_of (we_doc env) cur")
  case None
  then show ?thesis by (simp add: wf_turn_def Let_def split: option.split)
next
  case (Some n)
  show ?thesis
  proof (cases "ti_aborted ti \<noteq> None \<or> ti_max_total ti < ti_elapsed ti \<or> wd_max_steps (we_doc env) \<le> wr_step st")
    case True
    then show ?thesis by (auto simp: wf_turn_def Let_def split: option.split)
  next
    case go: False
    show ?thesis
    proof (cases "is_start (n_body n) \<or> is_finish (n_body n)")
      case True
      with go Some show ?thesis
        by (cases "n_body n") (auto simp: wf_turn_def Let_def idle_next_def)
    next
      case step: False
      have turn: "wf_turn env ti cur st = (if \<not> n_enabled n then (skip_turn env ti n st, None) else step_turn env ti n st)"
        using go Some step by (cases "n_body n") (simp_all add: wf_turn_def Let_def)
      have idle: "idle_next (we_doc env) n = (if n_enabled n then None else Some (advance_cursor (we_doc env) n Next))"
        using step by (cases "n_body n") (simp_all add: idle_next_def)
      show ?thesis
      proof (cases "n_enabled n")
        case True
        obtain s1 e1 where s1: "step_turn env ti n st = (s1, e1)" by fastforce
        with True turn step_turn_counts [of env ti n st s1] step go show ?thesis by (cases e1) auto
      next
        case False
        with turn idle Some show ?thesis by (cases "advance_cursor (we_doc env) n Next") auto
      qed
    qed
  qed
qed

lemma wf_loop_settles:
  assumes "\<And>k. settles (we_doc env) b k"
  shows "settles (we_doc env) f cur \<Longrightarrow> wr_cursor st = Some cur \<Longrightarrow>
    (wd_max_steps (we_doc env) - wr_step st) * Suc b + f \<le> length tis \<Longrightarrow> over (wf_loop env tis st)"
proof (induction tis arbitrary: st f cur)
  case Nil
  then show ?case by (cases f) auto
next
  case (Cons ti tis)
  obtain s1 e1 where turn: "wf_turn env ti cur st = (s1, e1)" by fastforce
  have loop: "wf_loop env (ti # tis) st = (if e1 \<noteq> None then (s1, e1) else wf_loop env tis s1)"
    using Cons.prems(2) turn by (cases e1) auto
  have stop: "wr_cursor s1 = None \<Longrightarrow> wf_loop env tis s1 = (s1, None)" by (cases tis) auto
  from wf_turn_progress [of env ti cur st] turn
  consider "over (s1, e1)"
    | n k where "node_of (we_doc env) cur = Some n" "idle_next (we_doc env) n = Some (Some k)" "e1 = None"
        "wr_cursor s1 = Some k" "wr_step s1 = wr_step st"
    | k where "e1 = None" "wr_step st < wd_max_steps (we_doc env)" "wr_step s1 = Suc (wr_step st)" "wr_cursor s1 = Some k"
    by (cases "wr_cursor s1") (auto simp: over_def)
  then show ?case
  proof cases
    case 1
    with loop stop show ?thesis by (auto simp: over_def)
  next
    case (2 n k)
    with Cons.prems(1) obtain f' where f': "f = Suc f'" "settles (we_doc env) f' k" by (cases f) auto
    then have "over (wf_loop env tis s1)" using Cons.prems(3) 2 by (intro Cons.IH [of f' k]) auto
    with loop 2(3) show ?thesis by simp
  next
    case (3 k)
    define m where "m = wd_max_steps (we_doc env) - wr_step s1"
    have "wd_max_steps (we_doc env) - wr_step st = Suc m" using 3 by (simp add: m_def)
    with Cons.prems(3) have "m * Suc b + b \<le> length tis" by simp
    then have "over (wf_loop env tis s1)" using assms 3(4) by (intro Cons.IH [of b k]) (simp_all add: m_def)
    with loop 3(1) show ?thesis by simp
  qed
qed

lemma settles_unknown: "node_of d k = None \<Longrightarrow> 0 < b \<Longrightarrow> settles d b k"
  by (cases b) auto

lemma settles_everywhere:
  assumes "list_all (settles d b) (map n_id (wd_nodes d))" "0 < b"
  shows "settles d b k"
proof (cases "node_of d k")
  case (Some n)
  from node_of_in [OF this] assms(1) show ?thesis by (auto simp: list_all_iff)
qed (use settles_unknown assms(2) in blast)

lemma begin_run_cursor: "\<exists>k. wr_cursor (begin_run d i how) = Some k"
  by (cases how) (simp_all add: begin_run_def initial_run_def seed_node_test_def push_summary_def set_output_def resume_run_def)

text \<open>
  C11: the walk of a run ends. When from every node the cursor comes to a step or an end within \<open>b\<close> turns (no cycle of start nodes and nodes
  that are switched off), the loop is over after at most (maxSteps + 1) * (b + 1) turns, whatever the gates decide, the scripts
  return and the clock says: the cursor is empty or a turn has thrown.
\<close>

theorem workflow_loop_ends:
  assumes "list_all (settles (we_doc env) b) (map n_id (wd_nodes (we_doc env)))" "0 < b"
    and "(wd_max_steps (we_doc env) + 1) * (b + 1) \<le> length tis"
  shows "over (wf_loop env tis (begin_run (we_doc env) i how))"
proof -
  obtain cur where cur: "wr_cursor (begin_run (we_doc env) i how) = Some cur" using begin_run_cursor by blast
  have room: "wd_max_steps (we_doc env) * Suc b + b \<le> length tis" using assms(3) by simp
  show ?thesis
    by (rule wf_loop_settles [OF settles_everywhere [OF assms(1,2)] settles_everywhere [OF assms(1,2)] cur])
      (use room begin_run_numbered [of "we_doc env" i how] in simp)
qed

section \<open>Invariants of the walk\<close>

text \<open>A property that every turn keeps, whatever its input and also when it throws, holds when the walk is over.\<close>

locale turn_invariant =
  fixes env :: wf_env and holds :: "wf_run \<Rightarrow> bool"
  assumes turn: "holds st \<Longrightarrow> holds (fst (wf_turn env ti cur st))"
begin

lemma loop: "holds st \<Longrightarrow> holds (fst (wf_loop env tis st))"
proof (induction tis arbitrary: st)
  case (Cons ti tis)
  show ?case
  proof (cases "wr_cursor st")
    case (Some cur)
    obtain s1 e1 where s1: "wf_turn env ti cur st = (s1, e1)" by fastforce
    with turn [OF Cons.prems, of ti cur] Cons.IH [of s1] Some show ?thesis by (cases e1) auto
  qed (use Cons.prems in simp)
qed simp

end

section \<open>Every step is written down\<close>

definition logged :: "wf_run \<Rightarrow> bool" where
  "logged st \<longleftrightarrow> touched st \<subseteq> snd ` set (labels st)"

lemma step_turn_labels:
  assumes "is_start (n_body n) = False" "is_finish (n_body n) = False"
  shows "labels (fst (step_turn env ti n st)) = labels st @ [(wr_step st + wr_offset st, n_id n)]"
    "touched (fst (step_turn env ti n st)) = insert (n_id n) (touched st)"
  using step_turn_ok [OF assms, of env ti st]
  by (cases "step_turn env ti n st" rule: prod.exhaust; cases "snd (step_turn env ti n st)";
      simp add: turn_ok_def stepped_def held_up_def open_step_fields)+

lemma wf_turn_logged:
  assumes "logged st"
  shows "logged (fst (wf_turn env ti cur st))"
proof (cases "node_of (we_doc env) cur")
  case None
  then show ?thesis using assms by (auto simp: wf_turn_def Let_def logged_def turn_simps split: option.split)
next
  case (Some n)
  have skip: "logged (skip_turn env ti n st)"
    using assms by (auto simp: logged_def skip_turn_def Let_def turn_simps)
  have step: "is_start (n_body n) = False \<Longrightarrow> is_finish (n_body n) = False \<Longrightarrow> logged (fst (step_turn env ti n st))"
    using assms by (auto simp: logged_def step_turn_labels)
  show ?thesis
    using Some assms skip step
    by (cases "n_body n") (auto simp: wf_turn_def Let_def logged_def turn_simps split: option.split)
qed

interpretation logged_walk: turn_invariant env logged for env
  by unfold_locales (rule wf_turn_logged)

lemma carry_step_logged:
  "logged st \<Longrightarrow> sw_step r = k \<Longrightarrow>
     logged ((insert_row r (set_output k v st))\<lparr>wr_offset := m, wr_carried := List.insert k (wr_carried st), wr_shuffled := d\<rparr>)"
  by (auto simp: logged_def touched_def labels_def insert_row_def set_output_def)

lemma carry_over_logged: "logged st \<Longrightarrow> logged (carry_over from rows st)"
  by (induction "from" rows st rule: carry_over.induct) (simp_all add: carry_step_logged)

lemma begin_run_logged: "logged (begin_run d i how)"
proof -
  have fresh: "logged (initial_run d i)" by (simp add: logged_def touched_def labels_def initial_run_def)
  then have "logged (seed_node_test p v t (initial_run d i))" for p v t by (simp add: seed_node_test_def logged_def turn_simps)
  with fresh carry_over_logged [OF fresh] show ?thesis
    by (cases how) (simp_all add: begin_run_def resume_run_def logged_def touched_def labels_def)
qed

lemma cleanup_keeps_rows: "set (wr_rows st) \<subseteq> set (wr_rows (cleanup env ti st))"
  by (auto simp: cleanup_def Let_def insert_row_def turn_simps split: option.split sum.split prod.split)

definition logged_node :: "node \<Rightarrow> bool" where
  "logged_node n \<longleftrightarrow> \<not> is_start (n_body n) \<and> \<not> is_finish (n_body n)"

lemma write_skipped_steps:
  assumes "logged st" "n \<in> set (wd_nodes d)" "logged_node n"
  shows "n_id n \<in> sw_step ` set (wr_rows (write_skipped d st))"
proof (cases "n_id n \<in> touched st")
  case True
  with assms(1) have "n_id n \<in> sw_step ` set (wr_rows st)" by (auto simp: logged_def labels_def image_image)
  then show ?thesis by (auto simp: write_skipped_def)
next
  case False
  with assms(2,3) have "n \<in> set (never_reached d st)" by (auto simp: never_reached_def touched_def logged_node_def)
  then obtain j where "j < length (never_reached d st)" "never_reached d st ! j = n" by (meson in_set_conv_nth)
  then have "(skip_seq st + j, n) \<in> set (enumerate (skip_seq st) (never_reached d st))" by (auto simp: in_set_enumerate_eq)
  then have "blank_row (skip_seq st + j) (n_id n) (node_kind (n_body n)) StepSkipped \<in> set (wr_rows (write_skipped d st))"
    unfolding write_skipped_def by force
  then show ?thesis by (force simp: blank_row_def)
qed

text \<open>
  C15: nothing is left out of the record: when a run is over, every node of the document that is a step has a row, whether it ran, was skipped, was
  carried over from an earlier run or was never reached, and however the run ended.
\<close>

theorem every_step_is_written:
  "n_id ` {n \<in> set (wd_nodes (we_doc env)). logged_node n} \<subseteq> sw_step ` set (wr_rows (finished_run env i how tis aborted ti))"
proof
  fix k assume "k \<in> n_id ` {n \<in> set (wd_nodes (we_doc env)). logged_node n}"
  then obtain n where n: "n \<in> set (wd_nodes (we_doc env))" "logged_node n" "k = n_id n" by auto
  obtain st e where loop: "wf_loop env tis (begin_run (we_doc env) i how) = (st, e)" by fastforce
  define st' where "st' = (case e of None \<Rightarrow> st | Some x \<Rightarrow> catch_exception aborted x st)"
  have "logged st" using logged_walk.loop [OF begin_run_logged, of env tis "we_doc env" i how] loop by simp
  then have "logged st'" by (simp add: st'_def logged_def touched_def labels_def catch_exception_def Let_def split: option.split)
  from write_skipped_steps [OF this n(1,2)] cleanup_keeps_rows
  have "k \<in> sw_step ` set (wr_rows (cleanup env ti (write_skipped (we_doc env) st')))" using n(3) by blast
  then show "k \<in> sw_step ` set (wr_rows (finished_run env i how tis aborted ti))"
    by (simp add: finished_run_def wind_down_def loop st'_def)
qed

section \<open>Where the record is wrong\<close>

text \<open>
  C38: a step that is interrupted (the run is cancelled during its wait, or the wait for its script throws) leaves its row as it was opened: when the
  run is over the row still says that the step is running, without an end.
\<close>

theorem interrupted_step_stays_running:
  assumes "wf_turn env ti cur st = (st', Some e)" "ti_aborted ti = None"
  shows "\<exists>r \<in> set (wr_rows (wind_down env aborted ti' (st', Some e))). sw_step r = cur \<and> sw_status r = StepRunning \<and> sw_finished r = None"
proof (cases "node_of (we_doc env) cur")
  case None
  with assms show ?thesis by (auto simp: wf_turn_def Let_def split: if_splits)
next
  case (Some n)
  with assms have step: "step_turn env ti n st = (st', Some e)" "is_start (n_body n) = False" "is_finish (n_body n) = False"
    by (auto simp: wf_turn_def Let_def split: if_splits node_body.splits)
  have "wr_rows st' = wr_rows (open_step env ti n st)"
    using step_turn_ok [OF step(2,3), of env ti st] step(1) by (simp add: turn_ok_def held_up_def)
  then have "last (wr_rows st') \<in> set (wr_rows st')" "sw_step (last (wr_rows st')) = cur \<and> sw_status (last (wr_rows st')) = StepRunning
      \<and> sw_finished (last (wr_rows st')) = None"
    using node_of_in [OF Some] by (simp_all add: open_step_def insert_row_def blank_row_def)
  moreover have "set (wr_rows st') \<subseteq> set (wr_rows (wind_down env aborted ti' (st', Some e)))"
    using cleanup_keeps_rows [of "write_skipped (we_doc env) (catch_exception aborted e st')" env ti']
    by (auto simp: wind_down_def write_skipped_def catch_exception_def Let_def)
  ultimately show ?thesis by blast
qed

text \<open>
  a start node that names itself as its next node is accepted by the schema, and a run of it never counts a step: as long as it is not cancelled
  and not out of time the loop goes round without writing anything, whatever \<open>maxSteps\<close> is.
\<close>

theorem self_start_spins:
  assumes "node_of (we_doc env) (wd_entry (we_doc env)) = Some n" "n_body n = Start (Some (wd_entry (we_doc env)))"
    and "0 < wd_max_steps (we_doc env)" "list_all (\<lambda>ti. ti_aborted ti = None \<and> ti_elapsed ti \<le> ti_max_total ti) tis"
  shows "wf_loop env tis (initial_run (we_doc env) i) = (initial_run (we_doc env) i, None)"
  using assms(4)
proof (induction tis)
  case (Cons ti tis)
  have "wf_turn env ti (wd_entry (we_doc env)) (initial_run (we_doc env) i) = (initial_run (we_doc env) i, None)"
    using Cons.prems assms(1-3) by (simp add: wf_turn_def Let_def initial_run_def move_to_def)
  with Cons show ?case by (simp add: initial_run_def [of "we_doc env"])
qed simp

definition enabled_ids :: "wf_doc \<Rightarrow> ident set" where
  "enabled_ids d = {k. \<exists>n. node_of d k = Some n \<and> n_enabled n}"

lemma wf_turn_touched:
  assumes "touched st \<subseteq> enabled_ids (we_doc env)"
  shows "touched (fst (wf_turn env ti cur st)) \<subseteq> enabled_ids (we_doc env)"
proof (cases "node_of (we_doc env) cur")
  case None
  then show ?thesis using assms by (auto simp: wf_turn_def Let_def turn_simps split: option.split)
next
  case (Some n)
  have "n_enabled n \<Longrightarrow> n_id n \<in> enabled_ids (we_doc env)"
    using Some node_of_in [OF Some] by (auto simp: enabled_ids_def)
  moreover have "touched (skip_turn env ti n st) = touched st" by (simp add: skip_turn_def Let_def turn_simps)
  ultimately show ?thesis
    using Some assms
    by (cases "n_body n") (auto simp: wf_turn_def Let_def turn_simps step_turn_labels split: option.split)
qed

interpretation enabled_walk: turn_invariant env "\<lambda>st. touched st \<subseteq> enabled_ids (we_doc env)" for env
  by unfold_locales (rule wf_turn_touched)

definition rows_of :: "ident \<Rightarrow> wf_run \<Rightarrow> step_row list" where
  "rows_of k st = filter (\<lambda>r. sw_step r = k) (wr_rows st)"

lemma cleanup_appends: "\<exists>more. wr_rows (cleanup env ti st) = wr_rows st @ more"
  by (auto simp: cleanup_def Let_def insert_row_def turn_simps split: option.split sum.split prod.split)

text \<open>
  a step that is switched off and that the walk passed has two rows when the run is over: the one its turn wrote, and another from
  the pass over the steps that were never reached, which does not know that the walk came by.
\<close>

theorem switched_off_steps_are_written_twice:
  assumes "node_of (we_doc env) k = Some n" "\<not> n_enabled n" "logged_node n"
    and "rows_of k (fst (wf_loop env tis (begin_run (we_doc env) i FromEntry))) \<noteq> []"
  shows "2 \<le> length (rows_of k (finished_run env i FromEntry tis aborted ti))"
proof -
  obtain st e where loop: "wf_loop env tis (begin_run (we_doc env) i FromEntry) = (st, e)" by fastforce
  define st' where "st' = (case e of None \<Rightarrow> st | Some x \<Rightarrow> catch_exception aborted x st)"
  have same: "wr_rows st' = wr_rows st" "touched st' = touched st"
    by (simp_all add: st'_def catch_exception_def Let_def touched_def split: option.split)
  have "touched (begin_run (we_doc env) i FromEntry) = {}" by (simp add: begin_run_def initial_run_def touched_def)
  with enabled_walk.loop [of "begin_run (we_doc env) i FromEntry" env tis] loop have "touched st \<subseteq> enabled_ids (we_doc env)" by simp
  with assms(1,2) same have "k \<notin> touched st'" by (auto simp: enabled_ids_def)
  moreover have n: "n \<in> set (wd_nodes (we_doc env))" "n_id n = k" using node_of_in [OF assms(1)] by simp_all
  ultimately have "n \<in> set (never_reached (we_doc env) st')"
    using assms(3) by (auto simp: never_reached_def touched_def logged_node_def)
  then obtain j where j: "j < length (never_reached (we_doc env) st')" "never_reached (we_doc env) st' ! j = n" by (meson in_set_conv_nth)
  define new where "new = map (\<lambda>(seq, n). blank_row seq (n_id n) (node_kind (n_body n)) StepSkipped)
    (enumerate (skip_seq st') (never_reached (we_doc env) st'))"
  have "(skip_seq st' + j, n) \<in> set (enumerate (skip_seq st') (never_reached (we_doc env) st'))"
    using j by (auto simp: in_set_enumerate_eq)
  then have "blank_row (skip_seq st' + j) k (node_kind (n_body n)) StepSkipped \<in> set new"
    unfolding new_def using n(2) by force
  then have "\<exists>r \<in> set new. sw_step r = k" by (rule bexI [rotated]) (simp add: blank_row_def)
  then have "filter (\<lambda>r. sw_step r = k) new \<noteq> []" by (simp add: filter_empty_conv)
  moreover obtain more where "wr_rows (cleanup env ti (write_skipped (we_doc env) st')) = (wr_rows st @ new) @ more"
    using cleanup_appends [of env ti "write_skipped (we_doc env) st'"] by (auto simp: write_skipped_def new_def same)
  ultimately show ?thesis
    using assms(4) by (cases "rows_of k st"; cases "filter (\<lambda>r. sw_step r = k) new")
      (simp_all add: rows_of_def finished_run_def wind_down_def loop st'_def [symmetric])
qed

section \<open>Concrete runs\<close>

definition demo_env :: "wf_doc \<Rightarrow> wf_env" where
  "demo_env d = \<lparr>we_lib = plain_library, we_json = (\<lambda>_. Some 2), we_doc = d, we_params = [], we_index = JFin 0, we_count = JFin 1,
     we_repeat = JFin 0, we_device = \<lparr>df_number = None, df_stable_id = None, df_label = None, df_group = None, df_labels = []\<rparr>,
     we_seed = JFin 0, we_pins = []\<rparr>"

definition demo_turn :: "wait_answer \<Rightarrow> turn_input" where
  "demo_turn w = \<lparr>ti_aborted = None, ti_max_total = 1000, ti_elapsed = 0, ti_start = 0, ti_finish = 0, ti_wait = w,
     ti_registry = (\<lambda>_. Inl (''no_such_script'', ''none'')), ti_check = (\<lambda>_ ps. Inr ps), ti_child = (\<lambda>_ _. Inl (OtherThrow ''none''))\<rparr>"

definition demo_node :: "ident \<Rightarrow> bool \<Rightarrow> node_body \<Rightarrow> node" where
  "demo_node k on b = \<lparr>n_id = k, n_enabled = on, n_body = b\<rparr>"

definition demo_doc :: "node list \<Rightarrow> wf_doc" where
  "demo_doc ns = \<lparr>wd_name = ''demo'', wd_params = [], wd_entry = ''s'', wd_nodes = ns, wd_max_steps = 2, wd_on_fail = None\<rparr>"

definition demo_delay :: wf_doc where
  "demo_delay = demo_doc [demo_node ''s'' True (Start (Some ''d'')), demo_node ''x'' False (Delay (EConst (VNum (JFin 5))) 10 (Some ''d'')),
     demo_node ''d'' True (Delay (EConst (VNum (JFin 5))) 10 (Some ''x''))]"

definition demo_off :: wf_doc where
  "demo_off = demo_doc [demo_node ''s'' True (Start (Some ''x'')), demo_node ''x'' False (Delay (EConst (VNum (JFin 5))) 10 None)]"

definition demo_spin :: wf_doc where
  "demo_spin = demo_doc [demo_node ''s'' True (Start (Some ''s''))]"

lemmas demo_defs = demo_env_def demo_turn_def demo_node_def demo_doc_def

theorem workflow_loop_ends_witness:
  "over (wf_loop (demo_env demo_delay) (replicate 9 (demo_turn WaitDone)) (begin_run demo_delay 0 FromEntry))"
proof -
  have doc: "we_doc (demo_env demo_delay) = demo_delay" by (simp add: demo_env_def)
  have "list_all (settles demo_delay 2) (map n_id (wd_nodes demo_delay))"
    by (simp add: demo_delay_def demo_defs numeral_2_eq_2 node_of_def idle_next_def advance_cursor_def successor_of_def)
  with workflow_loop_ends [of "demo_env demo_delay" 2 "replicate 9 (demo_turn WaitDone)" 0 FromEntry] show ?thesis
    by (simp add: doc) (simp add: demo_delay_def demo_doc_def)
qed

theorem self_start_spins_witness:
  "doc_issues demo_spin = [] \<and>
   wf_loop (demo_env demo_spin) (replicate 100 (demo_turn WaitDone)) (initial_run demo_spin 0) = (initial_run demo_spin 0, None)"
proof -
  have doc: "we_doc (demo_env demo_spin) = demo_spin" by (simp add: demo_env_def)
  have "doc_issues demo_spin = []"
    by (simp add: demo_spin_def demo_defs doc_issues_def entry_issues_def start_issues_def memberships_def switch_issues_def)
  moreover have "wf_loop (demo_env demo_spin) (replicate 100 (demo_turn WaitDone)) (initial_run demo_spin 0) = (initial_run demo_spin 0, None)"
    using self_start_spins [of "demo_env demo_spin" "demo_node ''s'' True (Start (Some ''s''))" "replicate 100 (demo_turn WaitDone)" 0]
    by (simp add: doc list_all_iff) (simp add: demo_spin_def demo_defs node_of_def)
  ultimately show ?thesis by simp
qed

lemma demo_delay_first:
  "wf_turn (demo_env demo_delay) (demo_turn w) ''s'' (initial_run demo_delay 0) = (move_to (Some ''d'') (initial_run demo_delay 0), None)"
  by (simp add: wf_turn_def Let_def demo_delay_def demo_defs node_of_def initial_run_def)

lemma demo_delay_wait: "compute_delay lib rs (EConst (VNum (JFin 5))) 10 x = (JFin 5, x)"
  by (simp add: compute_delay_def resolve_value_def clamp_wait_def Let_def js_max_def js_min_def js_lt_def)

theorem interrupted_step_stays_running_witness:
  "\<exists>r \<in> set (wr_rows (wind_down (demo_env demo_delay) True (demo_turn WaitDone)
     (wf_turn (demo_env demo_delay) (demo_turn (WaitAborted ''cancelled'')) ''d'' (initial_run demo_delay 0)))).
     sw_step r = ''d'' \<and> sw_status r = StepRunning \<and> sw_finished r = None"
proof -
  have "snd (wf_turn (demo_env demo_delay) (demo_turn (WaitAborted ''cancelled'')) ''d'' (initial_run demo_delay 0)) = Some (SignalAborted ''cancelled'')"
    by (simp add: wf_turn_def Let_def demo_delay_def demo_defs node_of_def initial_run_def step_turn_def delay_turn_def demo_delay_wait
        waiting_def case_prod_beta')
  then obtain st' where turn: "wf_turn (demo_env demo_delay) (demo_turn (WaitAborted ''cancelled'')) ''d'' (initial_run demo_delay 0)
      = (st', Some (SignalAborted ''cancelled''))" by (metis prod.collapse)
  show ?thesis unfolding turn by (rule interrupted_step_stays_running [OF turn]) (simp add: demo_turn_def)
qed

theorem switched_off_steps_are_written_twice_witness:
  "2 \<le> length (rows_of ''x'' (finished_run (demo_env demo_off) 0 FromEntry [demo_turn WaitDone, demo_turn WaitDone] False (demo_turn WaitDone)))"
proof (rule switched_off_steps_are_written_twice)
  let ?n = "demo_node ''x'' False (Delay (EConst (VNum (JFin 5))) 10 None)"
  show "node_of (we_doc (demo_env demo_off)) ''x'' = Some ?n" by (simp add: demo_off_def demo_defs node_of_def)
  show "\<not> n_enabled ?n" "logged_node ?n" by (simp_all add: demo_node_def logged_node_def)
  show "rows_of ''x'' (fst (wf_loop (demo_env demo_off) [demo_turn WaitDone, demo_turn WaitDone] (begin_run (we_doc (demo_env demo_off)) 0 FromEntry))) \<noteq> []"
    by (simp add: demo_off_def demo_defs wf_turn_def Let_def node_of_def begin_run_def initial_run_def move_to_def skip_turn_def
        insert_row_def push_summary_def blank_row_def rows_of_def)
qed

end
