(* ===== verification/WfBudget.thy ===== *)
theory WfBudget
  imports WfCheck WfRuns
begin

text \<open>The time arithmetic of the publish check against the runs of the executor.\<close>

section \<open>Lookups of the tables the check builds\<close>

lemma foldl_jm_set: "jm_get (foldl (\<lambda>m n. jm_set (f n) (g n) m) m0 ns) k
    = (case map_of (rev (map (\<lambda>n. (f n, n)) ns)) k of Some n \<Rightarrow> Some (g n) | None \<Rightarrow> jm_get m0 k)"
  by (induction ns arbitrary: m0) (auto split: option.splits simp: map_add_def)

lemma costs_of_get: "jm_get (costs_of res d) k = map_option (\<lambda>n. node_cost res (n_body n)) (node_of d k)"
  by (simp add: costs_of_def node_of_def foldl_jm_set split: option.split)

definition cost_at :: "resolved_refs \<Rightarrow> wf_doc \<Rightarrow> ident \<Rightarrow> nat" where
  "cost_at res d k = (case node_of d k of None \<Rightarrow> 0 | Some n \<Rightarrow> coalesce (node_cost res (n_body n)) 0)"

lemma own_cost_at: "own_cost (costs_of res d) k = cost_at res d k"
  by (simp add: own_cost_def costs_of_get cost_at_def split: option.split)

lemma spans_fold: "jm_get (foldl (\<lambda>m n. case h n of None \<Rightarrow> m | Some s \<Rightarrow> jm_set (f n) s m) m0 ns) k
    = (case map_of (rev (map (\<lambda>n. (f n, n)) (filter (\<lambda>n. h n \<noteq> None) ns))) k of Some n \<Rightarrow> h n | None \<Rightarrow> jm_get m0 k)"
  by (induction ns arbitrary: m0) (auto split: option.splits simp: map_add_def)

lemma map_of_rev_distinct: "distinct (map f ns) \<Longrightarrow> map_of (rev (map (\<lambda>n. (f n, n)) ns)) = map_of (map (\<lambda>n. (f n, n)) ns)"
  by (subst map_of_inject_set) (simp_all add: comp_def rev_map [symmetric])

lemma spans_get:
  assumes "accepted d"
  shows "jm_get (shuffle_spans d) k = (case node_of d k of None \<Rightarrow> None | Some n \<Rightarrow> span_of d (n_body n))"
proof -
  have dist: "distinct (map n_id (wd_nodes d))" by (rule accepted_distinct [OF assms])
  have "jm_get (shuffle_spans d) k = (case map_of (rev (map (\<lambda>n. (n_id n, n)) (filter (\<lambda>n. span_of d (n_body n) \<noteq> None) (wd_nodes d)))) k of
      Some n \<Rightarrow> span_of d (n_body n) | None \<Rightarrow> None)"
    using spans_fold [of n_id "\<lambda>n. span_of d (n_body n)" "[]" "wd_nodes d" k] by (simp add: shuffle_spans_def cong: option.case_cong)
  also have "\<dots> = (case node_of d k of None \<Rightarrow> None | Some n \<Rightarrow> span_of d (n_body n))"
  proof (cases "node_of d k")
    case None
    then have "map_of (rev (map (\<lambda>n. (n_id n, n)) (filter (\<lambda>n. span_of d (n_body n) \<noteq> None) (wd_nodes d)))) k = None"
      by (force simp: node_of_def map_of_eq_None_iff)
    with None show ?thesis by simp
  next
    case (Some n)
    then have n: "n \<in> set (wd_nodes d)" "n_id n = k" using node_of_in by blast+
    show ?thesis
    proof (cases "span_of d (n_body n) = None")
      case True
      have "x = n" if "x \<in> set (wd_nodes d)" "n_id x = k" for x using dist that n by (metis distinct_map inj_onD)
      then have "map_of (rev (map (\<lambda>n. (n_id n, n)) (filter (\<lambda>n. span_of d (n_body n) \<noteq> None) (wd_nodes d)))) k = None"
        using True by (force simp: map_of_eq_None_iff)
      with Some True show ?thesis by simp
    next
      case False
      have "distinct (map n_id (filter (\<lambda>n. span_of d (n_body n) \<noteq> None) (wd_nodes d)))" using dist by (rule distinct_map_filter)
      then have "map_of (rev (map (\<lambda>n. (n_id n, n)) (filter (\<lambda>n. span_of d (n_body n) \<noteq> None) (wd_nodes d)))) k = Some n"
        using n False by (subst map_of_rev_distinct) (auto intro!: map_of_is_SomeI simp: comp_def)
      with Some show ?thesis by simp
    qed
  qed
  finally show ?thesis .
qed

section \<open>The edges of the graph\<close>

fun edge_targets :: "node_body \<Rightarrow> ident option list" where
  "edge_targets (Start nxt) = [nxt]"
| "edge_targets (Script _ _ _ nxt fl) = [nxt, fl]"
| "edge_targets (Gate _ th el) = [th, el]"
| "edge_targets (Switch _ cases dflt) = map cs_to cases @ [dflt]"
| "edge_targets (Delay _ _ nxt) = [nxt]"
| "edge_targets (Finish _ _) = []"
| "edge_targets (SetFields _ _ nxt) = [nxt]"
| "edge_targets (Shuffle ms _ _ _ nxt) = map Some ms @ [nxt]"

lemma edge_fields_targets: "map ef_target (edge_fields owned (i, n)) = edge_targets (n_body n)"
  by (cases "n_body n") (auto simp: edge_fields_def Let_def edge_at_def comp_def case_prod_beta' enumerate_eq_zip map_snd_zip_take
      intro!: nth_equalityI)

lemma add_edge_successors:
  "set (successors (add_edge g a b) k) = set (successors g k) \<union> (if k = a then set (opt_list b) else {})"
  by (auto simp: add_edge_def successors_def opt_list_def split: option.splits)

lemma resolve_edge_target: "fst (resolve_edge ids f) = (case ef_target f of None \<Rightarrow> None | Some t \<Rightarrow> if t \<in> ids then Some t else None)"
  by (simp add: resolve_edge_def split: option.split)

lemma add_fields_successors:
  "set (successors (fst (foldl (\<lambda>(g, fs) f. case resolve_edge ids f of (t, new) \<Rightarrow> (add_edge g a t, fs @ new)) acc es)) k)
   = set (successors (fst acc) k) \<union> (if k = a then {t \<in> ids. Some t \<in> ef_target ` set es} else {})"
proof (induction es arbitrary: acc)
  case (Cons f es)
  obtain g fs where acc: "acc = (g, fs)" by fastforce
  obtain t new where r: "resolve_edge ids f = (t, new)" by fastforce
  have "set (opt_list t) = {u \<in> ids. ef_target f = Some u}"
    using resolve_edge_target [of ids f] r by (auto simp: opt_list_def split: option.splits if_splits)
  with Cons acc r show ?case by (auto simp: add_edge_successors split: if_splits)
qed simp

lemma build_edges_successors:
  "t \<in> set (successors (doc_graph d) k) \<longleftrightarrow>
     t \<in> doc_ids d \<and> (\<exists>n \<in> set (wd_nodes d). n_id n = k \<and> Some t \<in> set (edge_targets (n_body n)))"
proof -
  define owned where "owned = set (map snd (memberships (wd_nodes d)))"
  have fold: "t \<in> set (successors (fst (foldl (add_fields ids owned) acc ins)) k) \<longleftrightarrow>
      t \<in> set (successors (fst acc) k) \<or> t \<in> ids \<and> (\<exists>n \<in> snd ` set ins. n_id n = k \<and> Some t \<in> set (edge_targets (n_body n)))"
    for ids acc ins
  proof (induction ins arbitrary: acc)
    case (Cons ni ins)
    obtain i n where ni: "ni = (i, n)" by fastforce
    have "set (successors (fst (add_fields ids owned acc ni)) k)
        = set (successors (fst acc) k) \<union> (if k = n_id n then {t \<in> ids. Some t \<in> set (edge_targets (n_body n))} else {})"
      using edge_fields_targets [of owned i n, symmetric]
      by (simp add: add_fields_def ni add_fields_successors [where a = "n_id n"] del: edge_targets.simps)
    with Cons.IH ni show ?case by auto
  qed simp
  have "snd ` set (enumerate 0 (wd_nodes d)) = set (wd_nodes d)"
    by (metis list.set_map map_snd_enumerate)
  with fold [of "doc_ids d" "([], [])" "enumerate 0 (wd_nodes d)"] show ?thesis
    by (simp add: doc_graph_def build_edges_def owned_def successors_def)
qed

section \<open>The walk of the longest path\<close>

text \<open>What the walk of the longest path takes the best of, and what it adds.\<close>

definition node_span :: "wf_doc \<Rightarrow> ident \<Rightarrow> shuffle_span option" where
  "node_span d k = (case node_of d k of None \<Rightarrow> None | Some n \<Rightarrow> span_of d (n_body n))"

definition alts :: "wf_doc \<Rightarrow> ident \<Rightarrow> ident list" where
  "alts d k = (case node_span d k of Some sp \<Rightarrow> sp_exits sp | None \<Rightarrow> successors (doc_graph d) k)"

definition base_cost :: "resolved_refs \<Rightarrow> wf_doc \<Rightarrow> ident \<Rightarrow> nat" where
  "base_cost res d k = cost_at res d k
     + (case node_span d k of Some sp \<Rightarrow> sum_list (map (cost_at res d) (sp_members sp)) + sp_between sp | None \<Rightarrow> 0)"

abbreviation doc_visit :: "resolved_refs \<Rightarrow> wf_doc \<Rightarrow> nat \<Rightarrow> ident \<Rightarrow> memo \<Rightarrow> (nat \<times> memo) option" where
  "doc_visit res d f \<equiv> longest_visit f (doc_graph d) (costs_of res d) (shuffle_spans d)"

lemma doc_visit_Suc:
  assumes "accepted d"
  shows "doc_visit res d (Suc f) k memo = (case jm_get memo k of
     Some c \<Rightarrow> Some (c, memo)
   | None \<Rightarrow> (case best_of (doc_visit res d f) (alts d k) 0 memo of
       None \<Rightarrow> None
     | Some (b, memo') \<Rightarrow> Some (base_cost res d k + b, jm_set k (base_cost res d k + b) memo')))"
  using own_cost_at [of res d] spans_get [OF assms, of k]
  by (cases "node_span d k")
     (simp_all add: node_span_def alts_def base_cost_def Let_def ext [of "own_cost (costs_of res d)" "cost_at res d"] split: option.split)

declare longest_visit.simps(2) [simp del]

definition alt_rel :: "wf_doc \<Rightarrow> (ident \<times> ident) set" where
  "alt_rel d = {(k, a). a \<in> set (alts d k)}"

lemma in_alt_rel [simp]: "(k, a) \<in> alt_rel d \<longleftrightarrow> a \<in> set (alts d k)"
  by (simp add: alt_rel_def)

lemma doc_ids_node: "k \<in> doc_ids d \<longleftrightarrow> node_of d k \<noteq> None"
  by (force simp: doc_ids_def node_of_def map_of_eq_None_iff)

lemma unknown_no_alts: "k \<notin> doc_ids d \<Longrightarrow> alts d k = []"
proof -
  assume k: "k \<notin> doc_ids d"
  then have "node_span d k = None" by (simp add: node_span_def doc_ids_node)
  moreover have "t \<notin> set (successors (doc_graph d) k)" for t
    using k by (auto simp: build_edges_successors doc_ids_def)
  then have "successors (doc_graph d) k = []" by (meson last_in_set)
  ultimately show ?thesis by (simp add: alts_def)
qed

text \<open>The alternatives of a node are ahead of it in the graph, or name no node.\<close>

lemma alts_ahead:
  assumes "a \<in> set (alts d k)" "a \<in> doc_ids d"
  shows "(k, a) \<in> (steps (doc_graph d))\<^sup>+"
proof (cases "node_span d k")
  case None
  with assms show ?thesis by (auto simp: alts_def)
next
  case (Some sp)
  then obtain n ms btw bmax cont nxt where n: "node_of d k = Some n" "n_body n = Shuffle ms btw bmax cont nxt"
    by (auto simp: node_span_def span_of_def split: option.splits node_body.splits)
  have here: "n \<in> set (wd_nodes d)" "n_id n = k" using node_of_in [OF n(1)] by simp_all
  have step: "b \<in> doc_ids d \<Longrightarrow> b \<in> set ms \<or> nxt = Some b \<Longrightarrow> (k, b) \<in> steps (doc_graph d)" for b
    using here n(2) by (auto simp: build_edges_successors intro!: bexI [of _ n])
  from assms(1) Some n consider "nxt = Some a"
    | m mn where "m \<in> set ms" "node_of d m = Some mn" "a \<in> set (failure_edge (n_body mn))"
    by (auto simp: alts_def node_span_def span_of_def opt_list_def split: option.splits) (metis+)
  then show ?thesis
  proof cases
    case 1
    with step assms(2) show ?thesis by blast
  next
    case (2 m mn)
    then have "Some a \<in> set (edge_targets (n_body mn))" by (cases "n_body mn") (auto simp: failure_edge_def split: option.splits)
    with 2(2) assms(2) node_of_in [OF 2(2)] have "(m, a) \<in> steps (doc_graph d)" by (auto simp: build_edges_successors)
    moreover have "(k, m) \<in> steps (doc_graph d)" using step 2 doc_ids_node by blast
    ultimately show ?thesis by (meson trancl.simps)
  qed
qed

lemma alt_trancl: "(k, a) \<in> (alt_rel d)\<^sup>+ \<Longrightarrow> a \<in> doc_ids d \<Longrightarrow> (k, a) \<in> (steps (doc_graph d))\<^sup>+"
proof (induction rule: trancl_induct)
  case (step b c)
  then have "b \<in> doc_ids d" using unknown_no_alts by fastforce
  with step alts_ahead [of c d b] show ?case by (auto intro: trancl_trans)
qed (auto intro: alts_ahead)

definition loop_free :: "wf_doc \<Rightarrow> bool" where
  "loop_free d \<longleftrightarrow> wd_entry d \<in> doc_ids d \<and> doc_cycle d = None"

lemma loop_free_steps:
  assumes "loop_free d" "(wd_entry d, k) \<in> (steps (doc_graph d))\<^sup>*"
  shows "(k, k) \<notin> (steps (doc_graph d))\<^sup>+"
  using assms by (intro find_cycle_none [of "doc_graph d" "wd_entry d" k]) (auto simp: loop_free_def doc_cycle_def split: if_splits)

text \<open>A memo is settled when it knows the alternatives of every node it knows, and each value covers its node and the best alternative.\<close>

definition memo_settled :: "resolved_refs \<Rightarrow> wf_doc \<Rightarrow> memo \<Rightarrow> bool" where
  "memo_settled res d M \<longleftrightarrow> (\<forall>k c. jm_get M k = Some c \<longrightarrow> base_cost res d k \<le> c \<and>
     (\<forall>a \<in> set (alts d k). \<exists>ca. jm_get M a = Some ca \<and> base_cost res d k + ca \<le> c))"

definition memo_grows :: "ident set \<Rightarrow> memo \<Rightarrow> memo \<Rightarrow> bool" where
  "memo_grows V M M' \<longleftrightarrow> (\<forall>x. x \<notin> V \<longrightarrow> jm_get M' x = jm_get M x) \<and> (\<forall>x c. jm_get M x = Some c \<longrightarrow> jm_get M' x = Some c)"

lemma memo_grows_refl [simp]: "memo_grows V M M"
  by (simp add: memo_grows_def)

lemma memo_grows_trans: "memo_grows V M M' \<Longrightarrow> memo_grows W M' M'' \<Longrightarrow> V \<union> W \<subseteq> U \<Longrightarrow> memo_grows U M M''"
  unfolding memo_grows_def by (metis Un_iff subsetD)

text \<open>The loop over alternatives, for a visit that settles what it visits.\<close>

lemma best_of_settles:
  assumes "\<And>a memo c memo'. a \<in> set ks \<Longrightarrow> memo_settled res d memo \<Longrightarrow> visit a memo = Some (c, memo') \<Longrightarrow>
      memo_settled res d memo' \<and> memo_grows (V a) memo memo' \<and> jm_get memo' a = Some c"
    and "memo_settled res d memo" "best_of visit ks b0 memo = Some (b, memo')"
  shows "memo_settled res d memo' \<and> memo_grows (\<Union>a \<in> set ks. V a) memo memo' \<and> b0 \<le> b \<and> (\<forall>a \<in> set ks. \<exists>c. jm_get memo' a = Some c \<and> c \<le> b)"
  using assms
proof (induction ks arbitrary: b0 memo)
  case (Cons k ks)
  from Cons.prems(3) obtain c m1 where v: "visit k memo = Some (c, m1)" and rest: "best_of visit ks (max c b0) m1 = Some (b, memo')"
    by (auto split: option.splits)
  have one: "memo_settled res d m1" "memo_grows (V k) memo m1" "jm_get m1 k = Some c"
    using Cons.prems(1) [OF _ Cons.prems(2) v] by auto
  have two: "memo_settled res d memo' \<and> memo_grows (\<Union>a \<in> set ks. V a) m1 memo' \<and> max c b0 \<le> b
      \<and> (\<forall>a \<in> set ks. \<exists>c. jm_get memo' a = Some c \<and> c \<le> b)"
    by (rule Cons.IH [OF _ one(1) rest]) (use Cons.prems(1) in auto)
  then have "jm_get memo' k = Some c" using one(3) by (simp add: memo_grows_def)
  moreover have "memo_grows (\<Union>a \<in> set (k # ks). V a) memo memo'"
    by (rule memo_grows_trans [OF one(2)]) (use two in auto)
  ultimately show ?case using two by auto
qed auto

definition beyond :: "wf_doc \<Rightarrow> ident \<Rightarrow> ident set" where
  "beyond d k = (alt_rel d)\<^sup>* `` {k}"

lemma beyond_alt: "a \<in> set (alts d k) \<Longrightarrow> beyond d a \<subseteq> beyond d k"
  by (auto simp: beyond_def intro: converse_rtrancl_into_rtrancl)

lemma memo_settled_set:
  assumes "memo_settled res d M" "jm_get M k = None" "base_cost res d k \<le> c"
    and "\<forall>a \<in> set (alts d k). \<exists>ca. jm_get M a = Some ca \<and> base_cost res d k + ca \<le> c"
  shows "memo_settled res d (jm_set k c M)"
proof -
  have keep: "jm_get (jm_set k c M) a = Some ca" if "jm_get M a = Some ca" for a ca
    using that assms(2) by (cases "a = k") (simp_all only: jm_get_set option.distinct if_True if_False refl simp_thms)
  have at: "(x = k \<and> v = c) \<or> jm_get M x = Some v" if "jm_get (jm_set k c M) x = Some v" for x v
    using that unfolding jm_get_set by (cases "x = k") simp_all
  show ?thesis
    unfolding memo_settled_def
  proof (intro allI impI)
    fix x v assume "jm_get (jm_set k c M) x = Some v"
    then consider "x = k" "v = c" | "jm_get M x = Some v" using at by blast
    then show "base_cost res d x \<le> v \<and> (\<forall>a \<in> set (alts d x). \<exists>ca. jm_get (jm_set k c M) a = Some ca \<and> base_cost res d x + ca \<le> v)"
    proof cases
      case 1
      with assms(3,4) keep show ?thesis by blast
    next
      case 2
      with assms(1) keep show ?thesis unfolding memo_settled_def by blast
    qed
  qed
qed

definition loops_ahead :: "wf_doc \<Rightarrow> ident \<Rightarrow> bool" where
  "loops_ahead d k \<longleftrightarrow> (\<exists>x \<in> beyond d k. (x, x) \<in> (steps (doc_graph d))\<^sup>+)"

lemma loops_ahead_alt: "a \<in> set (alts d k) \<Longrightarrow> \<not> loops_ahead d k \<Longrightarrow> \<not> loops_ahead d a"
  using beyond_alt by (fastforce simp: loops_ahead_def)

lemma no_loop_alt:
  assumes "\<not> loops_ahead d k" "x \<in> beyond d k"
  shows "(x, x) \<notin> (alt_rel d)\<^sup>+"
proof
  assume xx: "(x, x) \<in> (alt_rel d)\<^sup>+"
  then have "alts d x \<noteq> []" by (auto dest: tranclD)
  then have "x \<in> doc_ids d" using unknown_no_alts by blast
  with alt_trancl [OF xx] assms show False by (auto simp: loops_ahead_def)
qed

lemma visit_settles:
  assumes "accepted d" "\<not> loops_ahead d k" "memo_settled res d memo" "doc_visit res d f k memo = Some (c, memo')"
  shows "memo_settled res d memo' \<and> memo_grows (beyond d k) memo memo' \<and> jm_get memo' k = Some c"
  using assms(2-4)
proof (induction f arbitrary: k memo c memo')
  case (Suc f)
  show ?case
  proof (cases "jm_get memo k")
    case (Some v)
    with Suc.prems(2,3) show ?thesis by (simp add: doc_visit_Suc [OF assms(1)])
  next
    case None
    with Suc.prems(3) obtain b m1 where best: "best_of (doc_visit res d f) (alts d k) 0 memo = Some (b, m1)"
      and c: "c = base_cost res d k + b" "memo' = jm_set k c m1"
      by (auto simp: doc_visit_Suc [OF assms(1)] split: option.splits)
    have "memo_settled res d m1 \<and> memo_grows (\<Union>a \<in> set (alts d k). beyond d a) memo m1 \<and> 0 \<le> b
        \<and> (\<forall>a \<in> set (alts d k). \<exists>c. jm_get m1 a = Some c \<and> c \<le> b)"
      by (rule best_of_settles [OF _ Suc.prems(2) best], rule Suc.IH) (use Suc.prems(1) loops_ahead_alt in blast)+
    then have m1: "memo_settled res d m1" "memo_grows (\<Union>a \<in> set (alts d k). beyond d a) memo m1"
      "\<forall>a \<in> set (alts d k). \<exists>c. jm_get m1 a = Some c \<and> c \<le> b" by auto
    have "k \<in> beyond d k" by (simp add: beyond_def)
    then have away: "k \<notin> beyond d a" if "a \<in> set (alts d k)" for a
      using no_loop_alt [OF Suc.prems(1) \<open>k \<in> beyond d k\<close>] that rtrancl_into_trancl2 [of k a "alt_rel d" k] by (auto simp: beyond_def)
    then have fresh: "jm_get m1 k = None" using m1(2) None by (auto simp: memo_grows_def)
    have "memo_settled res d memo'"
      unfolding c(2) by (intro memo_settled_set [OF m1(1) fresh]) (use m1(3) c(1) in force)+
    moreover have "memo_grows (beyond d k) memo memo'"
      using m1(2) None fresh beyond_alt [of _ d k] \<open>k \<in> beyond d k\<close> unfolding memo_grows_def c(2) by (simp add: subset_iff) blast
    ultimately show ?thesis by (simp add: c(2))
  qed
qed simp

text \<open>The depth is enough: every alternative has fewer nodes ahead of it.\<close>

definition ahead :: "wf_doc \<Rightarrow> ident \<Rightarrow> ident set" where
  "ahead d k = {x \<in> doc_ids d. (k, x) \<in> (steps (doc_graph d))\<^sup>+}"

lemma finite_doc_ids [simp]: "finite (doc_ids d)"
  by (simp add: doc_ids_def)

lemma best_of_returns:
  "(\<And>a memo. a \<in> set ks \<Longrightarrow> visit a memo \<noteq> None) \<Longrightarrow> best_of visit ks b memo \<noteq> None"
  by (induction ks arbitrary: b memo) (auto split: option.split)

lemma visit_returns:
  assumes "accepted d"
  shows "\<not> loops_ahead d k \<Longrightarrow> card (ahead d k) + 2 \<le> f \<Longrightarrow> doc_visit res d f k memo \<noteq> None"
proof (induction f arbitrary: k memo)
  case (Suc f)
  have "doc_visit res d f a m \<noteq> None" if a: "a \<in> set (alts d k)" for a m
  proof (cases "a \<in> doc_ids d")
    case True
    have ka: "(k, a) \<in> (steps (doc_graph d))\<^sup>+" using alts_ahead a True by blast
    have "a \<in> beyond d k" using a by (auto simp: beyond_def)
    have "(a, a) \<notin> (steps (doc_graph d))\<^sup>+" using Suc.prems(1) \<open>a \<in> beyond d k\<close> by (auto simp: loops_ahead_def)
    then have "ahead d a \<subset> ahead d k" using ka True by (auto simp: ahead_def intro: trancl_trans)
    then have "card (ahead d a) < card (ahead d k)" by (rule psubset_card_mono [rotated]) (simp add: ahead_def)
    with Suc.prems show ?thesis by (intro Suc.IH) (use loops_ahead_alt [OF a] in auto)
  next
    case False
    then have "alts d a = []" by (rule unknown_no_alts)
    moreover obtain f' where "f = Suc f'" using Suc.prems(2) by (cases f) auto
    ultimately show ?thesis by (simp add: doc_visit_Suc [OF assms] split: option.split)
  qed
  then have "best_of (doc_visit res d f) (alts d k) 0 memo \<noteq> None" by (rule best_of_returns)
  then show ?case by (auto simp: doc_visit_Suc [OF assms] split: option.split)
qed simp

end
