(* ===== verification/WfTime.thy ===== *)
theory WfTime
  imports WfBudget
begin

text \<open>
  The worst case the publish check computes bounds what a run of the executor may spend by declared limits: the time limits of the
  scripts it starts, the ceilings of the delays it enters and of the waits between the members of a shuffle.
\<close>

section \<open>Where a turn leads\<close>

named_theorems cursor_simps \<open>the cursor and the record of dispatched members\<close>

lemma shuffled_pieces [cursor_simps]:
  "wr_shuffled (push_summary k s w a b v st) = wr_shuffled st" "wr_shuffled (move_to c st) = wr_shuffled st"
  "wr_shuffled (fail_run code why st) = wr_shuffled st" "wr_shuffled (count_step st) = wr_shuffled st"
  "wr_shuffled (set_output k v st) = wr_shuffled st" "wr_shuffled (after_resolution x st) = wr_shuffled st"
  "wr_shuffled (insert_row r st) = wr_shuffled st" "wr_shuffled (update_row f st) = wr_shuffled st"
  by (simp_all add: push_summary_def move_to_def fail_run_def count_step_def set_output_def after_resolution_def insert_row_def update_row_def)

lemma open_step_shuffled [cursor_simps]: "wr_shuffled (open_step env ti n st) = wr_shuffled st"
  by (simp add: open_step_def cursor_simps)

lemma skip_turn_shuffled [cursor_simps]: "wr_shuffled (skip_turn env ti n st) = wr_shuffled st"
  by (simp add: skip_turn_def Let_def cursor_simps)

lemma complete_step_moves [cursor_simps]:
  "wr_cursor (complete_step env ti n script e ro so f st) = advance_cursor (we_doc env) n e"
  "wr_shuffled (complete_step env ti n script e ro so f st) = wr_shuffled st"
  by (simp_all add: complete_step_def cursor_simps)

definition exits_of :: "wf_doc \<Rightarrow> node \<Rightarrow> ident option set" where
  "exits_of d n = {None, survives_failure d (n_id n)} \<union> range (advance_cursor d n) \<union> Some ` set (failure_edge (n_body n))"

lemma in_exits [simp]: "advance_cursor d n e \<in> exits_of d n" "None \<in> exits_of d n"
  by (auto simp: exits_of_def)

lemma after_failure_exits [simp]:
  "n_body n = Script script params retries nxt fl \<Longrightarrow> wr_cursor (after_failure env n fl code why st) \<in> exits_of (we_doc env) n"
  by (auto simp: after_failure_def exits_of_def failure_edge_def split: option.split)

lemma after_failure_shuffled [cursor_simps]: "wr_shuffled (after_failure env n fl code why st) = wr_shuffled st"
  by (simp add: after_failure_def cursor_simps split: option.split)

lemma step_turn_exits:
  assumes "step_turn env ti n st = (st', None)" "jm_get (we_pins env) (n_id n) = None"
    and "\<not> is_start (n_body n)" "\<not> is_finish (n_body n)" "\<not> is_shuffle (n_body n)"
  shows "wr_cursor st' \<in> exits_of (we_doc env) n \<and> wr_shuffled st' = wr_shuffled st"
proof (cases "n_body n")
  case (Script script params retries nxt fl)
  then show ?thesis
    using assms by (auto simp: step_turn_def Let_def script_turn_def cursor_simps split: prod.splits script_outcome.splits if_splits)
next
  case (Delay ms max_ms nxt)
  then show ?thesis
    using assms by (auto simp: step_turn_def Let_def delay_turn_def waiting_def cursor_simps split: prod.splits wait_answer.splits)
qed (use assms in \<open>auto simp: step_turn_def Let_def gate_turn_def switch_turn_def set_turn_def cursor_simps
       split: prod.splits sum.splits\<close>)

text \<open>One visit of a shuffle, as its turn makes it.\<close>

definition visit_of :: "wf_env \<Rightarrow> turn_input \<Rightarrow> wf_run \<Rightarrow> node \<Rightarrow> shuffle_step" where
  "visit_of env ti st n =
     compute_shuffle (members_of (n_body n)) (set (shuffled st (n_id n)))
       (derive_random (we_seed env) (js_of_int (int (wr_step st + wr_offset st)))) (enabled_in (we_doc env))"

lemma shuffle_turn_exits:
  assumes "step_turn env ti n st = (st', None)" "jm_get (we_pins env) (n_id n) = None" "is_shuffle (n_body n)"
  shows "wr_cursor st' = advance_cursor (we_doc env) n (sh_edge (visit_of env ti st n))
    \<and> wr_shuffled st' = mark_shuffled (n_id n) (Some (sh_edge (visit_of env ti st n))) (wr_shuffled st)"
proof (cases "n_body n")
  case (Shuffle ms btw bmax cont nxt)
  have same: "shuffled (open_step env ti n st) (n_id n) = shuffled st (n_id n)"
    by (simp add: shuffled_def cursor_simps)
  show ?thesis
    using assms Shuffle
    by (auto simp: step_turn_def Let_def shuffle_turn_def waiting_def scope_at_def visit_of_def same cursor_simps
        split: prod.splits wait_answer.splits if_splits)
qed (use assms in auto)

lemma visit_cases:
  assumes "length (members_of (n_body n)) \<le> max_switch_cases"
  shows "sh_edge (visit_of env ti st n) = Next
    \<or> (\<exists>m \<in> set (members_of (n_body n)). m \<notin> set (shuffled st (n_id n)) \<and> sh_edge (visit_of env ti st n) = Member m)"
proof -
  define r where "r = left_over (members_of (n_body n)) (enabled_in (we_doc env)) (set (shuffled st (n_id n)))"
  obtain w where w: "derive_random (we_seed env) (js_of_int (int (wr_step st + wr_offset st))) = unit_interval w"
    by (simp add: derive_random_def mulberry32_def)
  show ?thesis
  proof (cases "r = []")
    case True
    then show ?thesis using compute_shuffle_leaves by (simp add: r_def visit_of_def)
  next
    case False
    have "length r \<le> length (members_of (n_body n))" unfolding r_def left_over_def by (rule length_filter_le)
    then have len: "length r \<le> 2 ^ 21" using assms by (simp add: max_switch_cases_def)
    have "r ! (unat w * length r div 2 ^ 32) \<in> set r" using compute_shuffle_draws [OF r_def [symmetric] False len] by simp
    then show ?thesis using compute_shuffle_draws [OF r_def [symmetric] False len, of w] w
      by (auto simp: visit_of_def r_def left_over_def)
  qed
qed

section \<open>The worst case as a potential\<close>

text \<open>The edges of a node that are its own: a shuffle hands over to its members, which is no edge an author draws.\<close>

definition own_edges :: "node_body \<Rightarrow> ident option list" where
  "own_edges b = (case b of Shuffle _ _ _ _ nxt \<Rightarrow> [nxt] | _ \<Rightarrow> edge_targets b)"

text \<open>
  What the bound needs of a document: the schema accepts it, the check finds no loop and no fault in the members of its shuffles, and
  no edge leads straight into a member.
\<close>

definition node_in_order :: "wf_doc \<Rightarrow> node \<Rightarrow> bool" where
  "node_in_order d n \<longleftrightarrow> length (members_of (n_body n)) \<le> max_switch_cases
     \<and> list_all (\<lambda>m. case node_of d m of None \<Rightarrow> False | Some mn \<Rightarrow> member_refusal (n_body mn) = None) (members_of (n_body n))
     \<and> list_all (\<lambda>t. case t of None \<Rightarrow> True | Some k \<Rightarrow> owner_of d k = None) (own_edges (n_body n))"

definition publishable :: "wf_doc \<Rightarrow> bool" where
  "publishable d \<longleftrightarrow> accepted d \<and> loop_free d \<and> list_all (node_in_order d) (wd_nodes d)"

definition worst_memo :: "resolved_refs \<Rightarrow> wf_doc \<Rightarrow> memo" where
  "worst_memo res d = (case doc_visit res d (walk_depth d) (wd_entry d) [] of None \<Rightarrow> [] | Some (_, M) \<Rightarrow> M)"

definition worst :: "resolved_refs \<Rightarrow> wf_doc \<Rightarrow> ident \<Rightarrow> nat" where
  "worst res d k = coalesce (jm_get (worst_memo res d) k) 0"

definition weighed :: "resolved_refs \<Rightarrow> wf_doc \<Rightarrow> ident \<Rightarrow> bool" where
  "weighed res d k \<longleftrightarrow> jm_get (worst_memo res d) k \<noteq> None"

lemma beyond_reach: "x \<in> beyond d k \<Longrightarrow> x \<in> doc_ids d \<Longrightarrow> (k, x) \<in> (steps (doc_graph d))\<^sup>*"
  by (auto simp: beyond_def rtrancl_eq_or_trancl intro: alt_trancl)

lemma loop_free_no_loop:
  assumes "loop_free d"
  shows "\<not> loops_ahead d (wd_entry d)"
proof
  assume "loops_ahead d (wd_entry d)"
  then obtain x where x: "x \<in> beyond d (wd_entry d)" "(x, x) \<in> (steps (doc_graph d))\<^sup>+" by (auto simp: loops_ahead_def)
  then obtain y where "(y, x) \<in> steps (doc_graph d)" by (meson tranclD2)
  then have "x \<in> doc_ids d" by (simp add: build_edges_successors)
  with x beyond_reach loop_free_steps [OF assms] show False by blast
qed

lemma worst_memo_settled:
  assumes "publishable d"
  shows "memo_settled res d (worst_memo res d)"
    and "weighed res d (wd_entry d)"
    and "longest_path (walk_depth d) (doc_graph d) (costs_of res d) (shuffle_spans d) (wd_entry d) = Some (worst res d (wd_entry d))"
proof -
  have acc: "accepted d" "loop_free d" using assms by (simp_all add: publishable_def)
  have "card (ahead d (wd_entry d)) \<le> card (doc_ids d)" by (intro card_mono) (auto simp: ahead_def)
  also have "\<dots> \<le> length (wd_nodes d)" unfolding doc_ids_def by (metis card_image_le card_length finite_set le_trans)
  finally have "card (ahead d (wd_entry d)) + 2 \<le> walk_depth d" by (simp add: walk_depth_def)
  from visit_returns [OF acc(1) loop_free_no_loop [OF acc(2)] this]
  obtain c M where v: "doc_visit res d (walk_depth d) (wd_entry d) [] = Some (c, M)" by fastforce
  have "memo_settled res d []" by (simp add: memo_settled_def)
  from visit_settles [OF acc(1) loop_free_no_loop [OF acc(2)] this v]
  show "memo_settled res d (worst_memo res d)" "weighed res d (wd_entry d)"
    "longest_path (walk_depth d) (doc_graph d) (costs_of res d) (shuffle_spans d) (wd_entry d) = Some (worst res d (wd_entry d))"
    using v by (simp_all add: worst_memo_def weighed_def worst_def longest_path_def)
qed

lemma worst_covers:
  assumes "publishable d" "weighed res d k"
  shows "base_cost res d k \<le> worst res d k"
    and "a \<in> set (alts d k) \<Longrightarrow> weighed res d a \<and> base_cost res d k + worst res d a \<le> worst res d k"
  using worst_memo_settled(1) [OF assms(1), of res] assms(2)
  by (fastforce simp: memo_settled_def weighed_def worst_def)+

text \<open>What is still to come in a shuffle, and from a node.\<close>

definition between_max :: "node_body \<Rightarrow> nat" where
  "between_max b = (case b of Shuffle _ _ bmax _ _ \<Rightarrow> bmax | _ \<Rightarrow> 0)"

definition exit_worst :: "resolved_refs \<Rightarrow> wf_doc \<Rightarrow> ident \<Rightarrow> nat" where
  "exit_worst res d k = fold max (map (worst res d) (alts d k)) 0"

definition still_to_run :: "node \<Rightarrow> ident list \<Rightarrow> ident list" where
  "still_to_run n gone = filter (\<lambda>m. m \<notin> set gone) (members_of (n_body n))"

definition shuffle_left :: "resolved_refs \<Rightarrow> wf_doc \<Rightarrow> node \<Rightarrow> ident list \<Rightarrow> nat" where
  "shuffle_left res d n gone =
     sum_list (map (cost_at res d) (still_to_run n gone))
     + (if gone = [] then length (members_of (n_body n)) - 1 else length (still_to_run n gone)) * between_max (n_body n)
     + exit_worst res d (n_id n)"

definition time_at :: "resolved_refs \<Rightarrow> wf_doc \<Rightarrow> (ident \<Rightarrow> ident list) \<Rightarrow> ident \<Rightarrow> nat" where
  "time_at res d gone k = (case node_of d k of
     None \<Rightarrow> 0
   | Some n \<Rightarrow> (case owner_of d k of
       Some s \<Rightarrow> cost_at res d k + (case node_of d s of None \<Rightarrow> 0 | Some sn \<Rightarrow> shuffle_left res d sn (gone s))
     | None \<Rightarrow> if is_shuffle (n_body n) then shuffle_left res d n (gone k) else worst res d k))"

definition gone_ok :: "wf_doc \<Rightarrow> (ident \<Rightarrow> ident list) \<Rightarrow> bool" where
  "gone_ok d gone \<longleftrightarrow> (\<forall>k n. node_of d k = Some n \<longrightarrow> set (gone k) \<subseteq> set (members_of (n_body n)))"

definition track_ok :: "resolved_refs \<Rightarrow> wf_doc \<Rightarrow> ident \<Rightarrow> bool" where
  "track_ok res d k \<longleftrightarrow> node_of d k = None \<or> weighed res d (case owner_of d k of Some s \<Rightarrow> s | None \<Rightarrow> k)"

lemma fold_max_add: "(\<And>x. x \<in> set xs \<Longrightarrow> b + x \<le> w) \<Longrightarrow> b + z \<le> w \<Longrightarrow> b + fold max xs z \<le> (w :: nat)"
  by (induction xs arbitrary: z) (auto simp: max_def)

lemma fold_max_above: "x \<in> set xs \<Longrightarrow> x \<le> fold max xs z" "z \<le> fold max xs (z :: nat)"
  unfolding Max.set_eq_fold [symmetric] by simp_all

lemma exit_worst_above: "a \<in> set (alts d k) \<Longrightarrow> worst res d a \<le> exit_worst res d k"
  unfolding exit_worst_def by (rule fold_max_above) auto

lemma sum_list_filter_le: "sum_list (map f (filter P xs)) \<le> sum_list (map (f :: 'a \<Rightarrow> nat) xs)"
  by (induction xs) auto

lemma length_filter_drop: "x \<in> set xs \<Longrightarrow> \<not> P x \<Longrightarrow> length (filter P xs) \<le> length xs - 1"
  using length_filter_less [of x xs P] by simp

lemma span_base:
  assumes "node_of d (n_id n) = Some n" "is_shuffle (n_body n)"
  shows "base_cost res d (n_id n) = cost_at res d (n_id n) + (sum_list (map (cost_at res d) (members_of (n_body n)))
     + (length (members_of (n_body n)) - 1) * between_max (n_body n))"
  using assms by (cases "n_body n") (simp_all add: base_cost_def node_span_def span_of_def between_max_def)

lemma shuffle_left_le:
  assumes "publishable d" "node_of d (n_id n) = Some n" "is_shuffle (n_body n)" "weighed res d (n_id n)"
    and "set gone \<subseteq> set (members_of (n_body n))"
  shows "shuffle_left res d n gone \<le> worst res d (n_id n)"
proof -
  have "base_cost res d (n_id n) + exit_worst res d (n_id n) \<le> worst res d (n_id n)"
    unfolding exit_worst_def using worst_covers [OF assms(1,4)] by (intro fold_max_add) auto
  moreover have "sum_list (map (cost_at res d) (still_to_run n gone)) \<le> sum_list (map (cost_at res d) (members_of (n_body n)))"
    unfolding still_to_run_def by (rule sum_list_filter_le)
  moreover have "(if gone = [] then length (members_of (n_body n)) - 1 else length (still_to_run n gone))
      \<le> length (members_of (n_body n)) - 1"
    using assms(5) length_filter_drop [of "hd gone" "members_of (n_body n)" "\<lambda>m. m \<notin> set gone"]
    by (cases gone) (auto simp: still_to_run_def)
  then have "(if gone = [] then length (members_of (n_body n)) - 1 else length (still_to_run n gone)) * between_max (n_body n)
      \<le> (length (members_of (n_body n)) - 1) * between_max (n_body n)" by (rule mult_right_mono) simp
  ultimately show ?thesis unfolding shuffle_left_def span_base [OF assms(2,3)] by linarith
qed

lemma time_at_le:
  assumes "publishable d" "weighed res d k" "owner_of d k = None" "gone_ok d gone"
  shows "time_at res d gone k \<le> worst res d k"
proof (cases "node_of d k")
  case (Some n)
  then have "n_id n = k" using node_of_in by blast
  with assms Some shuffle_left_le [of d n res "gone k"] show ?thesis by (auto simp: time_at_def gone_ok_def)
qed (simp add: time_at_def)

section \<open>One transition\<close>

lemma publishable_nodes:
  "publishable d \<Longrightarrow> n \<in> set (wd_nodes d) \<Longrightarrow> node_in_order d n"
  by (simp add: publishable_def list_all_iff)

lemma publishable_node:
  assumes "publishable d" "n \<in> set (wd_nodes d)"
  shows "length (members_of (n_body n)) \<le> max_switch_cases"
    and "m \<in> set (members_of (n_body n)) \<Longrightarrow> \<exists>mn. node_of d m = Some mn \<and> member_refusal (n_body mn) = None"
    and "Some k \<in> set (own_edges (n_body n)) \<Longrightarrow> owner_of d k = None"
proof -
  note order = publishable_nodes [OF assms, unfolded node_in_order_def list_all_iff]
  show "length (members_of (n_body n)) \<le> max_switch_cases" using order by blast
  show "\<exists>mn. node_of d m = Some mn \<and> member_refusal (n_body mn) = None" if "m \<in> set (members_of (n_body n))"
    using order that by (cases "node_of d m") auto
  show "owner_of d k = None" if "Some k \<in> set (own_edges (n_body n))"
    using order that by fastforce
qed

lemma owner_member:
  assumes "owner_of d m = Some s"
  shows "\<exists>n. n \<in> set (wd_nodes d) \<and> n_id n = s \<and> m \<in> set (members_of (n_body n))"
proof -
  from assms have "(m, s) \<in> set (rev (map prod.swap (memberships (wd_nodes d))))"
    unfolding owner_of_def shuffle_owner_def by (rule map_of_SomeD)
  then show ?thesis by (auto simp: memberships_def)
qed

lemma member_owner:
  assumes "accepted d" "n \<in> set (wd_nodes d)" "m \<in> set (members_of (n_body n))"
  shows "owner_of d m = Some (n_id n)"
proof -
  have "distinct (map fst (map prod.swap (memberships (wd_nodes d))))"
    using accepted_members_distinct [OF assms(1)] by (simp add: comp_def)
  then have "distinct (map fst (rev (map prod.swap (memberships (wd_nodes d)))))" by (simp add: rev_map [symmetric])
  moreover have "(m, n_id n) \<in> set (rev (map prod.swap (memberships (wd_nodes d))))"
    using assms(2,3) by (force simp: memberships_def)
  ultimately show ?thesis unfolding owner_of_def shuffle_owner_def by (rule map_of_is_SomeI)
qed

lemma members_shuffle: "m \<in> set (members_of b) \<Longrightarrow> is_shuffle b"
  by (cases b) auto

text \<open>What is left for a member: a script, a delay or a set node without a successor of its own.\<close>

lemma member_plain: "member_refusal b = None \<Longrightarrow> \<not> is_shuffle b \<and> \<not> is_start b \<and> \<not> is_finish b \<and> declared_next b = None"
  unfolding member_refusal_def by (metis option.distinct(1))

lemma member_targets:
  assumes "member_refusal b = None"
  shows "set (edge_targets b) \<subseteq> {None} \<union> Some ` set (failure_edge b)"
  using member_plain [OF assms] assms
  by (cases b) (auto simp: member_refusal_def declared_next_def failure_edge_def split: option.split)

text \<open>A member is a script, a delay or a set node that names no successor, and its owner is a shuffle that no other owns.\<close>

lemma member_facts:
  assumes "publishable d" "node_of d k = Some n" "owner_of d k = Some s"
  shows "\<exists>sn. node_of d s = Some sn \<and> n_id sn = s \<and> sn \<in> set (wd_nodes d) \<and> k \<in> set (members_of (n_body sn)) \<and> is_shuffle (n_body sn)
      \<and> owner_of d s = None \<and> member_refusal (n_body n) = None"
proof -
  from owner_member [OF assms(3)] obtain sn where sn: "sn \<in> set (wd_nodes d)" "n_id sn = s" "k \<in> set (members_of (n_body sn))" by blast
  have acc: "accepted d" using assms(1) by (simp add: publishable_def)
  have node: "node_of d s = Some sn" using accepted_node_of [OF acc sn(1)] sn(2) by simp
  have refusal: "member_refusal (n_body n) = None" using publishable_node(2) [OF assms(1) sn(1,3)] assms(2) by auto
  have "owner_of d s = None"
  proof (rule ccontr)
    assume "owner_of d s \<noteq> None"
    then obtain s2 where "owner_of d s = Some s2" by blast
    from owner_member [OF this] obtain n2 where "n2 \<in> set (wd_nodes d)" "s \<in> set (members_of (n_body n2))" by blast
    from publishable_node(2) [OF assms(1) this] node have "member_refusal (n_body sn) = None" by auto
    with members_shuffle [OF sn(3)] show False by (simp add: member_refusal_def)
  qed
  with node sn refusal members_shuffle [OF sn(3)] show ?thesis by blast
qed

lemma successor_target: "successor_of b e = Some k \<Longrightarrow> Some k \<in> set (edge_targets b)"
proof (cases b)
  case (Switch mode cases dflt)
  assume "successor_of b e = Some k"
  with Switch consider "dflt = Some k" | i where "i < length cases" "cs_to (cases ! i) = Some k"
    by (auto simp: successor_of_def split: if_splits option.splits)
  then show ?thesis using Switch by cases (simp_all, metis image_eqI nth_mem)
qed (auto simp: successor_of_def split: if_splits edge.splits)

lemma failure_target: "k \<in> set (failure_edge b) \<Longrightarrow> Some k \<in> set (own_edges b) \<and> Some k \<in> set (edge_targets b)"
  by (cases b) (auto simp: failure_edge_def own_edges_def split: option.splits)

lemma survives_owner: "survives_failure d m = Some s \<Longrightarrow> owner_of d m = Some s"
  by (auto simp: survives_failure_def split: option.splits if_splits)

lemma exits_are_edges:
  assumes "c \<in> exits_of d n" "c = Some k"
  shows "Some k \<in> set (edge_targets (n_body n)) \<or> owner_of d (n_id n) = Some k"
proof -
  from assms consider "survives_failure d (n_id n) = Some k" | e where "advance_cursor d n e = Some k" | "k \<in> set (failure_edge (n_body n))"
    unfolding exits_of_def by auto
  then show ?thesis
  proof cases
    case 2
    then show ?thesis using successor_target [of "n_body n" e k] by (auto simp: advance_cursor_def split: option.splits if_splits)
  qed (use survives_owner failure_target in blast)+
qed

lemma plain_alts: "node_of d k = Some n \<Longrightarrow> \<not> is_shuffle (n_body n) \<Longrightarrow> alts d k = successors (doc_graph d) k"
  by (cases "n_body n") (simp_all add: alts_def node_span_def span_of_def)

lemma base_of_cost: "cost_at res d k \<le> base_cost res d k"
  by (simp add: base_cost_def)

text \<open>From a node outside every shuffle along one of its edges.\<close>

lemma plain_step:
  assumes "publishable d" "node_of d k = Some n" "owner_of d k = None" "weighed res d k" "gone_ok d gone"
    and "\<not> is_shuffle (n_body n)" "Some k' \<in> set (edge_targets (n_body n))"
  shows "track_ok res d k' \<and> cost_at res d k + time_at res d gone k' \<le> worst res d k"
proof -
  have n: "n \<in> set (wd_nodes d)" "n_id n = k" using node_of_in [OF assms(2)] by simp_all
  have "own_edges (n_body n) = edge_targets (n_body n)" using assms(6) by (cases "n_body n") (simp_all add: own_edges_def)
  then have free: "owner_of d k' = None" using publishable_node(3) [OF assms(1) n(1)] assms(7) by simp
  show ?thesis
  proof (cases "node_of d k'")
    case None
    then show ?thesis using worst_covers(1) [OF assms(1,4)] base_of_cost [of res d k] by (simp add: track_ok_def time_at_def)
  next
    case (Some n')
    then have "k' \<in> set (alts d k)"
      using n assms(7) doc_ids_node [of k' d] by (auto simp: plain_alts [OF assms(2,6)] build_edges_successors)
    with worst_covers(2) [OF assms(1,4)] have "weighed res d k'" "base_cost res d k + worst res d k' \<le> worst res d k" by auto
    with time_at_le [OF assms(1) _ free assms(5), of res] free base_of_cost [of res d k] show ?thesis
      by (fastforce simp: track_ok_def)
  qed
qed

text \<open>Out of a shuffle, by its own edge or the failure edge of a member.\<close>

lemma shuffle_exit:
  assumes "publishable d" "node_of d s = Some sn" "is_shuffle (n_body sn)" "weighed res d s" "gone_ok d gone"
    and "k' \<in> set (alts d s)" "owner_of d k' = None"
  shows "track_ok res d k' \<and> time_at res d gone k' \<le> exit_worst res d s"
  using worst_covers(2) [OF assms(1,4,6)] time_at_le [OF assms(1) _ assms(7,5), of res] exit_worst_above [OF assms(6), of res] assms(7)
  by (fastforce simp: track_ok_def)

lemma member_step:
  assumes "publishable d" "node_of d k = Some n" "owner_of d k = Some s" "weighed res d s" "gone_ok d gone"
    and "c \<in> exits_of d n" "c = Some k'"
  shows "track_ok res d k' \<and> cost_at res d k + time_at res d gone k' \<le> time_at res d gone k"
proof -
  from member_facts [OF assms(1-3)] obtain sn where sn: "node_of d s = Some sn" "n_id sn = s" "sn \<in> set (wd_nodes d)"
    "k \<in> set (members_of (n_body sn))" "is_shuffle (n_body sn)" "owner_of d s = None" and ref: "member_refusal (n_body n) = None" by blast
  have n: "n \<in> set (wd_nodes d)" "n_id n = k" using node_of_in [OF assms(2)] by simp_all
  have plain: "\<not> is_shuffle (n_body n)" "\<not> is_start (n_body n)" using member_plain [OF ref] by simp_all
  have here: "time_at res d gone k = cost_at res d k + shuffle_left res d sn (gone s)"
    using assms(2,3) sn(1) by (simp add: time_at_def)
  note kinds = member_targets [OF ref]
  from exits_are_edges [OF assms(6,7)] n(2) assms(3) kinds consider "k' = s" | "k' \<in> set (failure_edge (n_body n))" by auto
  then show ?thesis
  proof cases
    case 1
    have "time_at res d gone s = shuffle_left res d sn (gone s)" using sn by (simp add: time_at_def)
    with 1 here sn(1,6) assms(4) show ?thesis by (simp add: track_ok_def)
  next
    case 2
    have "Some k' \<in> set (own_edges (n_body n))"
      using failure_target [OF 2] by simp
    then have free: "owner_of d k' = None" by (rule publishable_node(3) [OF assms(1) n(1)])
    have "k' \<in> set (alts d s)"
      using 2 sn assms(2) by (cases "n_body sn") (force simp: alts_def node_span_def span_of_def)+
    from shuffle_exit [OF assms(1) sn(1,5) assms(4,5) this free] here sn(2) show ?thesis by (simp add: shuffle_left_def)
  qed
qed


text \<open>A visit of a shuffle draws a member that is still to run.\<close>

lemma sum_list_filter_insert:
  "m \<in> set xs \<Longrightarrow> P m \<Longrightarrow> f m + sum_list (map f (filter (\<lambda>x. P x \<and> x \<noteq> m) xs)) \<le> sum_list (map (f :: 'a \<Rightarrow> nat) (filter P xs))"
proof (induction xs)
  case (Cons x xs)
  then show ?case
    using sum_list_filter_le [of f "\<lambda>x. x \<noteq> m" "filter P xs"] by (cases "x = m") auto
qed simp

lemma length_filter_insert: "m \<in> set xs \<Longrightarrow> P m \<Longrightarrow> Suc (length (filter (\<lambda>x. P x \<and> x \<noteq> m) xs)) \<le> length (filter P xs)"
  using sum_list_filter_insert [of m xs P "\<lambda>_. 1"] by (simp add: sum_list_triv)

lemma draw_step:
  assumes "node_of d s = Some sn" "owner_of d s = None" "is_shuffle (n_body sn)" "owner_of d m = Some s"
    and "weighed res d s" "gone_ok d gone" "m \<in> set (members_of (n_body sn))" "m \<notin> set (gone s)"
    and "wait \<le> (if gone s = [] then 0 else between_max (n_body sn))"
  defines "gone' \<equiv> gone(s := List.insert m (gone s))"
  shows "track_ok res d m \<and> gone_ok d gone' \<and> wait + time_at res d gone' m \<le> time_at res d gone s"
proof -
  let ?ms = "members_of (n_body sn)" and ?left = "still_to_run sn (gone s)" and ?left' = "still_to_run sn (gone' s)"
  have left': "?left' = filter (\<lambda>x. x \<notin> set (gone s) \<and> x \<noteq> m) ?ms"
    by (auto simp: still_to_run_def gone'_def intro!: filter_cong)
  have cost: "cost_at res d m + sum_list (map (cost_at res d) ?left') \<le> sum_list (map (cost_at res d) ?left)"
    unfolding left' unfolding still_to_run_def by (rule sum_list_filter_insert) (use assms(7,8) in auto)
  have fewer: "Suc (length ?left') \<le> length ?left"
    unfolding left' unfolding still_to_run_def by (rule length_filter_insert) (use assms(7,8) in auto)
  let ?waits = "if gone s = [] then length ?ms - 1 else length ?left"
  have "length ?left' + (if gone s = [] then 0 else 1) \<le> ?waits"
    using fewer by (auto simp: still_to_run_def)
  then have "(length ?left' + (if gone s = [] then 0 else 1)) * between_max (n_body sn) \<le> ?waits * between_max (n_body sn)"
    by (rule mult_right_mono) simp
  then have "wait + length ?left' * between_max (n_body sn) \<le> ?waits * between_max (n_body sn)"
    using assms(9) by (auto simp: add_mult_distrib split: if_splits)
  moreover have "gone' s \<noteq> []" using assms(8) by (simp add: gone'_def List.insert_def)
  ultimately have "wait + cost_at res d m + shuffle_left res d sn (gone' s) \<le> shuffle_left res d sn (gone s)"
    using cost by (simp add: shuffle_left_def)
  moreover have "time_at res d gone s = shuffle_left res d sn (gone s)" using assms(1-3) by (simp add: time_at_def)
  moreover have "time_at res d gone' m \<le> cost_at res d m + shuffle_left res d sn (gone' s)"
    using assms(1,4) by (simp add: time_at_def split: option.split)
  moreover have "gone_ok d gone'"
    using assms(1,6,7) by (auto simp: gone_ok_def gone'_def)
  ultimately show ?thesis using assms(4,5) by (simp add: track_ok_def)
qed

text \<open>It leaves along its own edge when none is.\<close>

lemma leave_step:
  assumes "publishable d" "node_of d s = Some sn" "owner_of d s = None" "is_shuffle (n_body sn)"
    and "weighed res d s" "gone_ok d gone" "own_edges (n_body sn) = [Some k']"
  shows "track_ok res d k' \<and> time_at res d gone k' \<le> time_at res d gone s"
proof -
  have n: "sn \<in> set (wd_nodes d)" "n_id sn = s" using node_of_in [OF assms(2)] by simp_all
  have free: "owner_of d k' = None" using publishable_node(3) [OF assms(1) n(1), of k'] assms(7) by simp
  have "k' \<in> set (alts d s)"
    using assms(2,4,7) by (cases "n_body sn") (auto simp: alts_def node_span_def span_of_def own_edges_def opt_list_def)
  from shuffle_exit [OF assms(1,2,4,5,6) this free] assms(2-4) n(2) show ?thesis
    by (simp add: time_at_def shuffle_left_def)
qed


section \<open>A turn\<close>

definition pins_no_shuffle :: "wf_env \<Rightarrow> bool" where
  "pins_no_shuffle env \<longleftrightarrow> list_all (\<lambda>n. is_shuffle (n_body n) \<longrightarrow> jm_get (we_pins env) (n_id n) = None) (wd_nodes (we_doc env))"

text \<open>What the turn on a cursor may spend: nothing where it starts no step, else the limit the step declares.\<close>

definition turn_charge :: "resolved_refs \<Rightarrow> wf_env \<Rightarrow> turn_input \<Rightarrow> ident \<Rightarrow> wf_run \<Rightarrow> nat" where
  "turn_charge res env ti cur st =
     (if ti_aborted ti \<noteq> None \<or> ti_max_total ti < ti_elapsed ti \<or> wd_max_steps (we_doc env) \<le> wr_step st then 0
      else case node_of (we_doc env) cur of
        None \<Rightarrow> 0
      | Some n \<Rightarrow>
          if \<not> n_enabled n \<or> jm_get (we_pins env) cur \<noteq> None then 0
          else if is_shuffle (n_body n)
          then (if is_member_edge (sh_edge (visit_of env ti st n)) \<and> shuffled st cur \<noteq> [] then between_max (n_body n) else 0)
          else coalesce (node_cost res (n_body n)) 0)"

text \<open>What is true between turns, and what is still to come.\<close>

definition on_track :: "resolved_refs \<Rightarrow> wf_env \<Rightarrow> wf_run \<Rightarrow> bool" where
  "on_track res env st \<longleftrightarrow> publishable (we_doc env) \<and> pins_no_shuffle env \<and> gone_ok (we_doc env) (shuffled st)
     \<and> (case wr_cursor st of None \<Rightarrow> True | Some k \<Rightarrow> track_ok res (we_doc env) k)"

definition time_left :: "resolved_refs \<Rightarrow> wf_env \<Rightarrow> wf_run \<Rightarrow> nat" where
  "time_left res env st = (case wr_cursor st of None \<Rightarrow> 0 | Some k \<Rightarrow> time_at res (we_doc env) (shuffled st) k)"

text \<open>Along an exit of a node that is no shuffle.\<close>

lemma exit_step:
  assumes "publishable d" "node_of d k = Some n" "\<not> is_shuffle (n_body n)" "track_ok res d k" "gone_ok d gone"
    and "c \<in> exits_of d n" "c = Some k'"
  shows "track_ok res d k' \<and> cost_at res d k + time_at res d gone k' \<le> time_at res d gone k"
proof (cases "owner_of d k")
  case None
  have "n_id n = k" using node_of_in [OF assms(2)] by simp
  with exits_are_edges [OF assms(6,7)] None have edge: "Some k' \<in> set (edge_targets (n_body n))" by simp
  have "time_at res d gone k = worst res d k" "weighed res d k"
    using None assms(2-4) by (simp_all add: time_at_def track_ok_def)
  with plain_step [OF assms(1,2) None _ assms(5,3) edge, of res] show ?thesis by simp
next
  case (Some s)
  with assms(2,4) have "weighed res d s" by (simp add: track_ok_def)
  from member_step [OF assms(1,2) Some this assms(5-7)] show ?thesis .
qed

lemma cost_covered:
  assumes "publishable d" "node_of d k = Some n" "\<not> is_shuffle (n_body n)" "track_ok res d k"
  shows "cost_at res d k \<le> time_at res d gone k"
proof (cases "owner_of d k")
  case None
  with assms(2-4) worst_covers(1) [OF assms(1), of res k] base_of_cost [of res d k] show ?thesis
    by (simp add: time_at_def track_ok_def)
next
  case (Some s)
  with assms(2) show ?thesis by (simp add: time_at_def)
qed

end
