(* ===== verification/WfTotal.thy ===== *)
theory WfTotal
  imports WfTime
begin

text \<open>
  What a run of the executor may spend by declared limits, turn by turn, against the total the publish check compared: the turns as payments
  out of what is left, the locale of such payments with its interpretation, and the bound for every document the check lets through.
\<close>

section \<open>A turn pays out of what is left\<close>

definition fits :: "resolved_refs \<Rightarrow> wf_env \<Rightarrow> nat \<Rightarrow> wf_run \<Rightarrow> wf_run \<Rightarrow> bool" where
  "fits res env c st st' \<longleftrightarrow> on_track res env st' \<and> c + time_left res env st' \<le> time_left res env st"

lemma same_shuffled: "wr_shuffled st' = wr_shuffled st \<Longrightarrow> shuffled st' = shuffled st"
  by (simp add: shuffled_def fun_eq_iff)

lemma ends_fits:
  "on_track res env st \<Longrightarrow> wr_cursor st' = None \<Longrightarrow> wr_shuffled st' = wr_shuffled st \<Longrightarrow> c \<le> time_left res env st \<Longrightarrow> fits res env c st st'"
  by (simp add: fits_def on_track_def time_left_def same_shuffled [of st' st])

lemma moves_fits:
  assumes "on_track res env st" "wr_cursor st = Some k" "node_of (we_doc env) k = Some n" "\<not> is_shuffle (n_body n)"
    and "wr_cursor st' \<in> exits_of (we_doc env) n" "wr_shuffled st' = wr_shuffled st" "c \<le> cost_at res (we_doc env) k"
  shows "fits res env c st st'"
proof -
  have pub: "publishable (we_doc env)" "track_ok res (we_doc env) k" "gone_ok (we_doc env) (shuffled st)"
    using assms(1,2) by (simp_all add: on_track_def)
  show ?thesis
  proof (cases "wr_cursor st'")
    case None
    have "c \<le> time_left res env st"
      using cost_covered [OF pub(1) assms(3,4) pub(2), of "shuffled st"] assms(2,7) by (simp add: time_left_def)
    with ends_fits [OF assms(1) None assms(6)] show ?thesis by simp
  next
    case (Some k')
    from exit_step [OF pub(1) assms(3,4) pub(2,3) assms(5) Some] assms(1,2,7) Some show ?thesis
      by (simp add: fits_def on_track_def time_left_def same_shuffled [OF assms(6)])
  qed
qed

lemma shuffle_no_member:
  assumes "publishable d" "node_of d k = Some n" "member_refusal (n_body n) \<noteq> None"
  shows "owner_of d k = None"
  using member_facts [OF assms(1,2)] assms(3) by (cases "owner_of d k") auto

lemma own_edge_of_shuffle: "is_shuffle b \<Longrightarrow> successor_of b e = Some k \<Longrightarrow> (\<forall>m. e \<noteq> Member m) \<Longrightarrow> own_edges b = [Some k]"
  by (cases b) (auto simp: successor_of_def own_edges_def split: edge.splits)

lemma leaves_fits:
  assumes "on_track res env st" "wr_cursor st = Some k" "node_of (we_doc env) k = Some n" "is_shuffle (n_body n)"
    and "wr_cursor st' = advance_cursor (we_doc env) n Next" "wr_shuffled st' = wr_shuffled st"
  shows "fits res env 0 st st'"
proof (cases "wr_cursor st'")
  case None
  with ends_fits [OF assms(1) None assms(6)] show ?thesis by simp
next
  case (Some k')
  have pub: "publishable (we_doc env)" "track_ok res (we_doc env) k" "gone_ok (we_doc env) (shuffled st)"
    using assms(1,2) by (simp_all add: on_track_def)
  have free: "owner_of (we_doc env) k = None"
    by (rule shuffle_no_member [OF pub(1) assms(3)]) (use assms(4) in \<open>simp add: member_refusal_def\<close>)
  have w: "weighed res (we_doc env) k" using pub(2) free assms(3) by (simp add: track_ok_def)
  have own: "own_edges (n_body n) = [Some k']"
    using assms(4,5) Some by (intro own_edge_of_shuffle) (auto simp: advance_cursor_def split: option.splits if_splits)
  from leave_step [OF pub(1) assms(3) free assms(4) w pub(3) own] assms(1,2) Some show ?thesis
    by (simp add: fits_def on_track_def time_left_def same_shuffled [OF assms(6)])
qed

lemma draws_fits:
  assumes "on_track res env st" "wr_cursor st = Some k" "node_of (we_doc env) k = Some n" "is_shuffle (n_body n)"
    and "wr_cursor st' = advance_cursor (we_doc env) n (Member m)"
    and "wr_shuffled st' = mark_shuffled (n_id n) (Some (Member m)) (wr_shuffled st)"
    and "m \<in> set (members_of (n_body n))" "m \<notin> set (shuffled st k)" "wait \<le> (if shuffled st k = [] then 0 else between_max (n_body n))"
  shows "fits res env wait st st'"
proof -
  have pub: "publishable (we_doc env)" "track_ok res (we_doc env) k" "gone_ok (we_doc env) (shuffled st)"
    using assms(1,2) by (simp_all add: on_track_def)
  have free: "owner_of (we_doc env) k = None"
    by (rule shuffle_no_member [OF pub(1) assms(3)]) (use assms(4) in \<open>simp add: member_refusal_def\<close>)
  have n: "n \<in> set (wd_nodes (we_doc env))" "n_id n = k" using node_of_in [OF assms(3)] by simp_all
  have "accepted (we_doc env)" using pub(1) by (simp add: publishable_def)
  from member_owner [OF this n(1) assms(7)] n(2) have own: "owner_of (we_doc env) m = Some k" by simp
  have cur: "wr_cursor st' = Some m"
    using assms(4,5,7) by (cases "n_body n") (auto simp: advance_cursor_def successor_of_def)
  have marked: "shuffled st' = (shuffled st)(k := List.insert m (shuffled st k))"
    using assms(6) n(2) by (auto simp: shuffled_def mark_shuffled_def fun_eq_iff)
  have "weighed res (we_doc env) k" using pub(2) free assms(3) by (simp add: track_ok_def)
  from draw_step [OF assms(3) free assms(4) own this pub(3) assms(7-9)] assms(1,2) cur show ?thesis
    by (simp add: fits_def on_track_def time_left_def marked)
qed

text \<open>One step of a run: the turn of an enabled node.\<close>

lemma visit_charge:
  assumes "on_track res env st" "wr_cursor st = Some k" "node_of (we_doc env) k = Some n" "is_shuffle (n_body n)"
    and "sh_edge (visit_of env ti st n) = Member m" "m \<in> set (members_of (n_body n))" "m \<notin> set (shuffled st k)"
  shows "(if shuffled st k = [] then 0 else between_max (n_body n)) \<le> time_left res env st"
  using draws_fits [OF assms(1-4) _ _ assms(6,7) le_refl, of "st\<lparr>wr_cursor := advance_cursor (we_doc env) n (Member m),
      wr_shuffled := mark_shuffled (n_id n) (Some (Member m)) (wr_shuffled st)\<rparr>"]
  by (simp add: fits_def)

lemma shuffle_step_fits:
  assumes "on_track res env st" "wr_cursor st = Some k" "node_of (we_doc env) k = Some n" "is_shuffle (n_body n)"
    and "step_turn env ti n st = (st', e)"
  defines "c \<equiv> if is_member_edge (sh_edge (visit_of env ti st n)) \<and> shuffled st k \<noteq> [] then between_max (n_body n) else 0"
  shows "(e = None \<longrightarrow> fits res env c st st') \<and> c \<le> time_left res env st"
proof -
  have n: "n \<in> set (wd_nodes (we_doc env))" "n_id n = k" using node_of_in [OF assms(3)] by simp_all
  have pub: "publishable (we_doc env)" using assms(1) by (simp add: on_track_def)
  have "jm_get (we_pins env) (n_id n) = None"
    using assms(1,4) n(1) by (simp add: on_track_def pins_no_shuffle_def list_all_iff)
  then have out: "wr_cursor st' = advance_cursor (we_doc env) n (sh_edge (visit_of env ti st n))
      \<and> wr_shuffled st' = mark_shuffled (n_id n) (Some (sh_edge (visit_of env ti st n))) (wr_shuffled st)" if "e = None"
    using shuffle_turn_exits [of env ti n st st'] assms(4,5) that by simp
  from visit_cases [OF publishable_node(1) [OF pub n(1)], of env ti st] n(2) consider
    (leave) "sh_edge (visit_of env ti st n) = Next"
    | (draw) m where "m \<in> set (members_of (n_body n))" "m \<notin> set (shuffled st k)" "sh_edge (visit_of env ti st n) = Member m" by blast
  then show ?thesis
  proof cases
    case leave
    then show ?thesis
      using leaves_fits [OF assms(1-4)] out by (auto simp: c_def is_member_edge_def mark_shuffled_def)
  next
    case draw
    have c: "c = (if shuffled st k = [] then 0 else between_max (n_body n))" by (simp add: c_def draw(3) is_member_edge_def)
    show ?thesis
      using draws_fits [OF assms(1-4) _ _ draw(1,2), of st' c] visit_charge [OF assms(1-4) draw(3,1,2)] out draw(3) by (auto simp: c)
  qed
qed

lemma plain_step_fits:
  assumes "on_track res env st" "wr_cursor st = Some k" "node_of (we_doc env) k = Some n"
    and "\<not> is_shuffle (n_body n)" "\<not> is_start (n_body n)" "\<not> is_finish (n_body n)" "step_turn env ti n st = (st', e)"
  defines "c \<equiv> if jm_get (we_pins env) k \<noteq> None then 0 else coalesce (node_cost res (n_body n)) 0"
  shows "(e = None \<longrightarrow> fits res env c st st') \<and> c \<le> time_left res env st"
proof -
  have n: "n_id n = k" using node_of_in [OF assms(3)] by simp
  have c: "c \<le> cost_at res (we_doc env) k" using assms(3) by (simp add: c_def cost_at_def)
  have "cost_at res (we_doc env) k \<le> time_left res env st"
    using cost_covered [OF _ assms(3,4), of res "shuffled st"] assms(1,2) by (simp add: on_track_def time_left_def)
  moreover have "fits res env c st st'" if none: "e = None"
  proof (cases "jm_get (we_pins env) (n_id n)")
    case None
    from step_turn_exits [OF _ None, of ti st st'] assms(4-7) none
    show ?thesis by (intro moves_fits [OF assms(1-4) _ _ c]) auto
  next
    case (Some v)
    then have "st' = pinned_turn env ti n v (open_step env ti n st)" using assms(7) by (simp add: step_turn_def Let_def)
    then show ?thesis
      by (intro moves_fits [OF assms(1-4) _ _ c]) (simp_all add: pinned_turn_def cursor_simps)
  qed
  ultimately show ?thesis using c by auto
qed

text \<open>The turns that start no step.\<close>

lemma start_fits:
  assumes "on_track res env st" "wr_cursor st = Some k" "node_of (we_doc env) k = Some n" "n_body n = Start nxt"
  shows "fits res env 0 st (move_to nxt st)"
proof (cases nxt)
  case None
  then show ?thesis by (intro ends_fits [OF assms(1)]) (simp_all add: cursor_simps)
next
  case (Some k')
  have pub: "publishable (we_doc env)" "track_ok res (we_doc env) k" "gone_ok (we_doc env) (shuffled st)"
    using assms(1,2) by (simp_all add: on_track_def)
  have free: "owner_of (we_doc env) k = None"
    by (rule shuffle_no_member [OF pub(1) assms(3)]) (use assms(4) in \<open>simp add: member_refusal_def\<close>)
  have "weighed res (we_doc env) k" using pub(2) free assms(3) by (simp add: track_ok_def)
  from plain_step [OF pub(1) assms(3) free this pub(3), of k'] assms(4) Some
  have step: "track_ok res (we_doc env) k' \<and> time_at res (we_doc env) (shuffled st) k' \<le> worst res (we_doc env) k" by simp
  have here: "time_left res env st = worst res (we_doc env) k"
    using assms(2-4) free by (simp add: time_left_def time_at_def)
  have same: "shuffled (move_to nxt st) = shuffled st" by (rule same_shuffled) (simp add: cursor_simps)
  show ?thesis using step assms(1) Some by (simp add: fits_def here) (simp add: on_track_def time_left_def same [unfolded Some])
qed

lemma skip_fits:
  assumes "on_track res env st" "wr_cursor st = Some k" "node_of (we_doc env) k = Some n"
  shows "fits res env 0 st (skip_turn env ti n st)"
  using leaves_fits [OF assms, of "skip_turn env ti n st"] moves_fits [OF assms, of "skip_turn env ti n st" 0]
  by (cases "is_shuffle (n_body n)") (simp_all add: cursor_simps)

lemma failed_fits: "on_track res env st \<Longrightarrow> fits res env 0 st (fail_run code why st)"
  by (rule ends_fits) (simp_all add: cursor_simps)

lemma ended_fits: "on_track res env st \<Longrightarrow> fits res env 0 st (move_to None st)"
  by (rule ends_fits) (simp_all add: cursor_simps)

lemma node_turn_fits:
  assumes "on_track res env st" "wr_cursor st = Some k" "node_of (we_doc env) k = Some n" "n_enabled n"
    and "\<not> is_start (n_body n)" "\<not> is_finish (n_body n)" "step_turn env ti n st = (st', e)"
    and "ti_aborted ti = None" "\<not> ti_max_total ti < ti_elapsed ti" "\<not> wd_max_steps (we_doc env) \<le> wr_step st"
  shows "(e = None \<longrightarrow> fits res env (turn_charge res env ti k st) st st') \<and> turn_charge res env ti k st \<le> time_left res env st"
proof (cases "is_shuffle (n_body n)")
  case True
  have "n \<in> set (wd_nodes (we_doc env))" "n_id n = k" using node_of_in [OF assms(3)] by simp_all
  then have "jm_get (we_pins env) k = None" using assms(1) True by (auto simp: on_track_def pins_no_shuffle_def list_all_iff)
  with shuffle_step_fits [OF assms(1-3) True assms(7)] True assms(3,4,8-10) show ?thesis by (simp add: turn_charge_def)
next
  case False
  have "turn_charge res env ti k st = (if jm_get (we_pins env) k \<noteq> None then 0 else coalesce (node_cost res (n_body n)) 0)"
    using False assms(3,4,8-10) by (simp add: turn_charge_def)
  with plain_step_fits [OF assms(1-3) False assms(5-7)] show ?thesis by simp
qed

text \<open>The turn on a cursor: it may throw, but it spends no more than what is left, and what it leaves is covered too.\<close>

lemma turn_fits:
  assumes "on_track res env st" "wr_cursor st = Some k" "wf_turn env ti k st = (st', e)"
  shows "(e = None \<longrightarrow> fits res env (turn_charge res env ti k st) st st') \<and> turn_charge res env ti k st \<le> time_left res env st"
proof -
  consider (closed) "ti_aborted ti \<noteq> None \<or> ti_max_total ti < ti_elapsed ti \<or> wd_max_steps (we_doc env) \<le> wr_step st \<or> node_of (we_doc env) k = None"
    | (node) n where "ti_aborted ti = None" "\<not> ti_max_total ti < ti_elapsed ti" "\<not> wd_max_steps (we_doc env) \<le> wr_step st"
        "node_of (we_doc env) k = Some n" by blast
  then show ?thesis
  proof cases
    case closed
    then have "turn_charge res env ti k st = 0" by (auto simp: turn_charge_def)
    with closed assms(3) failed_fits [OF assms(1)] show ?thesis by (auto simp: wf_turn_def Let_def split: option.splits if_splits)
  next
    case node
    note run = node wf_turn_def turn_charge_def Let_def
    show ?thesis
    proof (cases "n_body n")
      case (Start nxt)
      with start_fits [OF assms(1,2) node(4)] assms(3) show ?thesis by (auto simp: run node_cost_def)
    next
      case (Finish status msg)
      with failed_fits [OF assms(1)] ended_fits [OF assms(1)] assms(3) show ?thesis by (auto simp: run node_cost_def split: if_splits)
    qed (use assms(3) skip_fits [OF assms(1,2) node(4)] node_turn_fits [OF assms(1,2) node(4) _ _ _ _ node(1-3)]
          in \<open>cases "n_enabled n"; auto simp: run\<close>)+
  qed
qed

section \<open>A run\<close>

text \<open>What the turns of a run may spend between them.\<close>

fun loop_charge :: "resolved_refs \<Rightarrow> wf_env \<Rightarrow> turn_input list \<Rightarrow> wf_run \<Rightarrow> nat" where
  "loop_charge res env [] st = 0"
| "loop_charge res env (ti # tis) st = (case wr_cursor st of
     None \<Rightarrow> 0
   | Some cur \<Rightarrow> turn_charge res env ti cur st
       + (case wf_turn env ti cur st of (st', None) \<Rightarrow> loop_charge res env tis st' | (_, Some _) \<Rightarrow> 0))"

text \<open>Anything a turn pays for out of a budget bounds what the loop pays.\<close>

locale turn_budget =
  fixes inv :: "wf_env \<Rightarrow> wf_run \<Rightarrow> bool"
    and budget :: "wf_env \<Rightarrow> wf_run \<Rightarrow> nat"
    and charge :: "wf_env \<Rightarrow> turn_input \<Rightarrow> ident \<Rightarrow> wf_run \<Rightarrow> nat"
    and total :: "wf_env \<Rightarrow> turn_input list \<Rightarrow> wf_run \<Rightarrow> nat"
  assumes paid: "inv env st \<Longrightarrow> wr_cursor st = Some k \<Longrightarrow> wf_turn env ti k st = (st', None) \<Longrightarrow>
      inv env st' \<and> charge env ti k st + budget env st' \<le> budget env st"
    and thrown: "inv env st \<Longrightarrow> wr_cursor st = Some k \<Longrightarrow> wf_turn env ti k st = (st', Some x) \<Longrightarrow> charge env ti k st \<le> budget env st"
    and total_Nil: "total env [] st = 0"
    and total_Cons: "total env (ti # tis) st = (case wr_cursor st of None \<Rightarrow> 0
      | Some k \<Rightarrow> charge env ti k st + (case wf_turn env ti k st of (st', None) \<Rightarrow> total env tis st' | (_, Some _) \<Rightarrow> 0))"
begin

lemma loop_paid: "inv env st \<Longrightarrow> total env tis st \<le> budget env st"
proof (induction tis arbitrary: st)
  case Nil
  then show ?case by (simp add: total_Nil)
next
  case (Cons ti tis)
  show ?case
  proof (cases "wr_cursor st")
    case None
    then show ?thesis by (simp add: total_Cons)
  next
    case (Some k)
    obtain st' e where turn: "wf_turn env ti k st = (st', e)" by fastforce
    show ?thesis
    proof (cases e)
      case None
      with paid [OF Cons.prems Some] Cons.IH [of st'] turn Some show ?thesis by (fastforce simp: total_Cons)
    next
      case (Some x)
      with thrown [OF Cons.prems \<open>wr_cursor st = Some k\<close>] turn \<open>wr_cursor st = Some k\<close> show ?thesis by (simp add: total_Cons)
    qed
  qed
qed

end

interpretation declared: turn_budget "on_track res" "time_left res" "turn_charge res" "loop_charge res"
proof unfold_locales
  fix env st k ti st' x
  assume st: "on_track res env st" "wr_cursor st = Some k"
  show "on_track res env st' \<and> turn_charge res env ti k st + time_left res env st' \<le> time_left res env st"
    if "wf_turn env ti k st = (st', None)"
    using turn_fits [OF st that] by (simp add: fits_def)
  show "turn_charge res env ti k st \<le> time_left res env st" if "wf_turn env ti k st = (st', Some x)"
    using turn_fits [OF st that] by simp
qed simp_all

section \<open>What the check accepted\<close>

text \<open>The two warnings that leave the time of a run open: the document can loop, or declares no limit for a script.\<close>

fun untimed :: "finding_code \<Rightarrow> bool" where
  "untimed (LoopCode _ _) = True" | "untimed (BudgetUnknown _) = True" | "untimed _ = False"

definition passes :: "finding list \<Rightarrow> bool" where
  "passes fs \<longleftrightarrow> list_all (\<lambda>f. is_warning (f_code f) \<and> \<not> untimed (f_code f)) fs"

lemma passes_simps [simp]:
  "passes []" "passes (f # fs) \<longleftrightarrow> is_warning (f_code f) \<and> \<not> untimed (f_code f) \<and> passes fs"
  "passes (fs @ gs) \<longleftrightarrow> passes fs \<and> passes gs" "passes (concat (map h xs)) \<longleftrightarrow> (\<forall>x \<in> set xs. passes (h x))"
  by (auto simp: passes_def list_all_iff)

lemma in_enumerate: "x \<in> set xs \<Longrightarrow> \<exists>i. (i, x) \<in> set (enumerate m xs)"
  by (induction xs arbitrary: m) auto

lemma resolve_edge_passes: "passes (snd (resolve_edge ids f)) \<Longrightarrow> ef_target f = Some t \<Longrightarrow> t \<in> ids"
  by (auto simp: resolve_edge_def finding_at_def split: if_splits)

lemma add_fields_passes:
  "passes (snd (foldl (\<lambda>(g, fs) f. case resolve_edge ids f of (t, new) \<Rightarrow> (add_edge g a t, fs @ new)) acc es)) \<Longrightarrow>
   passes (snd acc) \<and> (\<forall>f \<in> set es. \<forall>t. ef_target f = Some t \<longrightarrow> t \<in> ids)"
proof (induction es arbitrary: acc)
  case (Cons f es)
  obtain g fs where acc: "acc = (g, fs)" by fastforce
  obtain t new where r: "resolve_edge ids f = (t, new)" by fastforce
  from Cons acc r resolve_edge_passes [of ids f] show ?case by fastforce
qed simp

lemma edges_known:
  assumes "passes (snd (build_edges d (doc_ids d)))" "n \<in> set (wd_nodes d)" "Some t \<in> set (edge_targets (n_body n))"
  shows "t \<in> doc_ids d"
proof -
  define owned where "owned = set (map snd (memberships (wd_nodes d)))"
  have fold: "passes (snd (foldl (add_fields ids owned) acc ins)) \<Longrightarrow> passes (snd acc)
      \<and> (\<forall>ni \<in> set ins. \<forall>t. Some t \<in> set (edge_targets (n_body (snd ni))) \<longrightarrow> t \<in> ids)" for ids acc ins
  proof (induction ins arbitrary: acc)
    case (Cons ni ins)
    have "passes (snd (foldl (add_fields ids owned) (add_fields ids owned acc ni) ins))" using Cons.prems by simp
    from Cons.IH [OF this] have rest: "passes (snd (add_fields ids owned acc ni))"
      "\<forall>ni \<in> set ins. \<forall>t. Some t \<in> set (edge_targets (n_body (snd ni))) \<longrightarrow> t \<in> ids" by auto
    from add_fields_passes [OF rest(1) [unfolded add_fields_def]]
    have "passes (snd acc)" "\<forall>f \<in> set (edge_fields owned ni). \<forall>t. ef_target f = Some t \<longrightarrow> t \<in> ids" by auto
    moreover have "set (edge_targets (n_body (snd ni))) = ef_target ` set (edge_fields owned ni)"
      using edge_fields_targets [of owned "fst ni" "snd ni"] by (metis list.set_map prod.collapse)
    ultimately show ?case using rest(2) by (auto simp: image_iff)
  qed simp
  obtain i where "(i, n) \<in> set (enumerate 0 (wd_nodes d))"
    using in_enumerate [OF assms(2)] by blast
  with fold [of "doc_ids d" "([], [])" "enumerate 0 (wd_nodes d)"] assms(1,3) show ?thesis
    by (fastforce simp: build_edges_def owned_def Let_def)
qed

lemma shuffle_passes:
  assumes "\<forall>ni \<in> set (enumerate 0 (wd_nodes d)). passes (check_shuffle d ni)" "n \<in> set (wd_nodes d)"
    and "m \<in> set (members_of (n_body n))" "node_of d m = Some mn"
  shows "member_refusal (n_body mn) = None"
proof -
  obtain i where "(i, n) \<in> set (enumerate 0 (wd_nodes d))"
    using in_enumerate [OF assms(2)] by blast
  with assms(1) have here: "passes (check_shuffle d (i, n))" by blast
  obtain j where "(j, m) \<in> set (enumerate 0 (members_of (n_body n)))"
    using in_enumerate [OF assms(3)] by blast
  with here members_shuffle [OF assms(3)] assms(4) show ?thesis
    by (auto simp: check_shuffle_def finding_at_def split: option.splits if_splits)
qed

text \<open>Two things the check does not look at: the bound of the schema on a shuffle's members, and edges drawn straight into a member.\<close>

definition members_in_bounds :: "wf_doc \<Rightarrow> bool" where
  "members_in_bounds d \<longleftrightarrow> list_all (\<lambda>n. length (members_of (n_body n)) \<le> max_switch_cases) (wd_nodes d)"

definition members_not_targets :: "wf_doc \<Rightarrow> bool" where
  "members_not_targets d \<longleftrightarrow>
     list_all (\<lambda>n. list_all (\<lambda>t. case t of None \<Rightarrow> True | Some k \<Rightarrow> owner_of d k = None) (own_edges (n_body n))) (wd_nodes d)"

lemma checked_publishable:
  assumes "accepted d" "members_in_bounds d" "members_not_targets d" "passes (check_workflow res compiled budget d)"
  shows "publishable d"
proof -
  have edges: "passes (snd (build_edges d (doc_ids d)))" and shuffles: "\<forall>ni \<in> set (enumerate 0 (wd_nodes d)). passes (check_shuffle d ni)"
    and cycle: "passes (case doc_cycle d of Some k \<Rightarrow> [finding_at [] (LoopCode k (wd_max_steps d))] | None \<Rightarrow> [])"
    using assms(4) by (simp_all add: check_workflow_def del: passes_simps(2))
  have "wd_entry d \<in> doc_ids d" using accepted_entry [OF assms(1)] by (auto simp: doc_ids_node)
  with cycle have "loop_free d" by (auto simp: loop_free_def finding_at_def split: option.splits)
  moreover have "node_in_order d n" if n: "n \<in> set (wd_nodes d)" for n
  proof -
    have "\<exists>mn. node_of d m = Some mn \<and> member_refusal (n_body mn) = None" if m: "m \<in> set (members_of (n_body n))" for m
    proof -
      have "Some m \<in> set (edge_targets (n_body n))" using m by (cases "n_body n") auto
      from edges_known [OF edges n this] obtain mn where "node_of d m = Some mn" by (auto simp: doc_ids_node)
      with shuffle_passes [OF shuffles n m] show ?thesis by blast
    qed
    with n assms(2,3) show ?thesis
      by (fastforce simp: node_in_order_def members_in_bounds_def members_not_targets_def list_all_iff)
  qed
  ultimately show ?thesis using assms(1) by (simp add: publishable_def list_all_iff)
qed

lemma checked_budget:
  assumes "accepted d" "passes (check_workflow res compiled (Some max_total) d)"
  shows "passes (budget_findings res max_total d (doc_graph d) (doc_reachable d))"
proof -
  have cycle: "passes (case doc_cycle d of Some k \<Rightarrow> [finding_at [] (LoopCode k (wd_max_steps d))] | None \<Rightarrow> [])"
    and budget: "passes (if doc_cycle d = None \<and> wd_entry d \<in> doc_ids d
        then budget_findings res max_total d (doc_graph d) (doc_reachable d) else [])"
    using assms(2) by (simp_all add: check_workflow_def del: passes_simps(2))
  have "wd_entry d \<in> doc_ids d" using accepted_entry [OF assms(1)] by (auto simp: doc_ids_node)
  with cycle budget show ?thesis by (auto simp: finding_at_def split: option.splits)
qed

lemma on_track_at_start:
  assumes "publishable (we_doc env)" "pins_no_shuffle env"
  shows "on_track res env (initial_run (we_doc env) i)
    \<and> time_left res env (initial_run (we_doc env) i) \<le> worst res (we_doc env) (wd_entry (we_doc env))"
proof -
  let ?d = "we_doc env" and ?st = "initial_run (we_doc env) i"
  have fresh: "shuffled ?st k = []" for k by (simp add: shuffled_def initial_run_def)
  have gone: "gone_ok ?d (shuffled ?st)" by (simp add: gone_ok_def fresh)
  obtain n nxt where n: "node_of ?d (wd_entry ?d) = Some n" "n_body n = Start nxt"
    using accepted_entry [of "we_doc env"] assms(1) unfolding publishable_def by blast
  have free: "owner_of ?d (wd_entry ?d) = None"
    by (rule shuffle_no_member [OF assms(1) n(1)]) (simp add: n(2) member_refusal_def)
  have "weighed res ?d (wd_entry ?d)" by (rule worst_memo_settled(2) [OF assms(1)])
  then have "track_ok res ?d (wd_entry ?d)" "time_at res ?d (shuffled ?st) (wd_entry ?d) \<le> worst res ?d (wd_entry ?d)"
    using time_at_le [OF assms(1) _ free gone] free by (simp_all add: track_ok_def)
  moreover have "wr_cursor ?st = Some (wd_entry ?d)" by (simp add: initial_run_def)
  ultimately show ?thesis using gone assms by (simp add: on_track_def time_left_def)
qed


section \<open>At a concrete document\<close>

text \<open>A shuffle of two delays, entered by its own edge, and the same with an edge drawn straight into one of them.\<close>

definition demo_pair :: "ident \<Rightarrow> wf_doc" where
  "demo_pair first = (demo_doc
     [demo_node ''s'' True (Start (Some first)),
      demo_node ''m'' True (Shuffle [''a'', ''b''] (EConst (VNum (JFin 5))) 5 True None),
      demo_node ''a'' True (Delay (EConst (VNum (JFin 7))) 10 None),
      demo_node ''b'' True (Delay (EConst (VNum (JFin 7))) 20 None)])\<lparr>wd_max_steps := 9\<rparr>"

definition no_scripts :: resolved_refs where
  "no_scripts ref = None"

lemma demo_pair_checked:
  "accepted (demo_pair ''m'')" "members_in_bounds (demo_pair ''m'')" "members_not_targets (demo_pair ''m'')"
  "passes (check_workflow no_scripts VUndef (Some 35) (demo_pair ''m''))"
  "accepted (demo_pair ''a'')" "members_in_bounds (demo_pair ''a'')"
  "passes (check_workflow no_scripts VUndef (Some 10) (demo_pair ''a''))"
  by code_simp+

lemma demo_env_doc [simp]: "we_doc (demo_env d) = d"
  by (simp add: demo_env_def)


lemma demo_pair_nodes:
  "node_of (demo_pair f) ''s'' = Some (demo_node ''s'' True (Start (Some f)))"
  "node_of (demo_pair f) ''m'' = Some (demo_node ''m'' True (Shuffle [''a'', ''b''] (EConst (VNum (JFin 5))) 5 True None))"
  "node_of (demo_pair f) ''a'' = Some (demo_node ''a'' True (Delay (EConst (VNum (JFin 7))) 10 None))"
  "node_of (demo_pair f) ''b'' = Some (demo_node ''b'' True (Delay (EConst (VNum (JFin 7))) 20 None))"
  "owner_of (demo_pair f) ''a'' = Some ''m''" "wd_max_steps (demo_pair f) = 9" "wd_entry (demo_pair f) = ''s''"
  by (simp_all add: demo_pair_def demo_doc_def demo_node_def node_of_def owner_of_def shuffle_owner_def memberships_def)

lemma demo_visit:
  assumes "wr_shuffled st = []"
  shows "\<exists>m \<in> {''a'', ''b''}. sh_edge (visit_of (demo_env (demo_pair f)) ti st
    (demo_node ''m'' True (Shuffle [''a'', ''b''] e b c x))) = Member m"
proof -
  have left: "left_over [''a'', ''b''] (enabled_in (demo_pair f)) (set (shuffled st ''m'')) = [''a'', ''b'']"
    using assms by (simp add: left_over_def enabled_in_def demo_pair_nodes shuffled_def) (simp add: demo_node_def)
  obtain w where w: "derive_random (we_seed (demo_env (demo_pair f))) (js_of_int (int (wr_step st + wr_offset st))) = unit_interval w"
    by (simp add: derive_random_def mulberry32_def)
  let ?k = "unat w * length [''a'', ''b''] div 2 ^ 32"
  have draw: "sh_edge (compute_shuffle [''a'', ''b''] (set (shuffled st ''m'')) (unit_interval w) (enabled_in (demo_pair f)))
      = Member ([''a'', ''b''] ! ?k)" "?k < length [''a'', ''b'']"
    using compute_shuffle_draws [OF left, of w] by simp_all
  have "[''a'', ''b''] ! ?k \<in> set [''a'', ''b'']" by (rule nth_mem [OF draw(2)])
  moreover have "visit_of (demo_env (demo_pair f)) ti st (demo_node ''m'' True (Shuffle [''a'', ''b''] e b c x))
      = compute_shuffle [''a'', ''b''] (set (shuffled st ''m'')) (unit_interval w) (enabled_in (demo_pair f))"
    unfolding visit_of_def w by (simp add: demo_node_def)
  ultimately show ?thesis using draw(1) by (metis list.simps(15) set_empty list.set(1))
qed

lemma waits_that_end:
  assumes "ti_wait ti = WaitDone"
  shows "wr_cursor (fst (delay_turn env ti seq n ms max_ms st)) = advance_cursor (we_doc env) n Next"
    and "snd (delay_turn env ti seq n ms max_ms st) = None" and "snd (shuffle_turn env ti seq n mem btw bmax st) = None"
  using assms by (simp_all add: delay_turn_def shuffle_turn_def cursor_simps Let_def waiting_def split: prod.split)

lemma demo_step:
  assumes "node_of (demo_pair f) k = Some n" "n_enabled n" "\<not> is_start (n_body n)" "\<not> is_finish (n_body n)" "wr_step st < 9"
  shows "wf_turn (demo_env (demo_pair f)) (demo_turn WaitDone) k st = step_turn (demo_env (demo_pair f)) (demo_turn WaitDone) n st"
proof -
  have "ti_aborted (demo_turn WaitDone) = None" "\<not> ti_max_total (demo_turn WaitDone) < ti_elapsed (demo_turn WaitDone)"
    by (simp_all add: demo_turn_def)
  with assms show ?thesis by (cases "n_body n") (simp_all add: wf_turn_def Let_def demo_pair_nodes)
qed

text \<open>
  The members of a shuffle have to be entered by their shuffle: with the edge drawn straight into a member, the check accepts a total of
  10 milliseconds for a run that goes on to the shuffle and to a member it draws.
\<close>

theorem drawn_into_a_member_overspends:
  "passes (check_workflow no_scripts VUndef (Some 10) (demo_pair ''a''))
   \<and> 20 \<le> loop_charge no_scripts (demo_env (demo_pair ''a'')) (replicate 4 (demo_turn WaitDone)) (initial_run (demo_pair ''a'') 0)"
proof -
  let ?env = "demo_env (demo_pair ''a'')" and ?ti = "demo_turn WaitDone" and ?st0 = "initial_run (demo_pair ''a'') 0"
  let ?an = "demo_node ''a'' True (Delay (EConst (VNum (JFin 7))) 10 None)"
  let ?mn = "demo_node ''m'' True (Shuffle [''a'', ''b''] (EConst (VNum (JFin 5))) 5 True None)"
  define st1 where "st1 = move_to (Some ''a'') ?st0"
  have ti: "ti_aborted ?ti = None" "\<not> ti_max_total ?ti < ti_elapsed ?ti" "ti_wait ?ti = WaitDone" by (simp_all add: demo_turn_def)
  have pins: "jm_get (we_pins ?env) k = None" for k by (simp add: demo_env_def)
  have t1: "wf_turn ?env ?ti ''s'' ?st0 = (st1, None)"
    using ti by (simp add: wf_turn_def Let_def demo_pair_nodes initial_run_def st1_def) (simp add: demo_node_def)
  have st1: "wr_cursor st1 = Some ''a''" "wr_step st1 = 0" "wr_shuffled st1 = []"
    by (simp_all add: st1_def cursor_simps) (simp_all add: initial_run_def)
  obtain st2 where st2: "step_turn ?env ?ti ?an st1 = (st2, None)"
    using waits_that_end(2) [OF ti(3)] pins by (cases "step_turn ?env ?ti ?an st1") (simp add: step_turn_def Let_def demo_node_def, metis snd_conv)
  have t2: "wf_turn ?env ?ti ''a'' st1 = (st2, None)"
    using demo_step [of "''a''" "''a''" ?an st1] st1 st2 by (simp add: demo_pair_nodes) (simp add: demo_node_def)
  have to_m: "wr_cursor st2 = Some ''m''" "wr_shuffled st2 = []" "wr_step st2 = 1"
  proof -
    have "st2 = fst (step_turn ?env ?ti ?an st1)" by (simp add: st2)
    then show "wr_cursor st2 = Some ''m''"
      using waits_that_end(1) [OF ti(3)] pins by (simp add: step_turn_def Let_def demo_node_def advance_cursor_def successor_of_def demo_pair_nodes)
    show "wr_shuffled st2 = []" using step_turn_exits [OF st2] pins st1 by (simp add: demo_node_def)
    show "wr_step st2 = 1" using step_turn_counts [OF st2] st1 by (simp add: demo_node_def)
  qed
  obtain st3 where st3: "step_turn ?env ?ti ?mn st2 = (st3, None)"
    using waits_that_end(3) [OF ti(3)] pins by (cases "step_turn ?env ?ti ?mn st2") (simp add: step_turn_def Let_def demo_node_def, metis snd_conv)
  have body: "n_enabled ?mn" "\<not> is_start (n_body ?mn)" "\<not> is_finish (n_body ?mn)" "is_shuffle (n_body ?mn)" by (simp_all add: demo_node_def)
  have t3: "wf_turn ?env ?ti ''m'' st2 = (st3, None)"
    using demo_step [OF demo_pair_nodes(2) body(1-3)] to_m(3) st3 by simp
  obtain m where m: "m \<in> {''a'', ''b''}" "sh_edge (visit_of ?env ?ti st2 ?mn) = Member m"
    using demo_visit [OF to_m(2)] by (rule bexE)
  have "advance_cursor (demo_pair ''a'') ?mn (Member m) = Some m"
    using m(1) by (auto simp: demo_node_def advance_cursor_def successor_of_def)
  then have at_m: "wr_cursor st3 = Some m" using shuffle_turn_exits [OF st3 pins body(4)] m(2) by simp
  have third: "wr_step st3 = 2" using step_turn_counts [OF st3] body(2,3) to_m(3) by simp
  have "10 \<le> turn_charge no_scripts ?env ?ti m st3"
    using m(1) third pins ti by (auto simp: turn_charge_def demo_pair_nodes node_cost_def) (auto simp: demo_node_def)
  moreover have "turn_charge no_scripts ?env ?ti ''a'' st1 = 10"
    using st1 pins ti by (simp add: turn_charge_def demo_pair_nodes) (simp add: demo_node_def node_cost_def)
  moreover have "wr_cursor ?st0 = Some ''s''" by (simp add: initial_run_def demo_pair_nodes)
  ultimately show ?thesis
    using demo_pair_checked(7) st1(1) to_m(1) at_m by (simp add: numeral_eq_Suc t1 t2 t3)
qed

end
