(* ===== verification/Spec2Isabelle.thy ===== *)
theory Spec2Isabelle
  imports Policy Activity DeviceState JsValue QueueProperties BatchStatus FailureClass ExecutorHost Scheduler
    ShellFrames Demuxer Semaphore AdbQueue AdbWire Tracker Frames Allocators Tunnel InputArbiter WfTotal
begin

text \<open>
  enkaku is a phone-farm server: it keeps a fleet of Android phones attached over adb, runs scripts and workflows on them from a
  queue, and streams their screens to a browser. This development models the parts that decide something: the queue and its
  scheduler, the workflow engine, the expression language, the byte protocols, and the bookkeeping of devices. All file names below are
  under \<open>src/packages/\<close>.

  \<^bold>\<open>How the theories correspond to the code.\<close>

  \<^item> Shared vocabulary. \<open>Prelude\<close>: identifiers, clocks, the insertion-ordered JavaScript \<open>Map\<close> (\<open>jmap\<close>, with \<open>jm_get\<close>,
    \<open>jm_set\<close>), first-match searches. \<open>JsValue\<close>: IEEE doubles as rationals rounded once, the JavaScript values and their comparisons.
    \<open>Bytes\<close>: byte strings, the integer reads of a \<open>DataView\<close>, lossy UTF-8, and the locale \<open>unit_parser\<close> of incremental parsers.

  \<^item> Devices. \<open>Policy\<close> and \<open>Activity\<close>: the admission policy and the activity registry (\<open>core/src/activity\<close>). \<open>DeviceState\<close>: the stored
    status with its compare-and-set (\<open>core/src/device/state-machine.ts\<close>). \<open>InputArbiter\<close>: the priority lanes in front of a device's
    touch screen (\<open>session/src/input-arbiter.ts\<close>).

  \<^item> The queue. \<open>Database\<close>: the tables. \<open>RunStore\<close>: runs and the columns of a job that repeat them (\<open>core/src/jobs/runs/store.ts\<close>).
    \<open>RunSweeper\<close>: retention. \<open>JobStore\<close>: claiming, paging, cancelling (\<open>core/src/queue/job-store.ts\<close>). \<open>QueueMachine\<close>: every operation
    that changes the tables as one step of a machine. \<open>QueueProperties\<close>: what holds in every state the machine reaches.
    \<open>BatchStatus\<close>: batches, their derived status and the sequential pacer (\<open>core/src/groups\<close>). \<open>FailureClass\<close>: whose fault a failure is.
    \<open>ExecutorHost\<close>: starting, settling and rebinding a run. \<open>Scheduler\<close>: the claim loop, the reaper and the watcher.

  \<^item> Byte protocols. \<open>ShellFrames\<close>, \<open>Semaphore\<close>, \<open>AdbQueue\<close>, \<open>AdbWire\<close>, \<open>Tracker\<close>: package \<open>adb\<close>. \<open>ByteRing\<close> and \<open>Demuxer\<close>: the video
    stream of package \<open>scrcpy\<close>. \<open>Frames\<close>: the binary frames of package \<open>protocol\<close>. \<open>Allocators\<close> and \<open>Tunnel\<close>: channels and ports.

  \<^item> The expression language (package \<open>expr\<close>). \<open>ExprSyntax\<close>, \<open>ExprParse\<close>: tokens, the tree, the parser with its caps. \<open>ExprValue\<close>,
    \<open>ExprRandom\<close>, \<open>ExprFunctions\<close>, \<open>ExprEval\<close>: values with identity, the seeded random numbers, the function table, the evaluator.
    \<open>ExprScope\<close>: how a host value enters it.

  \<^item> Workflows. \<open>WfTypes\<close>: the document and its schema (\<open>protocol/src/workflow.ts\<close>). \<open>WfResolve\<close>: bindings and predicates
    (\<open>protocol/src/workflow-resolve.ts\<close>). \<open>WfSteps\<close>: what one node computes (\<open>core/src/workflows/step-compute.ts\<close>,
    \<open>protocol/src/workflow-set.ts\<close>). \<open>WfGraph\<close>, \<open>WfCheck\<close>: the publish check (\<open>protocol/src/workflow-check.ts\<close>). \<open>WfExecutor\<close>: the
    orchestrator (\<open>core/src/jobs/executors/workflow.ts\<close>). \<open>WfRuns\<close>: what every run keeps. \<open>WfBudget\<close>, \<open>WfTime\<close>, \<open>WfTotal\<close>: the time a run
    may spend against the total the check compared.

  \<^bold>\<open>How state and effects are modelled.\<close> A transaction of the database, a handler that runs to its end without awaiting, and the code
  between two awaits are each one function on an explicit state record. Where the code awaits, its continuation is another step, and the
  order of the steps is free: the semaphore, the adb queue, the socket, the port allocator, the arbiter and the executor host are
  stated over every interleaving. Clocks, random bits, fresh identifiers, the answers of the operating system, of a child process and of the
  schema library are arguments. Errors are values: a sum with the error on the left, or an option. JavaScript numbers are \<open>jsnum\<close>; where
  the code stays within exact integers, \<open>int\<close> or \<open>nat\<close>; the 32-bit mixing of the random numbers and the bytes are words.

  \<^bold>\<open>What the lemmas show.\<close> For each component: an invariant and its preservation by every operation, the exact effect of each
  operation on every branch, and the contract with its neighbours. The interfaces are locales, each interpreted on the model: parsers that give the same
  units however their input is cut (\<open>unit_parser\<close>: shell packets, video packets), first-in-first-out windows (\<open>byte_fifo\<close>), allocators of
  scarce numbers (\<open>id_allocator\<close>: channels, ports), selection by a key (\<open>keyed_order\<close>: the claim, the next run), columns derived from runs
  (\<open>run_columns\<close>), parser productions (\<open>production_rules\<close>), function libraries that keep the evaluator's budget (\<open>steady_library\<close>), what
  the turns of a workflow keep (\<open>turn_invariant\<close>) and what they may spend (\<open>turn_budget\<close>).

  \<^bold>\<open>Bounds and fuel.\<close> Loops that the code bounds by its data recurse on that data. Elsewhere the bound is an argument and is proved to be
  enough: a scheduler pass gets one more turn than the queue has runs; the parser 16 steps per token plus 11; the walk of the longest path the number
  of nodes plus 2; the equality of values the depth of the smaller one; the scan of a JSON schema its size. The evaluator's 10,000 units, the
  64 levels of a host value and the caps on tokens and nodes are the code's own. A workflow run gets a list of turns: that it
  ends within so many is a theorem, with the documents for which it does not.

  \<^bold>\<open>Not modelled.\<close> The HTTP routes and the wire schemas, the browser studio, the composition of the daemon, device drivers and sessions, the
  agent chat, the toolchain download and the social media plugins: these move data between a library and a socket, a process or a screen,
  and have no state the model could keep beyond what the library holds. Of modelled files, what is left out is named in the text of the
  theory: connection set-up and deadline timers of the adb socket, pending calls of the tunnel, field checks of the schema library.
\<close>

end
